(* ===== verification/Prelude.thy ===== *)
theory Prelude
  imports Main "HOL-Library.Word"
begin

text \<open>
  The shared base of the library: the machine-integer types of the Rust sources, the
  checked arithmetic of the Rust standard library, the \<open>Result\<close> type with the
  propagation of the \<open>?\<close> operator, little-endian byte strings, and the generic lemmas
  on words and lists that the component theories use.

  A Rust \<open>u8\<close>, \<open>u16\<close>, \<open>u32\<close>, \<open>u64\<close> or \<open>u128\<close> is a word of that width, so a plain
  \<open>+\<close>, \<open>-\<close> or \<open>*\<close> wraps, and \<open>checked_add\<close>, \<open>checked_sub\<close> and \<open>checked_mul\<close> return
  \<open>None\<close> exactly where the Rust methods do. The sources are compiled for 64-bit hosts, where
  \<open>usize\<close> has the width of \<open>u64\<close>; a length or an index into a slice is a \<open>nat\<close>.
\<close>

unbundle bit_operations_syntax

named_theorems checked_simps \<open>value-level readings of the checked arithmetic\<close>

section \<open>Machine integers\<close>

type_synonym u8 = "8 word"
type_synonym u16 = "16 word"
type_synonym u32 = "32 word"
type_synonym u64 = "64 word"
type_synonym u128 = "128 word"
type_synonym bytes = "8 word list"

definition checked_add :: "'a::len word \<Rightarrow> 'a word \<Rightarrow> 'a word option" where
  "checked_add a b = (if unat a + unat b < 2 ^ LENGTH('a) then Some (a + b) else None)"

definition checked_sub :: "'a::len word \<Rightarrow> 'a word \<Rightarrow> 'a word option" where
  "checked_sub a b = (if b \<le> a then Some (a - b) else None)"

definition checked_mul :: "'a::len word \<Rightarrow> 'a word \<Rightarrow> 'a word option" where
  "checked_mul a b = (if unat a * unat b < 2 ^ LENGTH('a) then Some (a * b) else None)"

text \<open>Code equations over binary integers, for evaluation on concrete values.\<close>

lemma checked_add_code [code]:
  "checked_add (a :: 'a::len word) b =
     (if uint a + uint b < 2 ^ LENGTH('a) then Some (a + b) else None)"
proof -
  have "int (unat a + unat b) < int (2 ^ LENGTH('a)) \<longleftrightarrow> uint a + uint b < 2 ^ LENGTH('a)"
    by (simp only: of_nat_add of_nat_power of_nat_numeral of_nat_unat)
  then show ?thesis by (simp only: checked_add_def of_nat_less_iff)
qed

lemma checked_mul_code [code]:
  "checked_mul (a :: 'a::len word) b =
     (if uint a * uint b < 2 ^ LENGTH('a) then Some (a * b) else None)"
proof -
  have "int (unat a * unat b) < int (2 ^ LENGTH('a)) \<longleftrightarrow> uint a * uint b < 2 ^ LENGTH('a)"
    by (simp only: of_nat_mult of_nat_power of_nat_numeral of_nat_unat)
  then show ?thesis by (simp only: checked_mul_def of_nat_less_iff)
qed

text \<open>\<open>div_ceil\<close> rounds the exact quotient up; it has no intermediate sum to overflow.\<close>

definition div_ceil :: "'a::len word \<Rightarrow> 'a word \<Rightarrow> 'a word" where
  "div_ceil a b = (if a mod b = 0 then a div b else a div b + 1)"

lemma unat_less_pow [simp]: "unat (w :: 'a::len word) < 2 ^ LENGTH('a)"
  by simp

lemma unat_u64_less: "unat (w :: u64) < 18446744073709551616"
  using unsigned_less [of w] by simp

lemma word_eq_of_unat: "unat (a :: 'a::len word) = unat b \<Longrightarrow> a = b"
  by (simp add: word_unat_eq_iff)

lemma unat_plus_exact: "unat (a :: 'a::len word) + unat b < 2 ^ LENGTH('a) \<Longrightarrow>
    unat (a + b) = unat a + unat b"
  by (simp add: unat_word_ariths)

lemma unat_mult_exact: "unat (a :: 'a::len word) * unat b < 2 ^ LENGTH('a) \<Longrightarrow>
    unat (a * b) = unat a * unat b"
  by (simp add: unat_word_ariths)

lemma unat_minus_exact: "b \<le> a \<Longrightarrow> unat ((a :: 'a::len word) - b) = unat a - unat b"
  by (rule unat_sub)

lemma word_low_high: "w = take_bit n w XOR push_bit n (drop_bit n w)" for w :: "'a::len word"
  by (rule bit_word_eqI) (auto simp: bit_simps)

lemma unat_drop_bit_1 [simp]: "unat (drop_bit (Suc 0) w) = unat w div 2" for w :: "'a::len word"
  by (simp only: unat_drop_bit_eq) (simp add: drop_bit_eq_div)

lemma unat_drop_bit_1_less: "w \<noteq> 0 \<Longrightarrow> unat (drop_bit 1 w) < unat w" for w :: "'a::len word"
  by (simp add: unat_gt_0)

text \<open>Widening and narrowing casts (\<open>as\<close> and \<open>From\<close>) read at the level of values.\<close>

lemma unat_ucast_up: "LENGTH('a) \<le> LENGTH('b) \<Longrightarrow>
    unat (ucast (w :: 'a::len word) :: 'b::len word) = unat w"
  by (simp add: unsigned_ucast_eq take_bit_nat_eq_self_iff
      order_less_le_trans [OF unat_less_pow] power_increasing)

lemma unat_ucast_down: "unat (w :: 'a::len word) < 2 ^ LENGTH('b) \<Longrightarrow>
    unat (ucast w :: 'b::len word) = unat w"
  by (simp add: unsigned_ucast_eq take_bit_nat_eq_self_iff)

lemma unat_ucast_widen [simp]:
  "unat (ucast (a :: u16) :: u32) = unat a" "unat (ucast (a :: u16) :: u64) = unat a"
  "unat (ucast (b :: u32) :: u64) = unat b" "unat (ucast (b :: u32) :: u128) = unat b"
  "unat (ucast (c :: u64) :: u128) = unat c"
  by (simp_all add: unat_ucast_up)

lemma unat_u16_less: "unat (w :: u16) < 65536"
  using unsigned_less [of w] by simp

lemma unat_u32_less: "unat (w :: u32) < 4294967296"
  using unsigned_less [of w] by simp

text \<open>The value-level reading of a successful checked operation.\<close>

lemma checked_add_Some [checked_simps]:
  "checked_add a b = Some c \<longleftrightarrow> unat a + unat b = unat c"
proof
  assume "checked_add a b = Some c"
  then show "unat a + unat b = unat c"
    by (auto simp: checked_add_def unat_plus_exact split: if_splits)
next
  assume eq: "unat a + unat b = unat c"
  then have lt: "unat a + unat b < 2 ^ LENGTH('a)"
    by simp
  with eq have "a + b = c"
    by (intro word_eq_of_unat) (simp add: unat_plus_exact)
  with lt show "checked_add a b = Some c"
    by (simp add: checked_add_def)
qed

lemma checked_add_None [checked_simps]:
  "checked_add a b = None \<longleftrightarrow> 2 ^ LENGTH('a) \<le> unat (a :: 'a::len word) + unat b"
  by (auto simp: checked_add_def)

lemma checked_sub_Some [checked_simps]:
  "checked_sub a b = Some c \<longleftrightarrow> unat a = unat b + unat c"
proof
  assume "checked_sub a b = Some c"
  then show "unat a = unat b + unat c"
    by (auto simp: checked_sub_def unat_minus_exact word_le_nat_alt split: if_splits)
next
  assume eq: "unat a = unat b + unat c"
  then have le: "b \<le> a"
    by (simp add: word_le_nat_alt)
  with eq have "a - b = c"
    by (intro word_eq_of_unat) (simp add: unat_minus_exact)
  with le show "checked_sub a b = Some c"
    by (simp add: checked_sub_def)
qed

lemma checked_sub_None [checked_simps]: "checked_sub a b = None \<longleftrightarrow> unat a < unat b"
  by (auto simp: checked_sub_def word_le_nat_alt)

lemma checked_mul_Some [checked_simps]:
  "checked_mul a b = Some c \<longleftrightarrow> unat a * unat b = unat c"
proof
  assume "checked_mul a b = Some c"
  then show "unat a * unat b = unat c"
    by (auto simp: checked_mul_def unat_mult_exact split: if_splits)
next
  assume eq: "unat a * unat b = unat c"
  then have lt: "unat a * unat b < 2 ^ LENGTH('a)"
    by simp
  with eq have "a * b = c"
    by (intro word_eq_of_unat) (simp add: unat_mult_exact)
  with lt show "checked_mul a b = Some c"
    by (simp add: checked_mul_def)
qed

lemma checked_mul_None [checked_simps]:
  "checked_mul a b = None \<longleftrightarrow> 2 ^ LENGTH('a) \<le> unat (a :: 'a::len word) * unat b"
  by (auto simp: checked_mul_def)

lemma nat_ceil_div:
  assumes b: "0 < (b :: nat)"
  shows "(a + b - 1) div b = (if a mod b = 0 then a div b else a div b + 1)"
proof (cases "a mod b = 0")
  case True
  then have "b * (a div b) = a" by auto
  then have "(a + b - 1) div b = a div b"
    using b by (intro div_nat_eqI) auto
  with True show ?thesis by simp
next
  case False
  define q r where "q = a div b" and "r = a mod b"
  have "a = b * q + r" and "r < b" and "0 < r"
    using b False by (simp_all add: q_def r_def)
  then have "(a + b - 1) div b = q + 1"
    by (intro div_nat_eqI) (auto simp: algebra_simps)
  then have "(a + b - 1) div b = a div b + 1" by (simp add: q_def)
  with False show ?thesis by simp
qed

lemma unat_div_ceil:
  assumes "b \<noteq> 0"
  shows "unat (div_ceil a b) = (unat a + unat b - 1) div unat b"
proof -
  have b: "0 < unat b" using assms by (simp add: unat_gt_0)
  have mod: "a mod b = 0 \<longleftrightarrow> unat a mod unat b = 0"
    by (metis unat_0_iff unat_mod)
  have "unat (a div b + 1) = unat a div unat b + 1" if "unat a mod unat b \<noteq> 0"
  proof -
    have "unat b \<noteq> 1" using that by auto
    with b that have "unat a div unat b < unat a"
      by (intro div_less_dividend) (auto intro: ccontr)
    then have "unat a div unat b + 1 < 2 ^ LENGTH('a)"
      using unat_less_pow [of a] by linarith
    then show ?thesis by (simp add: unat_plus_exact unat_div)
  qed
  then show ?thesis
    using nat_ceil_div [OF b, of "unat a"] by (simp add: div_ceil_def mod unat_div)
qed

lemma unat_exists: "x < 2 ^ 64 \<Longrightarrow> \<exists>w :: u64. unat w = x"
  by (intro exI [of _ "word_of_nat x"]) (simp add: unsigned_of_nat take_bit_nat_eq_self_iff)

lemma unat_word_of_nat: "i < 2 ^ 64 \<Longrightarrow> unat (word_of_nat i :: u64) = i"
  by (simp add: unsigned_of_nat take_bit_nat_eq_self_iff)

lemma ex_u64: "(\<exists>v :: u64. unat v = a \<and> P (unat v)) \<longleftrightarrow> a < 2 ^ 64 \<and> P a"
  using unat_exists [of a] unat_u64_less by auto

lemma unat_u64_neq [simp]: "unat (w :: u64) \<noteq> 18446744073709551616"
  using unat_u64_less [of w] by simp

section \<open>Results and error propagation\<close>

text \<open>
  \<open>Result<T, E>\<close> is the sum type \<open>'e + 'a\<close>: \<open>Inl e\<close> is \<open>Err(e)\<close>, \<open>Inr x\<close> is \<open>Ok(x)\<close>.
  The statement \<open>let x = m?; f\<close> is \<open>rbind m (\<lambda>x. f)\<close>; the early return
  \<open>if c { return Err(e) }\<close> is \<open>if c then Inl e else\<close> before the rest of the function.
\<close>

definition rbind :: "'e + 'a \<Rightarrow> ('a \<Rightarrow> 'e + 'b) \<Rightarrow> 'e + 'b" where
  "rbind m f = (case m of Inl e \<Rightarrow> Inl e | Inr x \<Rightarrow> f x)"

definition ok_or :: "'e \<Rightarrow> 'a option \<Rightarrow> 'e + 'a" where
  "ok_or e x = (case x of None \<Rightarrow> Inl e | Some y \<Rightarrow> Inr y)"

definition map_err :: "('e \<Rightarrow> 'f) \<Rightarrow> 'e + 'a \<Rightarrow> 'f + 'a" where
  "map_err g m = (case m of Inl e \<Rightarrow> Inl (g e) | Inr x \<Rightarrow> Inr x)"

text \<open>\<open>Iterator::try_fold\<close>: a left fold that stops at the first error.\<close>

fun try_fold :: "('s \<Rightarrow> 'a \<Rightarrow> 'e + 's) \<Rightarrow> 's \<Rightarrow> 'a list \<Rightarrow> 'e + 's" where
  "try_fold f s [] = Inr s"
| "try_fold f s (x # xs) = rbind (f s x) (\<lambda>s'. try_fold f s' xs)"

text \<open>\<open>Iterator::map\<close> collected into a \<open>Result<Vec<_>, _>\<close>: the first error stops it.\<close>

fun try_map :: "('a \<Rightarrow> 'e + 'b) \<Rightarrow> 'a list \<Rightarrow> 'e + 'b list" where
  "try_map f [] = Inr []"
| "try_map f (x # xs) = rbind (f x) (\<lambda>y. rbind (try_map f xs) (\<lambda>ys. Inr (y # ys)))"

lemma rbind_Inl [simp]: "rbind (Inl e) f = Inl e"
  and rbind_Inr [simp]: "rbind (Inr x) f = f x"
  by (simp_all add: rbind_def)

lemma rbind_eq_Inr [simp]: "rbind m f = Inr y \<longleftrightarrow> (\<exists>x. m = Inr x \<and> f x = Inr y)"
  by (cases m) auto

lemma rbind_eq_Inl:
  "rbind m f = Inl e \<longleftrightarrow> m = Inl e \<or> (\<exists>x. m = Inr x \<and> f x = Inl e)"
  by (cases m) auto

lemma ok_or_None [simp]: "ok_or e None = Inl e"
  and ok_or_Some [simp]: "ok_or e (Some x) = Inr x"
  by (simp_all add: ok_or_def)

lemma ok_or_eq_Inr [simp]: "ok_or e x = Inr y \<longleftrightarrow> x = Some y"
  by (cases x) auto

lemma ok_or_eq_Inl [simp]: "ok_or e x = Inl e' \<longleftrightarrow> x = None \<and> e' = e"
  by (cases x) auto

lemma map_err_Inl [simp]: "map_err g (Inl e) = Inl (g e)"
  and map_err_Inr [simp]: "map_err g (Inr x) = Inr x"
  by (simp_all add: map_err_def)

lemma map_err_eq_Inr [simp]: "map_err g m = Inr y \<longleftrightarrow> m = Inr y"
  by (cases m) auto

lemma guard_Inr [simp]: "(if c then Inl e else m) = Inr y \<longleftrightarrow> \<not> c \<and> m = Inr y"
  by simp

lemma try_fold_append:
  "try_fold f s (xs @ ys) = rbind (try_fold f s xs) (\<lambda>s'. try_fold f s' ys)"
proof (induction xs arbitrary: s)
  case (Cons x xs)
  then show ?case by (cases "f s x") auto
qed simp

lemma try_map_Inr: "(\<And>x. x \<in> set xs \<Longrightarrow> f x = Inr (g x)) \<Longrightarrow> try_map f xs = Inr (map g xs)"
  by (induction xs) simp_all

lemma try_map_length: "try_map f xs = Inr ys \<Longrightarrow> length ys = length xs"
  by (induction xs arbitrary: ys) auto

lemma try_map_nth: "try_map f xs = Inr ys \<Longrightarrow> i < length xs \<Longrightarrow> f (xs ! i) = Inr (ys ! i)"
  by (induction xs arbitrary: ys i) (auto simp: nth_Cons split: nat.splits)

section \<open>Stateful results\<close>

text \<open>
  An operation on a device or on a mutable object maps the state to a result and a new state; the new
  state is there on the error path as well. In \<open>sbind err m f\<close> the error of \<open>m\<close> passes through \<open>err\<close>,
  as the \<open>?\<close> operator converts it, and stops the sequence.
\<close>

definition sbind ::
  "('e \<Rightarrow> 'f) \<Rightarrow> ('s \<Rightarrow> ('e + 'a) \<times> 's) \<Rightarrow> ('a \<Rightarrow> 's \<Rightarrow> ('f + 'b) \<times> 's) \<Rightarrow> 's \<Rightarrow> ('f + 'b) \<times> 's" where
  "sbind err m f = (\<lambda>s. case m s of (Inl e, s') \<Rightarrow> (Inl (err e), s') | (Inr x, s') \<Rightarrow> f x s')"

definition slift :: "'e + 'a \<Rightarrow> 's \<Rightarrow> ('e + 'a) \<times> 's" where
  "slift m = (\<lambda>s. (m, s))"

lemma sbind_Inr: "sbind err m f s = (Inr y, s'') \<longleftrightarrow>
    (\<exists>x s'. m s = (Inr x, s') \<and> f x s' = (Inr y, s''))"
  by (auto simp: sbind_def split: prod.splits sum.splits)

lemma slift_Inr: "slift m s = (Inr y, s') \<longleftrightarrow> m = Inr y \<and> s' = s"
  by (auto simp: slift_def)

end
