(* ===== verification/StreamDigest.thy ===== *)
theory StreamDigest
  imports Main
begin

text \<open>
  The contract of a running checksum, as its clients use it: a state that is advanced over
  pieces of a stream, that never forgets a difference once it has one, and that tells any two
  equally long pieces of at most \<open>width\<close> elements apart. The clients' facts are proved here once,
  for every such checksum.
\<close>

locale stream_digest =
  fixes update :: "'s \<Rightarrow> 'a list \<Rightarrow> 's" and width :: nat
  assumes update_append: "update s (xs @ ys) = update (update s xs) ys"
    and state_inj: "update s xs = update t xs \<Longrightarrow> s = t"
    and piece_inj: "length xs = length ys \<Longrightarrow> length xs \<le> width \<Longrightarrow>
      update s xs = update s ys \<Longrightarrow> xs = ys"
begin

lemma update_Nil: "update s [] = s"
  using update_append [of s "[]" "[]"] state_inj [of s "[]" "update s []"] by simp

lemma burst_detected:
  assumes "length ys = length ys'" "length ys \<le> width" "ys \<noteq> ys'"
  shows "update s (xs @ ys @ zs) \<noteq> update s (xs @ ys' @ zs)"
  using assms piece_inj [of ys ys' "update s xs"]
  by (auto simp: update_append dest: state_inj)

lemma fold_records: "foldl (\<lambda>s r. update s (enc r)) s rs = update s (concat (map enc rs))"
  by (induction rs arbitrary: s) (simp_all add: update_Nil update_append)

lemma record_change_detected:
  assumes "\<And>r. length (enc r) = w" "w \<le> width" "inj enc" "a \<noteq> b"
  shows "update s (concat (map enc (xs @ a # ys))) \<noteq> update s (concat (map enc (xs @ b # ys)))"
  using assms burst_detected [of "enc a" "enc b" s "concat (map enc xs)" "concat (map enc ys)"]
  by (auto dest: injD)

end

end
