(* ===== verification/Crc64.thy ===== *)
theory Crc64
  imports Prelude StreamDigest
begin

text \<open>
  The CRC-64/XZ of \<open>crates/remanence-crc/src/lib.rs\<close>: the reflected bit step, the 256-entry
  table, the one-byte update, and the eight-bytes-at-a-time loop over eight table slices. The
  parity sidecars, the control files and the audit log are all checked with it.
\<close>

section \<open>The code\<close>

definition CRC64_XZ_CHECK_VALUE :: u64 where
  "CRC64_XZ_CHECK_VALUE = 0x995DC9BBDF1939FA"

definition CRC64_XZ_REFLECTED_POLY :: u64 where
  "CRC64_XZ_REFLECTED_POLY = 0xC96C5795D7870F42"

definition crc64_xz_bit_step :: "u64 \<Rightarrow> u64" where
  "crc64_xz_bit_step crc =
     (if crc AND 1 = 1 then drop_bit 1 crc XOR CRC64_XZ_REFLECTED_POLY else drop_bit 1 crc)"

definition crc64_xz_table_entry :: "u8 \<Rightarrow> u64" where
  "crc64_xz_table_entry byte = (crc64_xz_bit_step ^^ 8) (ucast byte)"

definition build_crc64_xz_table :: "u64 list" where
  "build_crc64_xz_table = map (\<lambda>byte. crc64_xz_table_entry (word_of_nat byte)) [0..<256]"

definition crc64_xz_next_slice :: "u64 list \<Rightarrow> u64 list" where
  "crc64_xz_next_slice prev =
     map (\<lambda>crc. drop_bit 8 crc XOR build_crc64_xz_table ! unat (crc AND 0xff)) prev"

definition build_crc64_xz_slices :: "u64 list list" where
  "build_crc64_xz_slices =
     map (\<lambda>slice. (crc64_xz_next_slice ^^ slice) build_crc64_xz_table) [0..<8]"

definition crc64_xz_update :: "u64 \<Rightarrow> u8 \<Rightarrow> u64" where
  "crc64_xz_update crc byte =
     (let index = unat ((crc XOR ucast byte) AND 0xFF)
      in drop_bit 8 crc XOR build_crc64_xz_table ! index)"

fun from_le_bytes :: "bytes \<Rightarrow> u64" where
  "from_le_bytes [] = 0"
| "from_le_bytes (b # bs) = ucast b OR push_bit 8 (from_le_bytes bs)"

definition crc64_xz_chunk_step :: "u64 \<Rightarrow> bytes \<Rightarrow> u64" where
  "crc64_xz_chunk_step crc chunk =
     (let word = crc XOR from_le_bytes chunk
      in build_crc64_xz_slices ! 7 ! unat (word AND 0xff)
         XOR build_crc64_xz_slices ! 6 ! unat (drop_bit 8 word AND 0xff)
         XOR build_crc64_xz_slices ! 5 ! unat (drop_bit 16 word AND 0xff)
         XOR build_crc64_xz_slices ! 4 ! unat (drop_bit 24 word AND 0xff)
         XOR build_crc64_xz_slices ! 3 ! unat (drop_bit 32 word AND 0xff)
         XOR build_crc64_xz_slices ! 2 ! unat (drop_bit 40 word AND 0xff)
         XOR build_crc64_xz_slices ! 1 ! unat (drop_bit 48 word AND 0xff)
         XOR build_crc64_xz_slices ! 0 ! unat (drop_bit 56 word))"

function crc64_xz_update_slice :: "u64 \<Rightarrow> bytes \<Rightarrow> u64" where
  "crc64_xz_update_slice crc bytes =
     (if 8 \<le> length bytes
      then crc64_xz_update_slice (crc64_xz_chunk_step crc (take 8 bytes)) (drop 8 bytes)
      else foldl crc64_xz_update crc bytes)"
  by pat_completeness auto
termination
  by (relation "measure (\<lambda>(crc, bytes). length bytes)") auto

declare crc64_xz_update_slice.simps [simp del]

definition crc64_xz :: "bytes \<Rightarrow> u64" where
  "crc64_xz bytes = crc64_xz_update_slice (- 1) bytes XOR (- 1)"

declare upt_rec_numeral [simp del]

section \<open>The reference: one bit at a time\<close>

definition crc_byte_ref :: "u64 \<Rightarrow> u8 \<Rightarrow> u64" where
  "crc_byte_ref crc byte = (crc64_xz_bit_step ^^ 8) (crc XOR ucast byte)"

definition crc64_xz_ref :: "bytes \<Rightarrow> u64" where
  "crc64_xz_ref bytes = foldl crc_byte_ref (- 1) bytes XOR (- 1)"

section \<open>Linearity of the bit step\<close>

lemma bit_step_alt:
  "crc64_xz_bit_step w = drop_bit 1 w XOR (if odd w then CRC64_XZ_REFLECTED_POLY else 0)"
  by (simp add: crc64_xz_bit_step_def and_one_eq mod_2_eq_odd)

lemma bit_step_xor: "crc64_xz_bit_step (a XOR b) = crc64_xz_bit_step a XOR crc64_xz_bit_step b"
  by (simp add: bit_step_alt even_xor_iff ac_simps xor.left_commute)

lemma bit_step_0 [simp]: "crc64_xz_bit_step 0 = 0"
  by (simp add: bit_step_alt)

lemma bit_steps_xor:
  "(crc64_xz_bit_step ^^ n) (a XOR b) = (crc64_xz_bit_step ^^ n) a XOR (crc64_xz_bit_step ^^ n) b"
  by (induction n) (simp_all add: bit_step_xor)

lemma bit_steps_0 [simp]: "(crc64_xz_bit_step ^^ n) 0 = 0"
  by (induction n) simp_all

text \<open>Bits above the shifted-out part only move down.\<close>

lemma bit_steps_shift: "take_bit n w = 0 \<Longrightarrow> (crc64_xz_bit_step ^^ n) w = drop_bit n w"
proof (induction n arbitrary: w)
  case (Suc n)
  from Suc.prems have "even w"
    by (metis even_take_bit_eq even_zero zero_less_Suc not_gr0 nat.simps(3))
  then have "crc64_xz_bit_step w = drop_bit 1 w"
    by (simp add: bit_step_alt)
  moreover have "take_bit n (drop_bit 1 w) = 0"
    using Suc.prems by (simp add: take_bit_drop_bit)
  ultimately show ?case using Suc.IH [of "drop_bit 1 w"]
    by (simp add: funpow_swap1)
qed simp

lemma bit_steps_push:
  assumes "n + m \<le> 64" and "take_bit m w = w"
  shows "(crc64_xz_bit_step ^^ n) (push_bit n w) = w"
proof -
  have bits: "bit w i \<Longrightarrow> i < m" for i
    using assms(2) by (metis bit_take_bit_iff)
  have "(crc64_xz_bit_step ^^ n) (push_bit n w) = drop_bit n (push_bit n w)"
    by (rule bit_steps_shift) (simp add: take_bit_push_bit)
  also have "\<dots> = w"
    using assms(1) by (intro bit_word_eqI) (auto simp: bit_simps dest: bits)
  finally show ?thesis .
qed

section \<open>The table and the one-byte update\<close>

lemma take_bit_drop_56 [simp]: "take_bit 56 (drop_bit 8 w) = drop_bit 8 w" for w :: u64
  by (rule bit_word_eqI) (auto simp: bit_simps dest: bit_imp_le_length)

lemma low_byte: "take_bit 8 w = (ucast (ucast w :: u8) :: u64)" for w :: u64
  by (rule bit_word_eqI) (auto simp: bit_simps)

lemma and_ff: "w AND 0xFF = (ucast (ucast w :: u8) :: u64)" for w :: u64
  by (simp add: take_bit_eq_mask mask_eq_exp_minus_1 flip: low_byte)

lemma unat_u8_less: "unat (b :: u8) < 256"
  using unsigned_less [of b] by simp

lemma unat_ucast_u8 [simp]: "unat (ucast (b :: u8) :: u64) = unat b"
  by (simp add: unsigned_ucast_eq take_bit_nat_eq_self_iff less_trans [OF unat_u8_less])

lemma table_nth: "build_crc64_xz_table ! unat (w AND 0xFF) = crc64_xz_table_entry (ucast w)"
  for w :: u64
  unfolding and_ff by (simp add: build_crc64_xz_table_def unat_u8_less)

text \<open>A step by a whole byte: look the low byte up, shift the rest.\<close>

lemma bit_steps_peel: "(crc64_xz_bit_step ^^ (n + 8)) w =
    (crc64_xz_bit_step ^^ (n + 8)) (take_bit 8 w) XOR (crc64_xz_bit_step ^^ n) (drop_bit 8 w)"
proof -
  have "(crc64_xz_bit_step ^^ 8) (push_bit 8 (drop_bit 8 w)) = drop_bit 8 w"
    by (rule bit_steps_push [of 8 56]) simp_all
  then have "(crc64_xz_bit_step ^^ (n + 8)) (push_bit 8 (drop_bit 8 w)) =
      (crc64_xz_bit_step ^^ n) (drop_bit 8 w)"
    by (simp only: funpow_add comp_def)
  moreover have "(crc64_xz_bit_step ^^ (n + 8)) w =
      (crc64_xz_bit_step ^^ (n + 8)) (take_bit 8 w XOR push_bit 8 (drop_bit 8 w))"
    by (simp only: word_low_high [symmetric])
  ultimately show ?thesis
    by (simp only: bit_steps_xor)
qed

lemma bit_steps_8: "(crc64_xz_bit_step ^^ 8) w = drop_bit 8 w XOR crc64_xz_table_entry (ucast w)"
  using bit_steps_peel [of 0 w] by (simp add: crc64_xz_table_entry_def low_byte ac_simps)

lemma drop_low_byte: "drop_bit 8 (ucast (b :: u8) :: u64) = 0"
  by (rule bit_word_eqI) (auto simp: bit_simps dest: bit_imp_le_length)

lemma crc64_xz_update_ref: "crc64_xz_update crc byte = crc_byte_ref crc byte"
  by (simp add: crc64_xz_update_def crc_byte_ref_def table_nth bit_steps_8 drop_low_byte)

lemma foldl_update_ref: "foldl crc64_xz_update crc bytes = foldl crc_byte_ref crc bytes"
  by (induction bytes arbitrary: crc) (simp_all add: crc64_xz_update_ref)

section \<open>The table slices\<close>

lemma length_table [simp]: "length build_crc64_xz_table = 256"
  by (simp add: build_crc64_xz_table_def)

lemma length_slice [simp]: "length ((crc64_xz_next_slice ^^ k) build_crc64_xz_table) = 256"
  by (induction k) (simp_all add: crc64_xz_next_slice_def)

lemma slice_nth: "i < 256 \<Longrightarrow> (crc64_xz_next_slice ^^ k) build_crc64_xz_table ! i =
    (crc64_xz_bit_step ^^ (8 * k + 8)) (ucast (word_of_nat i :: u8))"
proof (induction k)
  case 0
  then show ?case by (simp add: build_crc64_xz_table_def crc64_xz_table_entry_def)
next
  case (Suc k)
  let ?prev = "(crc64_xz_next_slice ^^ k) build_crc64_xz_table"
  have "(crc64_xz_next_slice ^^ Suc k) build_crc64_xz_table ! i = (crc64_xz_bit_step ^^ 8) (?prev ! i)"
    using Suc.prems by (simp add: crc64_xz_next_slice_def table_nth bit_steps_8)
  also have "\<dots> = (crc64_xz_bit_step ^^ (8 + (8 * k + 8))) (ucast (word_of_nat i :: u8))"
    using Suc by (simp only: funpow_add comp_def)
  also have "8 + (8 * k + 8) = 8 * Suc k + 8" by simp
  finally show ?case .
qed

lemma slices_nth: "k < 8 \<Longrightarrow> build_crc64_xz_slices ! k ! unat (w AND 0xff) =
    (crc64_xz_bit_step ^^ (8 * k + 8)) (take_bit 8 w)" for w :: u64
proof -
  assume "k < 8"
  then have "build_crc64_xz_slices ! k = (crc64_xz_next_slice ^^ k) build_crc64_xz_table"
    by (simp add: build_crc64_xz_slices_def)
  then show ?thesis
    unfolding and_ff low_byte by (simp add: slice_nth unat_u8_less)
qed

lemma drop_56_and_ff: "drop_bit 56 w AND 0xff = drop_bit 56 w" for w :: u64
  by (simp only: and_ff low_byte [symmetric] take_bit_drop_bit)
    (simp add: take_bit_word_beyond_length_eq)

lemma bit_steps_at: "(crc64_xz_bit_step ^^ (n + 8)) (drop_bit m w) =
    (crc64_xz_bit_step ^^ (n + 8)) (take_bit 8 (drop_bit m w))
    XOR (crc64_xz_bit_step ^^ n) (drop_bit (m + 8) w)"
  using bit_steps_peel [of n "drop_bit m w"] by (simp only: drop_bit_drop_bit add.commute [of 8 m])

text \<open>The eight lookups of one chunk make sixty-four bit steps.\<close>

lemma chunk_step_bits:
  "crc64_xz_chunk_step crc chunk = (crc64_xz_bit_step ^^ 64) (crc XOR from_le_bytes chunk)"
proof -
  define w where "w = crc XOR from_le_bytes chunk"
  define S where "S = (\<lambda>n. crc64_xz_bit_step ^^ n)"
  have at: "S (n + 8) (drop_bit m w) = S (n + 8) (take_bit 8 (drop_bit m w)) XOR S n (drop_bit (m + 8) w)"
    for n m unfolding S_def by (rule bit_steps_at)
  have look: "build_crc64_xz_slices ! k ! unat (drop_bit m w AND 0xff) =
      S (8 * k + 8) (take_bit 8 (drop_bit m w))" if "k < 8" for k m
    unfolding S_def using that by (rule slices_nth)
  have a0: "S 64 w = S 64 (take_bit 8 w) XOR S 56 (drop_bit 8 w)"
    using at [of 56 0] by (simp)
  have a1: "S 56 (drop_bit 8 w) = S 56 (take_bit 8 (drop_bit 8 w)) XOR S 48 (drop_bit 16 w)"
    using at [of 48 8] by (simp)
  have a2: "S 48 (drop_bit 16 w) = S 48 (take_bit 8 (drop_bit 16 w)) XOR S 40 (drop_bit 24 w)"
    using at [of 40 16] by (simp)
  have a3: "S 40 (drop_bit 24 w) = S 40 (take_bit 8 (drop_bit 24 w)) XOR S 32 (drop_bit 32 w)"
    using at [of 32 24] by (simp)
  have a4: "S 32 (drop_bit 32 w) = S 32 (take_bit 8 (drop_bit 32 w)) XOR S 24 (drop_bit 40 w)"
    using at [of 24 32] by (simp)
  have a5: "S 24 (drop_bit 40 w) = S 24 (take_bit 8 (drop_bit 40 w)) XOR S 16 (drop_bit 48 w)"
    using at [of 16 40] by (simp)
  have a6: "S 16 (drop_bit 48 w) = S 16 (take_bit 8 (drop_bit 48 w)) XOR S 8 (drop_bit 56 w)"
    using at [of 8 48] by (simp)
  have a7: "S 8 (drop_bit 56 w) = S 8 (take_bit 8 (drop_bit 56 w))"
    using at [of 0 56] by (simp add: S_def)
  have "S 64 w = S 64 (take_bit 8 w) XOR S 56 (take_bit 8 (drop_bit 8 w))
      XOR S 48 (take_bit 8 (drop_bit 16 w)) XOR S 40 (take_bit 8 (drop_bit 24 w))
      XOR S 32 (take_bit 8 (drop_bit 32 w)) XOR S 24 (take_bit 8 (drop_bit 40 w))
      XOR S 16 (take_bit 8 (drop_bit 48 w)) XOR S 8 (take_bit 8 (drop_bit 56 w))"
    unfolding a0 a1 a2 a3 a4 a5 a6 by (subst a7) (simp only: xor.assoc)
  then show ?thesis
    using look [of 7 0] look [of 6 8] look [of 5 16] look [of 4 24] look [of 3 32] look [of 2 40]
      look [of 1 48] look [of 0 56]
    unfolding crc64_xz_chunk_step_def Let_def w_def [symmetric]
    by (simp add: drop_56_and_ff fun_cong [OF S_def, of 64, symmetric])
qed

section \<open>The slice loop equals the bit-at-a-time reference\<close>

lemma from_le_bytes_bound: "take_bit (8 * length bs) (from_le_bytes bs) = from_le_bytes bs"
proof (induction bs)
  case (Cons b bs)
  then have bits: "bit (from_le_bytes bs) i \<Longrightarrow> i < 8 * length bs" for i
    by (metis bit_take_bit_iff)
  show ?case
    by (intro bit_word_eqI) (auto simp: bit_simps dest: bit_imp_le_length bits)
qed simp

lemma from_le_bytes_Cons_xor:
  "from_le_bytes (b # bs) = ucast b XOR push_bit 8 (from_le_bytes bs)"
  by (simp, rule bit_word_eqI) (auto simp: bit_simps dest: bit_imp_le_length)

lemma foldl_ref_bits: "length bs \<le> 8 \<Longrightarrow>
    foldl crc_byte_ref c bs = (crc64_xz_bit_step ^^ (8 * length bs)) (c XOR from_le_bytes bs)"
proof (induction bs arbitrary: c)
  case (Cons b bs)
  let ?S = "crc64_xz_bit_step" and ?n = "8 * length bs"
  have push: "(?S ^^ 8) (push_bit 8 (from_le_bytes bs)) = from_le_bytes bs"
    using Cons.prems by (intro bit_steps_push [of 8 ?n]) (simp_all add: from_le_bytes_bound)
  have "foldl crc_byte_ref c (b # bs) = (?S ^^ ?n) (crc_byte_ref c b XOR from_le_bytes bs)"
    using Cons by simp
  also have "crc_byte_ref c b XOR from_le_bytes bs =
      (?S ^^ 8) (c XOR ucast b XOR push_bit 8 (from_le_bytes bs))"
    by (simp only: crc_byte_ref_def bit_steps_xor push xor.assoc)
  also have "\<dots> = (?S ^^ 8) (c XOR from_le_bytes (b # bs))"
    by (simp only: from_le_bytes_Cons_xor)
  also have "(?S ^^ ?n) \<dots> = (?S ^^ (?n + 8)) (c XOR from_le_bytes (b # bs))"
    by (simp only: funpow_add comp_def)
  also have "?n + 8 = 8 * length (b # bs)" by simp
  finally show ?case .
qed simp

lemma chunk_step_ref: "length chunk = 8 \<Longrightarrow> crc64_xz_chunk_step crc chunk = foldl crc_byte_ref crc chunk"
  using foldl_ref_bits [of chunk crc] by (simp add: chunk_step_bits)

lemma update_slice_ref: "crc64_xz_update_slice crc bytes = foldl crc_byte_ref crc bytes"
proof (induction crc bytes rule: crc64_xz_update_slice.induct)
  case (1 crc bytes)
  show ?case
  proof (cases "8 \<le> length bytes")
    case True
    with 1 have "crc64_xz_update_slice crc bytes =
        foldl crc_byte_ref (crc64_xz_chunk_step crc (take 8 bytes)) (drop 8 bytes)"
      by (simp add: crc64_xz_update_slice.simps [of crc bytes])
    also have "\<dots> = foldl crc_byte_ref crc (take 8 bytes @ drop 8 bytes)"
      using True by (simp only: foldl_append chunk_step_ref length_take min.absorb2)
    finally show ?thesis by simp
  next
    case False
    then show ?thesis
      by (simp add: crc64_xz_update_slice.simps [of crc bytes] foldl_update_ref)
  qed
qed

section \<open>Error detection\<close>

lemma poly_top_bit: "bit CRC64_XZ_REFLECTED_POLY 63"
  by (simp add: CRC64_XZ_REFLECTED_POLY_def)

lemma bit_step_eq_0: "crc64_xz_bit_step w = 0 \<Longrightarrow> w = 0"
proof -
  assume eq: "crc64_xz_bit_step w = 0"
  have "\<not> bit (drop_bit 1 w) 63"
    by (auto simp: bit_simps dest: bit_imp_le_length)
  then have "even w"
    using eq poly_top_bit
    by (cases "even w") (auto simp: bit_step_alt bit_xor_iff dest!: arg_cong [where f = "\<lambda>x. bit x 63"])
  moreover from this eq have "drop_bit 1 w = 0"
    by (simp add: bit_step_alt)
  ultimately have "take_bit 1 w = 0" and "push_bit 1 (drop_bit 1 w) = 0"
    by (simp_all add: take_bit_Suc mod_2_eq_odd)
  then show "w = 0"
    by (subst word_low_high [of w 1]) simp
qed

lemma xor_eq_0_iff: "a XOR b = 0 \<longleftrightarrow> a = b" for a b :: "'a::len word"
  by (metis xor_self_eq xor.assoc xor.right_neutral xor.left_neutral)

lemma bit_steps_inj: "(crc64_xz_bit_step ^^ n) a = (crc64_xz_bit_step ^^ n) b \<Longrightarrow> a = b"
proof -
  have zero: "(crc64_xz_bit_step ^^ n) w = 0 \<Longrightarrow> w = 0" for w
    by (induction n) (auto dest: bit_step_eq_0)
  assume "(crc64_xz_bit_step ^^ n) a = (crc64_xz_bit_step ^^ n) b"
  then have "(crc64_xz_bit_step ^^ n) (a XOR b) = 0"
    by (simp add: bit_steps_xor)
  then show "a = b" using zero xor_eq_0_iff by blast
qed

lemma xor_right_cancel: "a XOR c = b XOR c \<longleftrightarrow> a = b" for a b c :: "'a::len word"
  by (metis xor.assoc xor_self_eq xor.right_neutral)

lemma xor_left_cancel: "c XOR a = c XOR b \<longleftrightarrow> a = b" for a b c :: "'a::len word"
  by (metis xor.commute xor_right_cancel)

lemma foldl_ref_inj: "foldl crc_byte_ref a bs = foldl crc_byte_ref b bs \<Longrightarrow> a = b"
proof (induction bs arbitrary: a b)
  case (Cons x bs)
  then have "crc_byte_ref a x = crc_byte_ref b x" by simp
  then show ?case
    by (auto simp: crc_byte_ref_def xor_right_cancel dest: bit_steps_inj)
qed simp

lemma from_le_bytes_bit: "bit (from_le_bytes bs) n \<Longrightarrow> n < 8 * length bs"
  by (metis bit_take_bit_iff from_le_bytes_bound)

lemma from_le_bytes_inj:
  "length xs = length ys \<Longrightarrow> length xs \<le> 8 \<Longrightarrow> from_le_bytes xs = from_le_bytes ys \<Longrightarrow> xs = ys"
proof (induction xs ys rule: list_induct2)
  case (Cons x xs y ys)
  let ?X = "from_le_bytes xs" and ?Y = "from_le_bytes ys"
  have bits: "bit (ucast x OR push_bit 8 ?X :: u64) i = bit (ucast y OR push_bit 8 ?Y :: u64) i" for i
    using Cons.prems by simp
  have x: "x = y"
  proof (rule bit_word_eqI)
    fix n assume "n < LENGTH(8)"
    with bits [of n] show "bit x n = bit y n" by (simp add: bit_simps)
  qed
  have "?X = ?Y"
  proof (rule bit_word_eqI)
    fix n assume n: "n < LENGTH(64)"
    show "bit ?X n = bit ?Y n"
    proof (cases "n < 56")
      case True
      with bits [of "n + 8"] show ?thesis
        by (auto simp: bit_simps dest: bit_imp_le_length)
    next
      case False
      then have "\<not> n < 8 * length xs" and "\<not> n < 8 * length ys"
        using Cons.prems Cons.hyps by auto
      then show ?thesis using from_le_bytes_bit by blast
    qed
  qed
  with x Cons show ?case by simp
qed simp

lemma update_slice_piece_inj:
  assumes "length xs = length ys" "length xs \<le> 8"
    and "crc64_xz_update_slice c xs = crc64_xz_update_slice c ys"
  shows "xs = ys"
proof -
  have "c XOR from_le_bytes xs = c XOR from_le_bytes ys"
    using foldl_ref_bits [OF assms(2), of c] foldl_ref_bits [of ys c] assms
    by (auto simp: update_slice_ref intro: bit_steps_inj [of "8 * length xs"])
  then have "from_le_bytes xs = from_le_bytes ys"
    by (simp only: xor_left_cancel)
  with assms(1,2) show ?thesis
    using from_le_bytes_inj by blast
qed

text \<open>The chunked CRC update is a running checksum that separates pieces of eight bytes.\<close>

interpretation crc: stream_digest crc64_xz_update_slice 8
proof
  show "crc64_xz_update_slice s (xs @ ys) =
      crc64_xz_update_slice (crc64_xz_update_slice s xs) ys" for s xs ys
    by (simp add: update_slice_ref)
  show "s = t" if "crc64_xz_update_slice s xs = crc64_xz_update_slice t xs" for s t xs
    using that foldl_ref_inj by (simp add: update_slice_ref)
qed (rule update_slice_piece_inj)

text \<open>
  C2: the table-driven loop over eight-byte chunks computes the CRC that processes the
  message one bit at a time, for every message.
\<close>

theorem crc64_xz_correct: "crc64_xz bytes = crc64_xz_ref bytes"
  by (simp add: crc64_xz_def crc64_xz_ref_def update_slice_ref)

text \<open>
  C11: replacing any run of at most eight consecutive bytes by a different run of the same
  length changes the checksum.
\<close>

theorem crc64_xz_detects_burst:
  assumes "length ys = length ys'" and "length ys \<le> 8" and "ys \<noteq> ys'"
  shows "crc64_xz (xs @ ys @ zs) \<noteq> crc64_xz (xs @ ys' @ zs)"
  using crc.burst_detected [OF assms] by (simp only: crc64_xz_def xor_right_cancel not_False_eq_True)

theorem crc64_xz_detects_burst_witness:
  "length [1 :: u8, 2] = length [3 :: u8, 4] \<and> crc64_xz ([9] @ [1, 2] @ [7]) \<noteq> crc64_xz ([9] @ [3, 4] @ [7])"
  using crc64_xz_detects_burst [of "[1, 2]" "[3, 4]" "[9]" "[7]"] by simp

text \<open>
  Checksumming a stream piece by piece gives the checksum of the whole: the state after
  \<open>xs\<close> followed by \<open>ys\<close> is the state after the concatenation, whatever the split.
\<close>

lemma crc64_xz_update_slice_append:
  "crc64_xz_update_slice crc (xs @ ys) = crc64_xz_update_slice (crc64_xz_update_slice crc xs) ys"
  by (rule crc.update_append)

text \<open>The published check value, for the ASCII digits 1 to 9.\<close>

lemma funpow_8: "(f ^^ 8) x = f (f (f (f (f (f (f (f x)))))))"
  by (simp add: eval_nat_numeral)

lemma crc64_xz_check_value:
  "crc64_xz [0x31, 0x32, 0x33, 0x34, 0x35, 0x36, 0x37, 0x38, 0x39] = CRC64_XZ_CHECK_VALUE"
proof -
  have "(- 1 :: u64) = 0xFFFFFFFFFFFFFFFF" by simp
  then show ?thesis
    unfolding crc64_xz_def update_slice_ref CRC64_XZ_CHECK_VALUE_def
    by (simp only: foldl_Cons foldl_Nil)
      (simp add: crc_byte_ref_def funpow_8 crc64_xz_bit_step_def CRC64_XZ_REFLECTED_POLY_def)
qed

end
