(* ===== verification/CheckValue.thy ===== *)
theory CheckValue
  imports Crc64
begin

text \<open>
  The writer's commit check of \<open>crates/remanence-parity/src/check_value.rs\<close>: a CRC-64/XZ over the
  little-endian whole-block CRCs of a committed range, in ordinal order, kept as a running
  register.
\<close>

section \<open>The code\<close>

definition to_le_bytes :: "u64 \<Rightarrow> bytes" where
  "to_le_bytes w = map (\<lambda>i. ucast (drop_bit (8 * i) w)) [0..<8]"

datatype CheckValue = CheckValue u64

definition CheckValue_EMPTY :: CheckValue where
  "CheckValue_EMPTY = CheckValue 0"

record CheckValueBuilder =
  register :: u64

definition CheckValueBuilder_new :: CheckValueBuilder where
  "CheckValueBuilder_new = \<lparr>register = - 1\<rparr>"

definition CheckValueBuilder_push :: "CheckValueBuilder \<Rightarrow> u64 \<Rightarrow> CheckValueBuilder" where
  "CheckValueBuilder_push b block_crc =
     b\<lparr>register := crc64_xz_update_slice (register b) (to_le_bytes block_crc)\<rparr>"

definition CheckValueBuilder_value :: "CheckValueBuilder \<Rightarrow> CheckValue" where
  "CheckValueBuilder_value b = CheckValue (register b XOR (- 1))"

definition check_value :: "u64 list \<Rightarrow> CheckValue" where
  "check_value block_crcs =
     CheckValueBuilder_value (foldl CheckValueBuilder_push CheckValueBuilder_new block_crcs)"

section \<open>Lemmas\<close>

lemma length_to_le_bytes [simp]: "length (to_le_bytes w) = 8"
  by (simp add: to_le_bytes_def)

lemma low_byte_or: "(ucast (ucast v :: u8) :: u64) OR push_bit 8 (drop_bit 8 v) = v"
proof (rule bit_word_eqI)
  fix n assume "n < LENGTH(64)"
  then show "bit ((ucast (ucast v :: u8) :: u64) OR push_bit 8 (drop_bit 8 v)) n = bit v n"
    by (cases "n < 8") (simp_all add: bit_simps)
qed

lemma from_le_bytes_tail:
  "n \<le> 8 \<Longrightarrow> from_le_bytes (map (\<lambda>i. ucast (drop_bit (8 * i) w)) [8 - n..<8]) =
     drop_bit (8 * (8 - n)) w"
proof (induction n)
  case 0
  show ?case by (rule bit_word_eqI) (simp add: bit_simps impossible_bit)
next
  case (Suc n)
  define k where "k = 8 - Suc n"
  have k: "8 - n = Suc k" "k < 8"
    using Suc.prems by (simp_all add: k_def)
  have "drop_bit (8 * Suc k) w = drop_bit 8 (drop_bit (8 * k) w)"
    by (simp add: drop_bit_drop_bit add.commute)
  then show ?case
    using Suc k low_byte_or [of "drop_bit (8 * k) w"]
    by (simp only: k_def [symmetric] upt_conv_Cons list.map from_le_bytes.simps)
qed

lemma from_to_le_bytes: "from_le_bytes (to_le_bytes w) = w"
  using from_le_bytes_tail [of 8 w] by (simp only: to_le_bytes_def) simp

lemma inj_to_le_bytes: "inj to_le_bytes"
  by (metis from_to_le_bytes injI)

lemma register_pushes: "register (foldl CheckValueBuilder_push b crcs) =
    crc64_xz_update_slice (register b) (concat (map to_le_bytes crcs))"
proof -
  have "register (foldl CheckValueBuilder_push b crcs) =
      foldl (\<lambda>s r. crc64_xz_update_slice s (to_le_bytes r)) (register b) crcs"
    by (induction crcs arbitrary: b) (simp_all add: CheckValueBuilder_push_def)
  then show ?thesis by (simp only: crc.fold_records)
qed

section \<open>Properties\<close>

text \<open>
  The incremental builder computes the CRC-64/XZ of the concatenated little-endian block
  CRCs, and the empty range has the check value zero.
\<close>

lemma check_value_is_crc:
  "check_value crcs = CheckValue (crc64_xz (concat (map to_le_bytes crcs))) \<and>
   check_value [] = CheckValue_EMPTY"
  by (simp add: check_value_def CheckValueBuilder_value_def register_pushes
      CheckValueBuilder_new_def crc64_xz_def CheckValue_EMPTY_def crc.update_Nil)

text \<open>
  C12: a commit check tells two ranges apart that differ in the CRC of a single block, wherever
  the block stands.
\<close>

theorem check_value_detects_block_change:
  assumes "a \<noteq> b"
  shows "check_value (xs @ a # ys) \<noteq> check_value (xs @ b # ys)"
  using crc.record_change_detected [OF length_to_le_bytes order_refl inj_to_le_bytes assms]
  by (simp only: check_value_def CheckValueBuilder_value_def register_pushes CheckValue.inject
      xor_right_cancel not_False_eq_True)

theorem check_value_detects_block_change_witness:
  "check_value ([7] @ 1 # [9]) \<noteq> check_value ([7] @ 2 # [9])"
  by (rule check_value_detects_block_change) simp

end
