(* ===== verification/ParityModel.thy ===== *)
theory ParityModel
  imports Prelude
begin

text \<open>
  The value types of the parity layer: the errors of \<open>crates/remanence-parity/src/error.rs\<close>,
  the parity scheme, stripe addresses and object protection states of \<open>model.rs\<close>, and the
  ordinal-to-stripe mapping of \<open>mapping.rs\<close>.

  An error message that the source formats with values is represented by its format string;
  dashes and signs outside ASCII are written in ASCII. The floating-point ratios of
  \<open>ParityScheme\<close>, which only feed reports, are not modelled.
\<close>

section \<open>Errors\<close>

datatype CapacityReserveCause = TapeCapacity | ParitySpoolCapacity

datatype CapacityReserveRemedy = CloseTapeAndRetryOnAnotherTape | FreeOrIncreaseParitySpool

fun CapacityReserveCause_remedy :: "CapacityReserveCause \<Rightarrow> CapacityReserveRemedy" where
  "CapacityReserveCause_remedy TapeCapacity = CloseTapeAndRetryOnAnotherTape"
| "CapacityReserveCause_remedy ParitySpoolCapacity = FreeOrIncreaseParitySpool"

datatype StripePosition = Data (position_index: u16) | Parity (position_index: u16)

record StripeAddress =
  neighborhood :: u64
  stripe_index :: u32
  position :: StripePosition

text \<open>A physical position on the tape, as reported by the drive.\<close>

record PhysicalPositionHint =
  pph_lba :: u64
  pph_partition :: u32

definition PhysicalPositionHint_new :: "u64 \<Rightarrow> PhysicalPositionHint" where
  "PhysicalPositionHint_new lba = \<lparr>pph_lba = lba, pph_partition = 0\<rparr>"

text \<open>The shape errors of the third-party Reed-Solomon crate that the codec itself raises.\<close>

datatype ReedSolomonError = TooFewShardsPresent | EmptyShard | IncorrectShardSize

text \<open>
  The tape I/O errors that the modelled operations construct or look into; every other variant of
  \<open>TapeIoError\<close> is only passed on.
\<close>

datatype TapeIoError =
    CheckCondition bytes u32
  | CheckConditionWithResidue bytes u32
  | ReadBufferTooSmall u32 u32
  | Cancelled
  | CursorPredecessorNotFilemark
  | OperationFailed string
  | OtherTapeIoError string

text \<open>
  The errors the modelled operations raise. \<open>ParityError\<close> has further variants for
  bootstraps, journals and sessions, which only code outside the model constructs.
\<close>

datatype ParityError =
    TapeIo TapeIoError
  | InvalidScheme string
  | ReedSolomon ReedSolomonError
  | Unrecoverable StripeAddress u16 u16
  | Invariant string
  | ImplementationLimit string string
  | SidecarParse string
  | SidecarMetadataUnavailable u64
  | SchemeMismatch string string
  | ParityMapParse string
  | ReplicatedControlLayout string string
  | TapeIndexReplica string
  | DirectoryInvalid string
  | FilemarkMapDigestMismatch "PhysicalPositionHint option"
  | FilemarkMapReconstruct string
  | OutsideValidatedMapPrefix u64 u64
  | UnrecoverablePendingEpoch u64 u64
  | CapacityReserveExceeded CapacityReserveCause u64 "u64 option" "u64 option" "u64 option"
      "u64 option"
  | ObjectTooLargeForEmptyTape u64 u64 u64

type_synonym 'a parity_result = "ParityError + 'a"

section \<open>The parity scheme\<close>

type_synonym SchemeId = string

record ParityScheme =
  scheme_id :: SchemeId
  data_blocks_per_stripe :: u16
  parity_blocks_per_stripe :: u16
  stripes_per_neighborhood :: u32

definition neighborhood_blocks :: "ParityScheme \<Rightarrow> u64" where
  "neighborhood_blocks s =
     ucast (stripes_per_neighborhood s)
     * (ucast (data_blocks_per_stripe s) + ucast (parity_blocks_per_stripe s))"

definition contiguous_damage_threshold :: "ParityScheme \<Rightarrow> u64" where
  "contiguous_damage_threshold s =
     ucast (stripes_per_neighborhood s) * ucast (parity_blocks_per_stripe s)"

definition ParityScheme_validate :: "ParityScheme \<Rightarrow> ParityScheme parity_result" where
  "ParityScheme_validate s =
     (if data_blocks_per_stripe s < 2
      then Inl (InvalidScheme ''data_blocks_per_stripe = {} (must be >= 2)'')
      else if parity_blocks_per_stripe s < 1
      then Inl (InvalidScheme
        ''parity_blocks_per_stripe = 0 - use the bootstrap no-parity flag instead'')
      else if parity_blocks_per_stripe s > data_blocks_per_stripe s
      then Inl (InvalidScheme
        ''parity_blocks_per_stripe = {} > data_blocks_per_stripe = {} (use replication)'')
      else if stripes_per_neighborhood s < 1
      then Inl (InvalidScheme ''stripes_per_neighborhood = 0'')
      else
        let stripe_width =
              (ucast (data_blocks_per_stripe s) :: u32) + ucast (parity_blocks_per_stripe s)
        in if stripe_width > 255
           then Inl (InvalidScheme ''k + m = {stripe_width} > 255 - GF(2^8) RS limit'')
           else
             let blocks = neighborhood_blocks s
             in if blocks > 0xFFFFFFFF
                then Inl (InvalidScheme
                  ''neighborhood_blocks = S x (k + m) = {neighborhood} > u32::MAX = 4 G blocks'')
                else Inr s)"

section \<open>Object protection states\<close>

datatype SidecarMetadataHealth =
  BothCopiesUsable | TailCopyLost | PrimaryHeaderLost | TailCopyNotRead

definition SidecarMetadataHealth_is_degraded :: "SidecarMetadataHealth \<Rightarrow> bool" where
  "SidecarMetadataHealth_is_degraded h =
     (\<not> (case h of BothCopiesUsable \<Rightarrow> True | TailCopyNotRead \<Rightarrow> True | _ \<Rightarrow> False))"

datatype ObjectParityState = Pending | Partial | Protected

definition ObjectParityState_from_ordinals ::
  "u64 \<Rightarrow> u64 \<Rightarrow> u64 \<Rightarrow> ObjectParityState parity_result" where
  "ObjectParityState_from_ordinals first_parity_data_ordinal data_block_count
       highest_protected_ordinal =
     (if data_block_count = 0
      then Inl (Invariant ''object parity state requires at least one data block'')
      else rbind (ok_or (Invariant ''object ordinal range overflows'')
                   (checked_add first_parity_data_ordinal data_block_count))
        (\<lambda>ordinal_end_exclusive.
          if ordinal_end_exclusive \<le> highest_protected_ordinal then Inr Protected
          else if first_parity_data_ordinal \<ge> highest_protected_ordinal then Inr Pending
          else Inr Partial))"

fun as_catalog_str :: "ObjectParityState \<Rightarrow> string" where
  "as_catalog_str Pending = ''pending''"
| "as_catalog_str Partial = ''partial''"
| "as_catalog_str Protected = ''protected''"

record ObjectParityStateUpdateRange =
  old_highest_protected_ordinal :: u64
  new_highest_protected_ordinal :: u64

definition from_watermark_advance ::
  "u64 \<Rightarrow> u64 \<Rightarrow> ObjectParityStateUpdateRange option parity_result" where
  "from_watermark_advance old new =
     (if new < old then Inl (Invariant ''protection watermark cannot move backwards'')
      else if new = old then Inr None
      else Inr (Some \<lparr>old_highest_protected_ordinal = old,
                       new_highest_protected_ordinal = new\<rparr>))"

definition first_parity_data_ordinal_upper_exclusive ::
  "ObjectParityStateUpdateRange \<Rightarrow> u64" where
  "first_parity_data_ordinal_upper_exclusive r = new_highest_protected_ordinal r"

definition ordinal_end_exclusive_lower_exclusive ::
  "ObjectParityStateUpdateRange \<Rightarrow> u64" where
  "ordinal_end_exclusive_lower_exclusive r = old_highest_protected_ordinal r"

definition includes_object ::
  "ObjectParityStateUpdateRange \<Rightarrow> u64 \<Rightarrow> u64 \<Rightarrow> bool parity_result" where
  "includes_object r first_parity_data_ordinal data_block_count =
     (if data_block_count = 0
      then Inl (Invariant ''object parity state update range requires at least one data block'')
      else rbind (ok_or (Invariant ''object ordinal range overflows'')
                   (checked_add first_parity_data_ordinal data_block_count))
        (\<lambda>ordinal_end_exclusive.
          Inr (first_parity_data_ordinal < first_parity_data_ordinal_upper_exclusive r
               \<and> ordinal_end_exclusive > ordinal_end_exclusive_lower_exclusive r)))"

definition recompute_object ::
  "ObjectParityStateUpdateRange \<Rightarrow> u64 \<Rightarrow> u64 \<Rightarrow> ObjectParityState option parity_result" where
  "recompute_object r first_parity_data_ordinal data_block_count =
     rbind (includes_object r first_parity_data_ordinal data_block_count)
       (\<lambda>included.
         if \<not> included then Inr None
         else rbind (ObjectParityState_from_ordinals first_parity_data_ordinal data_block_count
                      (new_highest_protected_ordinal r))
                (\<lambda>st. Inr (Some st)))"

section \<open>Ordinals and stripes\<close>

definition data_shards_per_epoch :: "ParityScheme \<Rightarrow> u64 parity_result" where
  "data_shards_per_epoch scheme =
     rbind (ok_or (Invariant ''data shards per epoch overflows'')
             (checked_mul (ucast (stripes_per_neighborhood scheme))
               (ucast (data_blocks_per_stripe scheme))))
       (\<lambda>count. if count = 0 then Inl (Invariant ''data shards per epoch is zero'')
                else Inr count)"

definition unprotected_ordinals_within_one_epoch :: "u64 \<Rightarrow> u64 \<Rightarrow> u64 \<Rightarrow> bool" where
  "unprotected_ordinals_within_one_epoch unprotected_ordinals stripes_per_epoch blocks_per_stripe =
     ((ucast unprotected_ordinals :: u128)
      < ucast stripes_per_epoch * ucast blocks_per_stripe)"

definition ordinal_to_stripe :: "u64 \<Rightarrow> ParityScheme \<Rightarrow> StripeAddress parity_result" where
  "ordinal_to_stripe ordinal scheme =
     (let s = ucast (stripes_per_neighborhood scheme)
      in rbind (data_shards_per_epoch scheme)
           (\<lambda>epoch_data_shards.
             let epoch = ordinal div epoch_data_shards;
                 ordinal_in_epoch = ordinal mod epoch_data_shards
             in Inr \<lparr>neighborhood = epoch,
                      stripe_index = ucast (ordinal_in_epoch mod s),
                      position = Data (ucast (ordinal_in_epoch div s))\<rparr>))"

definition ordinal_to_stripe_in_epoch ::
  "u64 \<Rightarrow> u64 \<Rightarrow> u64 \<Rightarrow> u64 \<Rightarrow> ParityScheme \<Rightarrow> StripeAddress parity_result" where
  "ordinal_to_stripe_in_epoch ordinal epoch_id protected_ordinal_start real_data_shard_count
       scheme =
     rbind (data_shards_per_epoch scheme)
       (\<lambda>logical_data_shards.
         if real_data_shard_count = 0 \<or> real_data_shard_count > logical_data_shards
         then Inl (Invariant ''explicit epoch real data-shard count is outside 1..=S*k'')
         else rbind (ok_or (Invariant ''ordinal precedes explicit epoch protected range'')
                      (checked_sub ordinal protected_ordinal_start))
           (\<lambda>ordinal_in_epoch.
             if ordinal_in_epoch \<ge> real_data_shard_count
             then Inl (Invariant ''ordinal lies outside explicit epoch protected range'')
             else
               let stripes = ucast (stripes_per_neighborhood scheme)
               in Inr \<lparr>neighborhood = epoch_id,
                        stripe_index = ucast (ordinal_in_epoch mod stripes),
                        position = Data (ucast (ordinal_in_epoch div stripes))\<rparr>))"

datatype EpochDataShard = Real u64 | ImplicitZero

definition data_position_index :: "StripePosition \<Rightarrow> ParityScheme \<Rightarrow> u64 parity_result" where
  "data_position_index pos scheme =
     (case pos of
        Data index \<Rightarrow>
          if index \<ge> data_blocks_per_stripe scheme
          then Inl (Invariant ''data index outside scheme'')
          else Inr (ucast index)
      | Parity _ \<Rightarrow> Inl (Invariant ''parity shard has no data ordinal''))"

definition stripe_data_shard_in_epoch ::
  "StripeAddress \<Rightarrow> u64 \<Rightarrow> u64 \<Rightarrow> ParityScheme \<Rightarrow> EpochDataShard parity_result" where
  "stripe_data_shard_in_epoch addr protected_ordinal_start protected_ordinal_end_exclusive
       scheme =
     (let stripes = (ucast (stripes_per_neighborhood scheme) :: u64)
      in if (ucast (stripe_index addr) :: u64) \<ge> stripes
         then Inl (Invariant ''stripe_index outside scheme'')
         else rbind (data_position_index (position addr) scheme)
           (\<lambda>data_index.
             rbind (ok_or (Invariant ''epoch protected range ends before it starts'')
                     (checked_sub protected_ordinal_end_exclusive protected_ordinal_start))
               (\<lambda>real_data_shards.
                 let offset = data_index * stripes + ucast (stripe_index addr)
                 in if offset \<ge> real_data_shards then Inr ImplicitZero
                    else Inr (Real (protected_ordinal_start + offset)))))"

definition stripe_data_to_ordinal :: "StripeAddress \<Rightarrow> ParityScheme \<Rightarrow> u64 parity_result" where
  "stripe_data_to_ordinal addr scheme =
     (let s = (ucast (stripes_per_neighborhood scheme) :: u64)
      in if (ucast (stripe_index addr) :: u64) \<ge> s
         then Inl (Invariant ''stripe_index outside scheme'')
         else rbind (data_position_index (position addr) scheme)
           (\<lambda>data_index.
             rbind (data_shards_per_epoch scheme)
               (\<lambda>epoch_data_shards.
                 ok_or (Invariant ''data ordinal overflows'')
                   (Option.bind (checked_mul (neighborhood addr) epoch_data_shards)
                     (\<lambda>base. Option.bind (checked_mul data_index s)
                       (\<lambda>row. Option.bind (checked_add base row)
                         (\<lambda>base. checked_add base (ucast (stripe_index addr)))))))))"

section \<open>Values of the scheme\<close>

text \<open>The scheme parameters \<open>S\<close>, \<open>k\<close> and \<open>m\<close> as numbers.\<close>

abbreviation nS :: "ParityScheme \<Rightarrow> nat" where "nS s \<equiv> unat (stripes_per_neighborhood s)"
abbreviation nK :: "ParityScheme \<Rightarrow> nat" where "nK s \<equiv> unat (data_blocks_per_stripe s)"
abbreviation nM :: "ParityScheme \<Rightarrow> nat" where "nM s \<equiv> unat (parity_blocks_per_stripe s)"

lemma mult_less_48: "unat (a :: u32) * unat (b :: u16) < 281474976710656"
proof -
  have "unat a * unat b \<le> 4294967295 * 65535"
    using unat_u32_less [of a] unat_u16_less [of b] by (intro mult_le_mono) auto
  then show ?thesis by simp
qed

lemma unat_mult_u32_u16:
  "unat ((ucast (a :: u32) :: u64) * ucast (b :: u16)) = unat a * unat b"
  using mult_less_48 [of a b] by (subst unat_mult_exact) simp_all

lemma data_shards_per_epoch_eq: "data_shards_per_epoch s =
    (if nS s * nK s = 0 then Inl (Invariant ''data shards per epoch is zero'')
     else Inr (ucast (stripes_per_neighborhood s) * ucast (data_blocks_per_stripe s)))"
proof -
  have "(ucast (stripes_per_neighborhood s) * ucast (data_blocks_per_stripe s) :: u64) = 0
      \<longleftrightarrow> nS s * nK s = 0"
    by (simp only: unat_eq_0 [symmetric] unat_mult_u32_u16)
  then show ?thesis
    using mult_less_48 [of "stripes_per_neighborhood s" "data_blocks_per_stripe s"]
    by (simp add: data_shards_per_epoch_def checked_mul_def)
qed

lemma unat_data_shards: "data_shards_per_epoch s = Inr n \<longleftrightarrow> unat n = nS s * nK s \<and> n \<noteq> 0"
  by (auto simp: data_shards_per_epoch_def checked_simps)

lemma unat_contiguous_damage_threshold:
  "unat (contiguous_damage_threshold s) = nS s * nM s"
  by (simp add: contiguous_damage_threshold_def unat_mult_u32_u16)

lemma unat_neighborhood_blocks: "unat (neighborhood_blocks s) = nS s * (nK s + nM s)"
proof -
  have km: "unat ((ucast (data_blocks_per_stripe s) :: u64) + ucast (parity_blocks_per_stripe s))
      = nK s + nM s"
    using unat_u16_less [of "data_blocks_per_stripe s"] unat_u16_less [of "parity_blocks_per_stripe s"]
    by (subst unat_plus_exact) simp_all
  have "nS s * (nK s + nM s) \<le> 4294967295 * 131070"
    using unat_u16_less [of "data_blocks_per_stripe s"] unat_u16_less [of "parity_blocks_per_stripe s"]
      unat_u32_less [of "stripes_per_neighborhood s"]
    by (intro mult_le_mono) auto
  then show ?thesis
    unfolding neighborhood_blocks_def by (subst unat_mult_exact) (simp_all add: km)
qed

lemma validate_Inr: "ParityScheme_validate s = Inr t \<longleftrightarrow>
    t = s \<and> 2 \<le> nK s \<and> 1 \<le> nM s \<and> nM s \<le> nK s \<and> 1 \<le> nS s \<and> nK s + nM s \<le> 255 \<and>
    nS s * (nK s + nM s) < 2 ^ 32"
proof -
  have "unat ((ucast (data_blocks_per_stripe s) :: u32) + ucast (parity_blocks_per_stripe s))
      = nK s + nM s"
    using unat_u16_less [of "data_blocks_per_stripe s"] unat_u16_less [of "parity_blocks_per_stripe s"]
    by (subst unat_plus_exact) simp_all
  then show ?thesis
    by (auto simp: ParityScheme_validate_def word_le_nat_alt word_less_nat_alt
        unat_neighborhood_blocks Let_def split: if_splits)
qed

lemma ordinal_to_stripe_in_epoch_Inr:
  "ordinal_to_stripe_in_epoch ord e st n s = Inr a \<longleftrightarrow>
    0 < unat n \<and> unat n \<le> nS s * nK s \<and> unat st \<le> unat ord \<and> unat ord < unat st + unat n \<and>
    neighborhood a = e \<and> unat (stripe_index a) = (unat ord - unat st) mod nS s \<and>
    (\<exists>i. position a = Data i \<and> unat i = (unat ord - unat st) div nS s)"
  (is "?l \<longleftrightarrow> ?r")
proof -
  define d where "d = ord - st"
  have S: "unat ((ucast d' :: u32)) = unat d'" if "unat d' < nS s" for d' :: u64
    using that unat_u32_less [of "stripes_per_neighborhood s"] by (intro unat_ucast_down) simp
  have K: "unat ((ucast d' :: u16)) = unat d'" if "unat d' < nK s" for d' :: u64
    using that unat_u16_less [of "data_blocks_per_stripe s"] by (intro unat_ucast_down) simp
  have "?l \<longleftrightarrow> 0 < unat n \<and> unat n \<le> nS s * nK s \<and> st \<le> ord \<and> unat d < unat n \<and>
      a = \<lparr>neighborhood = e, stripe_index = ucast (d mod ucast (stripes_per_neighborhood s)),
           position = Data (ucast (d div ucast (stripes_per_neighborhood s)))\<rparr>"
    by (auto simp: ordinal_to_stripe_in_epoch_def data_shards_per_epoch_eq checked_sub_def d_def
        Let_def word_le_nat_alt word_less_nat_alt unat_gt_0 unat_mult_u32_u16)
  also have "\<dots> \<longleftrightarrow> ?r"
  proof (cases "0 < unat n \<and> unat n \<le> nS s * nK s \<and> unat st \<le> unat ord \<and> unat ord < unat st + unat n")
    case True
    then have d: "unat d = unat ord - unat st" "unat d < unat n" "unat d < nK s * nS s"
      by (auto simp: d_def unat_minus_exact word_le_nat_alt mult.commute)
    have pos: "0 < nS s" using d(3) by (cases "nS s") auto
    then have "unat (ucast (d mod ucast (stripes_per_neighborhood s)) :: u32) = unat d mod nS s"
      by (simp add: S unat_mod)
    moreover have "unat (ucast (d div ucast (stripes_per_neighborhood s)) :: u16) = unat d div nS s"
      using d(3) by (simp add: K unat_div less_mult_imp_div_less)
    ultimately show ?thesis
      using True d(1,2) by (cases a) (auto simp: word_unat_eq_iff word_le_nat_alt)
  next
    case False
    then show ?thesis
      by (auto simp: d_def unat_minus_exact word_le_nat_alt)
  qed
  finally show ?thesis .
qed

lemma data_position_index_Inr: "data_position_index p s = Inr i \<longleftrightarrow>
    (\<exists>j. p = Data j \<and> j < data_blocks_per_stripe s \<and> i = ucast j)"
  by (auto simp: data_position_index_def split: StripePosition.splits if_splits)

lemma unat_offset: 
  assumes "unat i < nK s" "unat x < nS s"
  shows "unat ((ucast (i :: u16) :: u64) * ucast (stripes_per_neighborhood s) + ucast (x :: u32))
    = unat i * nS s + unat x"
proof -
  have mult: "unat ((ucast i :: u64) * ucast (stripes_per_neighborhood s)) = unat i * nS s"
    using unat_mult_u32_u16 [of "stripes_per_neighborhood s" i] by (simp add: mult.commute)
  have "unat i * nS s < 281474976710656"
    using mult_less_48 [of "stripes_per_neighborhood s" i] by (simp add: mult.commute)
  then show ?thesis
    using unat_u32_less [of x] by (subst unat_plus_exact) (simp_all add: mult)
qed

lemma stripe_data_shard_in_epoch_eq:
  assumes "position a = Data i" "unat i < nK s" "unat (stripe_index a) < nS s" "unat st \<le> unat en"
  shows "stripe_data_shard_in_epoch a st en s =
    Inr (if unat st + (unat i * nS s + unat (stripe_index a)) < unat en
         then Real (word_of_nat (unat st + (unat i * nS s + unat (stripe_index a))))
         else ImplicitZero)"
proof -
  define off where
    "off = (ucast i :: u64) * ucast (stripes_per_neighborhood s) + ucast (stripe_index a)"
  have off: "unat off = unat i * nS s + unat (stripe_index a)"
    using assms by (simp add: off_def unat_offset)
  have "stripe_data_shard_in_epoch a st en s =
      (if en - st \<le> off then Inr ImplicitZero else Inr (Real (st + off)))"
    using assms by (simp add: stripe_data_shard_in_epoch_def data_position_index_def Let_def
        word_le_nat_alt word_less_nat_alt checked_sub_def off_def)
  moreover have "en - st \<le> off \<longleftrightarrow> \<not> unat st + unat off < unat en"
    using assms by (auto simp: word_le_nat_alt unat_minus_exact)
  moreover have "st + off = word_of_nat (unat st + unat off)"
    by simp
  ultimately show ?thesis by (simp add: off del: of_nat_add)
qed

lemma stripe_data_shard_in_epoch_dest:
  "stripe_data_shard_in_epoch a st en s = Inr r \<Longrightarrow>
    \<exists>i. position a = Data i \<and> unat i < nK s \<and> unat (stripe_index a) < nS s \<and> unat st \<le> unat en"
  by (auto simp: stripe_data_shard_in_epoch_def data_position_index_Inr Let_def checked_sub_def
      word_le_nat_alt word_less_nat_alt split: if_splits)

section \<open>Object states in order of protection\<close>

instantiation ObjectParityState :: linorder
begin

fun protection_rank :: "ObjectParityState \<Rightarrow> nat" where
  "protection_rank Pending = 0"
| "protection_rank Partial = 1"
| "protection_rank Protected = 2"

definition less_eq_ObjectParityState :: "ObjectParityState \<Rightarrow> ObjectParityState \<Rightarrow> bool" where
  "less_eq_ObjectParityState a b = (protection_rank a \<le> protection_rank b)"

definition less_ObjectParityState :: "ObjectParityState \<Rightarrow> ObjectParityState \<Rightarrow> bool" where
  "less_ObjectParityState a b = (protection_rank a < protection_rank b)"

instance
proof
  fix a b :: ObjectParityState
  show "a = b" if "a \<le> b" "b \<le> a"
    using that by (cases a; cases b) (simp_all add: less_eq_ObjectParityState_def)
qed (auto simp: less_eq_ObjectParityState_def less_ObjectParityState_def)

end

lemma from_ordinals_Inr: "ObjectParityState_from_ordinals f c w = Inr st \<longleftrightarrow>
    c \<noteq> 0 \<and> unat f + unat c < 2 ^ 64 \<and>
    st = (if unat f + unat c \<le> unat w then Protected else if unat w \<le> unat f then Pending else Partial)"
  by (auto simp: ObjectParityState_from_ordinals_def checked_add_def unat_plus_exact
      word_le_nat_alt split: if_splits)

lemma includes_object_Inr: "includes_object r f c = Inr b \<longleftrightarrow>
    c \<noteq> 0 \<and> unat f + unat c < 2 ^ 64 \<and>
    b = (unat f < unat (new_highest_protected_ordinal r) \<and>
         unat (old_highest_protected_ordinal r) < unat f + unat c)"
  by (auto simp: includes_object_def checked_add_def unat_plus_exact
      first_parity_data_ordinal_upper_exclusive_def ordinal_end_exclusive_lower_exclusive_def
      word_less_nat_alt split: if_splits)

lemma from_watermark_advance_Some: "from_watermark_advance old new = Inr (Some r) \<longleftrightarrow>
    unat old < unat new \<and> old_highest_protected_ordinal r = old \<and> new_highest_protected_ordinal r = new"
  by (cases r) (auto simp: from_watermark_advance_def word_less_nat_alt word_unat_eq_iff)

lemma card_residue_window: "card {d. lo \<le> d \<and> d < lo + S * m \<and> d mod S = x} \<le> m"
  for lo S m x :: nat
proof (induction m)
  case (Suc m)
  let ?A = "{d. lo \<le> d \<and> d < lo + S * m \<and> d mod S = x}"
  let ?B = "{d. lo + S * m \<le> d \<and> d < lo + S * m + S \<and> d mod S = x}"
  have "a = b" if "a \<in> ?B" "b \<in> ?B" for a b
  proof -
    have "\<bar>int a - int b\<bar> < int S" and "a mod S = b mod S"
      using that by auto
    then have "int S dvd int a - int b"
      by (simp add: mod_eq_dvd_iff [symmetric] flip: zmod_int)
    with \<open>\<bar>int a - int b\<bar> < int S\<close> show "a = b"
      using dvd_imp_le_int [of "int a - int b" "int S"] by auto
  qed
  then have single: "\<forall>a\<in>?B. \<forall>b\<in>?B. a = b"
    by blast
  have fin: "finite ?A" "finite ?B"
    by (rule finite_subset [of _ "{..<lo + S * m + S}"]; auto)+
  have "card ?B \<le> 1"
    using card_le_Suc0_iff_eq [OF fin(2)] single by (simp only: One_nat_def)
  moreover have "card {d. lo \<le> d \<and> d < lo + S * Suc m \<and> d mod S = x} \<le> card (?A \<union> ?B)"
    using fin by (intro card_mono) auto
  moreover have "card (?A \<union> ?B) \<le> card ?A + card ?B"
    by (rule card_Un_le)
  ultimately show ?case using Suc.IH by linarith
qed simp

section \<open>Properties\<close>

text \<open>A small scheme for concrete inputs: \<open>k = 4\<close>, \<open>m = 2\<close>, \<open>S = 3\<close>.\<close>

definition small_scheme :: ParityScheme where
  "small_scheme = \<lparr>scheme_id = ''test'', data_blocks_per_stripe = 4,
     parity_blocks_per_stripe = 2, stripes_per_neighborhood = 3\<rparr>"

text \<open>
  C8: every ordinal that an explicitly ranged epoch maps to a stripe position is the ordinal
  that position is decoded to; the mapping into (stripe, data index) loses nothing, although
  it narrows both coordinates to \<open>u32\<close> and \<open>u16\<close>.
\<close>

theorem stripe_mapping_roundtrip:
  assumes "checked_add st n = Some en"
    and "ordinal_to_stripe_in_epoch ord e st n s = Inr a"
  shows "stripe_data_shard_in_epoch a st en s = Inr (Real ord)"
proof -
  from assms(2) obtain i where a: "unat n \<le> nS s * nK s" "unat st \<le> unat ord"
    "unat ord < unat st + unat n" "unat (stripe_index a) = (unat ord - unat st) mod nS s"
    "position a = Data i" "unat i = (unat ord - unat st) div nS s"
    by (auto simp: ordinal_to_stripe_in_epoch_Inr)
  have en: "unat en = unat st + unat n"
    using assms(1) by (simp add: checked_simps)
  have d: "unat ord - unat st < nK s * nS s" and pos: "0 < nS s"
    using a by (auto simp: mult.commute intro: gr0I)
  have off: "unat i * nS s + unat (stripe_index a) = unat ord - unat st"
    by (simp add: a)
  show ?thesis
    using a d pos
    by (subst stripe_data_shard_in_epoch_eq [of a i])
      (simp_all add: off en less_mult_imp_div_less del: of_nat_add)
qed

theorem stripe_mapping_roundtrip_witness:
  "stripe_data_shard_in_epoch \<lparr>neighborhood = 7, stripe_index = 1, position = Data 1\<rparr> 100 112
     small_scheme = Inr (Real 104)"
proof (rule stripe_mapping_roundtrip)
  show "checked_add 100 12 = Some (112 :: u64)" by code_simp
  show "ordinal_to_stripe_in_epoch 104 7 100 12 small_scheme =
      Inr \<lparr>neighborhood = 7, stripe_index = 1, position = Data 1\<rparr>" by code_simp
qed

text \<open>
  Conversely, a stripe position that decodes to a real shard is the position its ordinal
  maps to, so real shards and in-range ordinals correspond one to one.
\<close>

lemma stripe_mapping_complete:
  assumes "checked_add st n = Some en" and "n \<noteq> 0" and "unat n \<le> nS s * nK s"
    and "stripe_data_shard_in_epoch a st en s = Inr (Real ord)"
  shows "ordinal_to_stripe_in_epoch ord (neighborhood a) st n s = Inr a"
proof -
  obtain i where i: "position a = Data i" "unat i < nK s" "unat (stripe_index a) < nS s"
    "unat st \<le> unat en"
    using stripe_data_shard_in_epoch_dest [OF assms(4)] by blast
  have en: "unat en = unat st + unat n"
    using assms(1) by (simp add: checked_simps)
  define off where "off = unat i * nS s + unat (stripe_index a)"
  have off: "unat st + off < unat en" and "ord = word_of_nat (unat st + off)"
    using assms(4) unfolding stripe_data_shard_in_epoch_eq [OF i]
    by (auto simp: off_def split: if_splits)
  then have ord: "unat ord = unat st + off"
    using unat_u64_less [of en] by (simp add: unat_of_nat del: of_nat_add)
  have "off mod nS s = unat (stripe_index a)" "off div nS s = unat i"
    using i by (simp_all add: off_def)
  then show ?thesis
    using assms(2,3) i off by (simp add: ordinal_to_stripe_in_epoch_Inr ord en unat_gt_0)
qed

text \<open>
  C7: interleaving spreads damage. A run of consecutive ordinals no longer than the scheme's
  contiguous damage threshold \<open>S * m\<close> meets every stripe of the epoch at most \<open>m\<close> times,
  the number of erasures a stripe can lose.
\<close>

theorem stripe_burst_bound:
  "card {ord. unat lo \<le> unat ord \<and>
      unat ord < unat lo + unat (contiguous_damage_threshold s) \<and>
      (\<exists>a. ordinal_to_stripe_in_epoch ord e st n s = Inr a \<and> stripe_index a = x)} \<le> nM s"
    (is "card ?W \<le> _")
proof -
  let ?D = "{d. unat lo - unat st \<le> d \<and> d < unat lo - unat st + nS s * nM s \<and> d mod nS s = unat x}"
  have "inj_on (\<lambda>ord. unat ord - unat st) ?W"
    by (rule inj_onI) (auto simp: ordinal_to_stripe_in_epoch_Inr word_unat_eq_iff)
  moreover have "(\<lambda>ord. unat ord - unat st) ` ?W \<subseteq> ?D"
    by (auto simp: ordinal_to_stripe_in_epoch_Inr unat_contiguous_damage_threshold)
  ultimately have "card ?W \<le> card ?D"
    by (intro card_inj_on_le) auto
  then show ?thesis
    using card_residue_window [of "unat lo - unat st" "nS s" "nM s" "unat x"] by linarith
qed

text \<open>
  C9: the catalog update after a watermark advance is complete: recomputing only the objects
  that the update predicate selects leaves every object with the state it has at the new
  watermark.
\<close>

theorem recompute_object_complete:
  assumes "from_watermark_advance old new = Inr (Some r)"
    and "ObjectParityState_from_ordinals f c old = Inr st"
  shows "\<exists>res. recompute_object r f c = Inr res \<and>
    ObjectParityState_from_ordinals f c new = Inr (case res of None \<Rightarrow> st | Some st' \<Rightarrow> st')"
  using assms
  by (auto simp: from_watermark_advance_Some from_ordinals_Inr recompute_object_def
      includes_object_Inr split: if_splits)
    (use unat_gt_0 [of c] in linarith)

theorem recompute_object_complete_witness:
  "\<exists>res. recompute_object \<lparr>old_highest_protected_ordinal = 10,
       new_highest_protected_ordinal = 20\<rparr> 8 5 = Inr res \<and>
     ObjectParityState_from_ordinals 8 5 20 =
       Inr (case res of None \<Rightarrow> Partial | Some st' \<Rightarrow> st')"
proof (rule recompute_object_complete)
  show "from_watermark_advance 10 20 = Inr (Some \<lparr>old_highest_protected_ordinal = 10,
      new_highest_protected_ordinal = 20\<rparr>)" by code_simp
  show "ObjectParityState_from_ordinals 8 5 10 = Inr Partial" by code_simp
qed

text \<open>
  C10: protection never regresses: an object's state at a later watermark is at least its
  state at an earlier one, and it is defined there.
\<close>

theorem protection_never_regresses:
  assumes "old \<le> new" and "ObjectParityState_from_ordinals f c old = Inr st"
  shows "\<exists>st'. ObjectParityState_from_ordinals f c new = Inr st' \<and> st \<le> st'"
  using assms
  by (auto simp: from_ordinals_Inr word_le_nat_alt less_eq_ObjectParityState_def)

theorem protection_never_regresses_witness:
  "\<exists>st'. ObjectParityState_from_ordinals 8 5 12 = Inr st' \<and> Partial \<le> st'"
proof (rule protection_never_regresses)
  show "(10 :: u64) \<le> 12" by simp
  show "ObjectParityState_from_ordinals 8 5 10 = Inr Partial" by code_simp
qed

text \<open>
  The one-epoch bound on unprotected ordinals is the exact comparison of \<open>T - W\<close> with
  \<open>S * k\<close>: the product of the two 64-bit factors is never truncated.
\<close>

lemma unprotected_ordinals_exact:
  "unprotected_ordinals_within_one_epoch u sp k \<longleftrightarrow> unat u < unat sp * unat k"
proof -
  have "unat sp * unat k \<le> 18446744073709551615 * 18446744073709551615"
    using unat_u64_less [of sp] unat_u64_less [of k] by (intro mult_le_mono) auto
  then have "unat ((ucast sp :: u128) * ucast k) = unat sp * unat k"
    by (subst unat_mult_exact) simp_all
  then show ?thesis
    by (simp add: unprotected_ordinals_within_one_epoch_def word_less_nat_alt)
qed
text \<open>
  A scheme validates exactly when \<open>k \<ge> 2\<close>, \<open>1 \<le> m \<le> k\<close>, \<open>S \<ge> 1\<close>, the stripe fits the
  field and the neighborhood's block count, computed without overflow, fits 32 bits.
\<close>

lemma ParityScheme_validate_exact: "ParityScheme_validate s = Inr t \<longleftrightarrow>
    t = s \<and> 2 \<le> nK s \<and> 1 \<le> nM s \<and> nM s \<le> nK s \<and> 1 \<le> nS s \<and> nK s + nM s \<le> 255 \<and>
    nS s * (nK s + nM s) < 2 ^ 32"
  by (rule validate_Inr)

end
