(* ===== verification/Gf256.thy ===== *)
theory Gf256
  imports ParityModel
begin

text \<open>
  The finite field of the Reed-Solomon codec: the GF(2^8) arithmetic of
  \<open>crates/remanence-parity/src/codec.rs\<close> with the polynomial 0x11D. The code multiplies
  through a 256 by 256 table built from a shift-and-add loop, inverts by raising to the power
  254, and adds by XOR. The theory shows that these operations make the bytes a field, and
  makes that fact available to the library's algebra as a type \<open>gf\<close> in class \<open>field\<close>.
\<close>

section \<open>The code\<close>

function gf_mul_loop :: "u8 \<Rightarrow> u8 \<Rightarrow> u8 \<Rightarrow> u8" where
  "gf_mul_loop product a b =
     (if b \<noteq> 0
      then let product' = (if b AND 1 \<noteq> 0 then product XOR a else product);
               carry = (a AND 0x80 \<noteq> 0);
               a' = push_bit 1 a;
               a'' = (if carry then a' XOR 0x1d else a')
           in gf_mul_loop product' a'' (drop_bit 1 b)
      else product)"
  by pat_completeness auto
termination
  by (relation "measure (\<lambda>(product, a, b). unat b)") (auto simp: unat_gt_0)

declare gf_mul_loop.simps [simp del]

definition gf_mul_bitwise :: "u8 \<Rightarrow> u8 \<Rightarrow> u8" where
  "gf_mul_bitwise a b = gf_mul_loop 0 a b"

definition build_gf_mul_table :: "u8 list list" where
  "build_gf_mul_table =
     map (\<lambda>a. map (\<lambda>b. gf_mul_bitwise (word_of_nat a) (word_of_nat b)) [0..<256]) [0..<256]"

definition gf_mul :: "u8 \<Rightarrow> u8 \<Rightarrow> u8" where
  "gf_mul a b = build_gf_mul_table ! unat a ! unat b"

function gf_pow_loop :: "u8 \<Rightarrow> u8 \<Rightarrow> u16 \<Rightarrow> u8" where
  "gf_pow_loop result val exponent =
     (if exponent > 0
      then let result' = (if exponent AND 1 = 1 then gf_mul result val else result)
           in gf_pow_loop result' (gf_mul val val) (drop_bit 1 exponent)
      else result)"
  by pat_completeness auto
termination
  by (relation "measure (\<lambda>(result, val, exponent). unat exponent)")
    (auto simp: unat_gt_0 word_gt_0)

declare gf_pow_loop.simps [simp del]

definition gf_pow :: "u8 \<Rightarrow> u16 \<Rightarrow> u8" where
  "gf_pow val exponent = gf_pow_loop 1 val exponent"

definition gf_inv :: "u8 \<Rightarrow> u8 parity_result" where
  "gf_inv val =
     (if val = 0 then Inl (Invariant ''attempted GF inverse of zero'')
      else Inr (gf_pow val 254))"

section \<open>Multiplication by the generator\<close>

declare upt_rec_numeral [simp del]

definition xtime :: "u8 \<Rightarrow> u8" where
  "xtime a = push_bit 1 a XOR (if bit a 7 then 0x1d else 0)"

lemma and_80_bit: "a AND 0x80 \<noteq> 0 \<longleftrightarrow> bit a 7" for a :: u8
proof -
  have "(0x80 :: u8) = push_bit 7 1" by simp
  then show ?thesis by (simp add: bit_iff_and_push_bit_not_eq_0)
qed

lemma and_1_odd: "b AND 1 \<noteq> 0 \<longleftrightarrow> odd b" for b :: "'a::len word"
  by (simp add: and_one_eq mod_2_eq_odd)

lemma gf_mul_loop_rec: "gf_mul_loop p a b =
    (if b = 0 then p else gf_mul_loop (p XOR (if bit b 0 then a else 0)) (xtime a) (drop_bit 1 b))"
  by (subst gf_mul_loop.simps) (simp add: xtime_def and_80_bit and_1_odd bit_0 Let_def)

lemma xtime_0 [simp]: "xtime 0 = 0"
  by (simp add: xtime_def)

lemma xtime_xor: "xtime (a XOR b) = xtime a XOR xtime b"
  by (simp add: xtime_def bit_xor_iff push_bit_xor ac_simps xor.left_commute)

lemma xtimes_xor: "(xtime ^^ n) (a XOR b) = (xtime ^^ n) a XOR (xtime ^^ n) b"
  by (induction n) (simp_all add: xtime_xor)

lemma xtimes_0 [simp]: "(xtime ^^ n) 0 = 0"
  by (induction n) simp_all

text \<open>The product in closed form: one shifted copy of \<open>a\<close> for every set bit of \<open>b\<close>.\<close>

primrec gf_sum :: "nat \<Rightarrow> u8 \<Rightarrow> u8 \<Rightarrow> u8" where
  "gf_sum 0 a b = 0"
| "gf_sum (Suc n) a b = (if bit b 0 then a else 0) XOR gf_sum n (xtime a) (drop_bit 1 b)"

lemma gf_sum_0 [simp]: "gf_sum n a 0 = 0"
  by (induction n arbitrary: a) simp_all

lemma gf_mul_loop_sum: "unat b < 2 ^ n \<Longrightarrow> gf_mul_loop p a b = p XOR gf_sum n a b"
proof (induction n arbitrary: p a b)
  case 0
  then show ?case by (subst gf_mul_loop_rec) (simp add: unat_eq_0)
next
  case (Suc n)
  have "unat (drop_bit 1 b) < 2 ^ n"
    using Suc.prems by simp
  then show ?case
    by (subst gf_mul_loop_rec) (simp add: Suc.IH ac_simps)
qed

lemma unat_u8_lt: "unat (b :: u8) < 256"
  using unsigned_less [of b] by simp

lemma gf_mul_sum: "gf_mul a b = gf_sum 8 a b"
proof -
  have "gf_mul a b = gf_mul_bitwise a b"
    by (simp add: gf_mul_def build_gf_mul_table_def unat_u8_lt)
  also have "\<dots> = gf_sum 8 a b"
    using gf_mul_loop_sum [of b 8 0 a] unat_u8_lt [of b] by (simp add: gf_mul_bitwise_def)
  finally show ?thesis .
qed

lemma take_bit_Suc_xor: "take_bit (Suc n) b = take_bit n b XOR (if bit b n then 2 ^ n else 0)"
  for b :: "'a::len word"
  by (rule bit_word_eqI) (auto simp: bit_simps less_Suc_eq)

lemma u8_linear_ext:
  assumes f: "\<And>a b. f (a XOR b) = f a XOR f b" and g: "\<And>a b. g (a XOR b) = g a XOR g b"
    and basis: "list_all (\<lambda>k. f (2 ^ k) = g (2 ^ k)) [0..<8]"
  shows "f (b :: u8) = (g b :: u8)"
proof -
  have zero: "f 0 = 0" "g 0 = 0"
    using f [of 0 0] g [of 0 0] by simp_all
  have "n \<le> 8 \<Longrightarrow> f (take_bit n b) = g (take_bit n b)" for n
    using basis by (induction n) (simp_all add: zero take_bit_Suc_xor f g list_all_iff)
  from this [of 8] show ?thesis
    by (simp add: take_bit_word_eq_self)
qed

lemma gf_sum_xor_left: "gf_sum n (a XOR a') b = gf_sum n a b XOR gf_sum n a' b"
  by (induction n arbitrary: a a' b) (simp_all add: xtime_xor ac_simps xor.left_commute)

lemma gf_sum_xor_right: "gf_sum n a (b XOR b') = gf_sum n a b XOR gf_sum n a b'"
  by (induction n arbitrary: a b b') (simp_all add: bit_xor_iff ac_simps xor.left_commute)

lemma gf_sum_xtime: "gf_sum n (xtime a) b = xtime (gf_sum n a b)"
  by (induction n arbitrary: a b) (simp_all add: xtime_xor)

lemma gf_one: "gf_sum 8 1 b = b"
  by (rule u8_linear_ext) (rule gf_sum_xor_right, rule refl, code_simp)

lemma gf_sum_xtimes: "gf_sum n ((xtime ^^ k) a) b = (xtime ^^ k) (gf_sum n a b)"
  by (induction k) (simp_all add: gf_sum_xtime)

lemma xtimes_one_add: "(xtime ^^ (m + n)) 1 = gf_sum 8 ((xtime ^^ m) 1) ((xtime ^^ n) 1)"
  by (simp only: gf_sum_xtimes gf_one funpow_add comp_def)

lemma basis_xtimes: "k < 8 \<Longrightarrow> 2 ^ k = (xtime ^^ k) 1"
proof -
  have "list_all (\<lambda>k. 2 ^ k = (xtime ^^ k) 1) [0..<8]"
    by code_simp
  then show "k < 8 \<Longrightarrow> 2 ^ k = (xtime ^^ k) 1"
    by (simp add: list_all_iff)
qed

lemma gf_sum_commute: "gf_sum 8 a b = gf_sum 8 b a"
proof (rule u8_linear_ext [where f = "\<lambda>a. gf_sum 8 a b" and g = "\<lambda>a. gf_sum 8 b a"])
  have "gf_sum 8 (2 ^ k) b = gf_sum 8 b (2 ^ k)" if "k < 8" for k
  proof (rule u8_linear_ext [where f = "gf_sum 8 (2 ^ k)" and g = "\<lambda>b. gf_sum 8 b (2 ^ k)"])
    show "list_all (\<lambda>j. gf_sum 8 (2 ^ k) (2 ^ j) = gf_sum 8 (2 ^ j) (2 ^ k)) [0..<8]"
      using that by (simp add: list_all_iff basis_xtimes xtimes_one_add [symmetric] add.commute)
  qed (simp_all only: gf_sum_xor_left gf_sum_xor_right)
  then show "list_all (\<lambda>k. gf_sum 8 (2 ^ k) b = gf_sum 8 b (2 ^ k)) [0..<8]"
    by (simp add: list_all_iff)
qed (simp_all only: gf_sum_xor_left gf_sum_xor_right)

lemma gf_sum_assoc: "gf_sum 8 (gf_sum 8 a b) c = gf_sum 8 a (gf_sum 8 b c)"
proof (rule u8_linear_ext [where f = "\<lambda>a. gf_sum 8 (gf_sum 8 a b) c" and
      g = "\<lambda>a. gf_sum 8 a (gf_sum 8 b c)"])
  show "list_all (\<lambda>k. gf_sum 8 (gf_sum 8 (2 ^ k) b) c = gf_sum 8 (2 ^ k) (gf_sum 8 b c)) [0..<8]"
    by (simp add: list_all_iff basis_xtimes gf_sum_xtimes gf_one)
qed (simp_all only: gf_sum_xor_left gf_sum_xor_right)

text \<open>The byte 2 generates the multiplicative group: its powers run through all 255 nonzero
  bytes.\<close>

lemma proper_dvd_255: "e dvd 85 \<or> e dvd 51 \<or> e dvd 15" if "e dvd 255" "e < 255" for e :: nat
proof -
  have "list_all (\<lambda>e. e dvd 255 \<longrightarrow> e dvd 85 \<or> e dvd 51 \<or> e dvd 15) [2..<255 :: nat]"
    by (simp add: upt_rec_numeral)
  moreover have "e = 0 \<or> e = 1 \<or> e \<in> set [2..<255]"
    using that by auto
  ultimately show ?thesis
    using that by (simp only: list_all_iff) auto
qed

lemma xtimes_one_values: "(xtime ^^ 15) 1 = 38" "(xtime ^^ 51) 1 = 10" "(xtime ^^ 85) 1 = 214"
  "(xtime ^^ 255) 1 = 1"
proof -
  have "gf_sum 8 29 128 = 38" "gf_sum 8 38 4 = 152" "gf_sum 8 152 152 = 78"
    "gf_sum 8 78 152 = 10" "gf_sum 8 10 78 = 214" "gf_sum 8 214 214 = 215" "gf_sum 8 215 214 = 1"
    by code_simp+
  note products = this
  have 8: "(xtime ^^ 8) 1 = 29"
    by code_simp
  show 15: "(xtime ^^ 15) 1 = 38"
    using xtimes_one_add [of 8 7] by (simp add: 8 products basis_xtimes [symmetric])
  have 17: "(xtime ^^ 17) 1 = 152"
    using xtimes_one_add [of 15 2] by (simp add: 15 products basis_xtimes [symmetric])
  have 34: "(xtime ^^ 34) 1 = 78"
    using xtimes_one_add [of 17 17] by (simp add: 17 products)
  show 51: "(xtime ^^ 51) 1 = 10"
    using xtimes_one_add [of 34 17] by (simp add: 17 34 products)
  show 85: "(xtime ^^ 85) 1 = 214"
    using xtimes_one_add [of 51 34] by (simp add: 51 34 products)
  have 170: "(xtime ^^ 170) 1 = 215"
    using xtimes_one_add [of 85 85] by (simp add: 85 products)
  show "(xtime ^^ 255) 1 = 1"
    using xtimes_one_add [of 170 85] by (simp add: 170 85 products)
qed

lemma xtimes_255: "(xtime ^^ 255) a = a"
  using gf_sum_xtimes [of 8 255 1 a] by (simp only: gf_one xtimes_one_values)

lemma xtimes_mult: "(xtime ^^ m) 1 = 1 \<Longrightarrow> (xtime ^^ (m * k)) 1 = 1"
  by (simp add: funpow_mult [symmetric]) (induction k; simp)

lemma xtimes_order: "0 < d \<Longrightarrow> d < 255 \<Longrightarrow> (xtime ^^ d) 1 \<noteq> 1"
proof
  assume d: "0 < d" "d < 255" and "(xtime ^^ d) 1 = 1"
  obtain x y where "d * x = 255 * y + gcd d 255"
    using bezout_nat [of d 255] d by auto
  moreover have "(xtime ^^ (255 * y)) 1 = 1"
    by (rule xtimes_mult) (rule xtimes_255)
  ultimately have e: "(xtime ^^ gcd d 255) 1 = 1"
    using xtimes_mult [OF \<open>(xtime ^^ d) 1 = 1\<close>, of x]
    by (simp only: add.commute [of "255 * y"] funpow_add comp_def)
  have "gcd d 255 \<le> d"
    using d by (intro gcd_le1_nat) simp
  then have "gcd d 255 < 255"
    using d by linarith
  then have "gcd d 255 dvd 85 \<or> gcd d 255 dvd 51 \<or> gcd d 255 dvd 15"
    by (intro proper_dvd_255) (simp_all only: gcd_dvd2)
  then have "(xtime ^^ 85) 1 = 1 \<or> (xtime ^^ 51) 1 = 1 \<or> (xtime ^^ 15) 1 = 1"
    using xtimes_mult [OF e] by (metis dvd_def)
  then show False by (simp add: xtimes_one_values)
qed

lemma inj_xtime: "inj xtime"
proof (rule injI)
  fix a b assume "xtime a = xtime b"
  then have "(xtime ^^ Suc 254) a = (xtime ^^ Suc 254) b"
    by (simp only: funpow_Suc_right comp_def)
  then show "a = b"
    using xtimes_255 [of a] xtimes_255 [of b] by simp
qed

lemma inj_xtimes_one: "inj_on (\<lambda>n. (xtime ^^ n) 1) {0..<255}"
proof (rule linorder_inj_onI)
  fix i j :: nat assume "i < j" "i \<in> {0..<255}" "j \<in> {0..<255}"
  then have "(xtime ^^ (j - i)) 1 \<noteq> 1" by (intro xtimes_order) auto
  moreover have "(xtime ^^ j) 1 = (xtime ^^ i) ((xtime ^^ (j - i)) 1)"
    using \<open>i < j\<close> funpow_add [of i "j - i" xtime] by simp
  ultimately show "(xtime ^^ i) 1 \<noteq> (xtime ^^ j) 1"
    using inj_fn [OF inj_xtime, of i] by (auto simp: inj_def)
qed auto

lemma generator: assumes "a \<noteq> 0" obtains n where "n < 255" "a = (xtime ^^ n) 1"
proof -
  have nz: "(xtime ^^ n) 1 \<noteq> 0" for n
    using inj_fn [OF inj_xtime, of n] by (metis injD one_neq_zero xtimes_0)
  have "card ((\<lambda>n. (xtime ^^ n) 1) ` {0..<255}) = 255"
    using card_image [OF inj_xtimes_one] by simp
  moreover have "card (UNIV - {0 :: u8}) = 255"
    by (simp add: card_Diff_singleton_if card_word)
  moreover have "(\<lambda>n. (xtime ^^ n) 1) ` {0..<255} \<subseteq> UNIV - {0}"
    using nz by auto
  ultimately have "(\<lambda>n. (xtime ^^ n) 1) ` {0..<255} = UNIV - {0}"
    by (intro card_subset_eq) auto
  then have "a \<in> (\<lambda>n. (xtime ^^ n) 1) ` {0..<255}"
    using assms by simp
  then show ?thesis
    using that by auto
qed
section \<open>The field as a type\<close>

typedef gf = "UNIV :: u8 set"
  morphisms byte_of gf_of ..

setup_lifting type_definition_gf

instantiation gf :: comm_ring_1
begin

lift_definition zero_gf :: gf is 0 .
lift_definition one_gf :: gf is 1 .
lift_definition plus_gf :: "gf \<Rightarrow> gf \<Rightarrow> gf" is "\<lambda>a b. a XOR b" .
lift_definition minus_gf :: "gf \<Rightarrow> gf \<Rightarrow> gf" is "\<lambda>a b. a XOR b" .
lift_definition uminus_gf :: "gf \<Rightarrow> gf" is "\<lambda>a. a" .
lift_definition times_gf :: "gf \<Rightarrow> gf \<Rightarrow> gf" is gf_mul .

instance
proof
  fix a b c :: gf
  show "a * b * c = a * (b * c)"
    by transfer (simp only: gf_mul_sum gf_sum_assoc)
  show "a * b = b * a"
    by transfer (simp only: gf_mul_sum gf_sum_commute)
  show "1 * a = a"
    by transfer (simp only: gf_mul_sum gf_one)
  show "a + b + c = a + (b + c)"
    by transfer (simp only: xor.assoc)
  show "a + b = b + a"
    by transfer (simp only: xor.commute)
  show "0 + a = a" "- a + a = 0" "a - b = a + - b" "(0 :: gf) \<noteq> 1"
    by (transfer; simp)+
  show "(a + b) * c = a * c + b * c"
    by transfer (simp only: gf_mul_sum gf_sum_xor_left)
qed

end

lemma gf_of_simps: "gf_of 0 = 0" "gf_of 1 = 1" "gf_of (a XOR b) = gf_of a + gf_of b"
  "gf_of (gf_mul a b) = gf_of a * gf_of b"
  by (simp_all add: zero_gf_def one_gf_def plus_gf_def times_gf_def gf_of_inverse)

lemma gf_of_eq [simp]: "gf_of a = gf_of b \<longleftrightarrow> a = b"
  by (simp add: gf_of_inject)

lemma gf_add_self [simp]: "a + a = (0 :: gf)"
  by transfer simp

lemma gf_minus [simp]: "- a = (a :: gf)"
  by transfer simp

lemma gf_of_xtimes: "gf_of ((xtime ^^ n) 1) = gf_of 2 ^ n"
proof (induction n)
  case (Suc n)
  have "xtime 1 = 2" by code_simp
  then have "xtime ((xtime ^^ n) 1) = gf_mul 2 ((xtime ^^ n) 1)"
    using gf_sum_xtime [of 8 1 "(xtime ^^ n) 1"] by (simp add: gf_mul_sum gf_one)
  then show ?case by (simp add: gf_of_simps Suc.IH)
qed (simp add: gf_of_simps)

lemma gf_power_255: "(x :: gf) \<noteq> 0 \<Longrightarrow> x ^ 255 = 1"
proof -
  assume "x \<noteq> 0"
  obtain a where x: "x = gf_of a" by (cases x)
  with \<open>x \<noteq> 0\<close> have "a \<noteq> 0" by (auto simp: gf_of_simps)
  then obtain n where "a = (xtime ^^ n) 1" by (rule generator)
  then have "x ^ 255 = (gf_of 2 ^ 255) ^ n"
    by (simp add: x gf_of_xtimes power_mult [symmetric] mult.commute)
  also have "gf_of 2 ^ 255 = gf_of ((xtime ^^ 255) 1)"
    by (simp only: gf_of_xtimes)
  also have "\<dots> = 1"
    by (simp only: xtimes_255 gf_of_simps)
  finally show ?thesis by simp
qed

lemma gf_of_pow_loop: "gf_of (gf_pow_loop r v e) = gf_of r * gf_of v ^ unat e"
proof (induction r v e rule: gf_pow_loop.induct)
  case (1 r v e)
  show ?case
  proof (cases "e = 0")
    case True
    then show ?thesis by (subst gf_pow_loop.simps) simp
  next
    case False
    have "gf_of v ^ unat e = gf_of v ^ (unat e mod 2) * (gf_of v * gf_of v) ^ (unat e div 2)"
      by (metis mod_mult_div_eq power_add power_mult power2_eq_square)
    moreover have "e AND 1 = 1 \<longleftrightarrow> unat e mod 2 = 1"
      by (simp add: word_unat_eq_iff unsigned_and_eq and_one_eq unat_mod)
    moreover have "gf_pow_loop r v e =
        gf_pow_loop (if e AND 1 = 1 then gf_mul r v else r) (gf_mul v v) (drop_bit 1 e)"
      using False by (subst gf_pow_loop.simps) (simp add: word_gt_0 Let_def)
    moreover have "gf_of (gf_pow_loop (if e AND 1 = 1 then gf_mul r v else r) (gf_mul v v)
          (drop_bit 1 e)) =
        gf_of (if e AND 1 = 1 then gf_mul r v else r) * gf_of (gf_mul v v) ^ unat (drop_bit 1 e)"
      using False by (intro 1) (simp_all add: word_gt_0)
    ultimately show ?thesis
      by (cases "unat e mod 2 = 1") (simp_all add: gf_of_simps mult.assoc)
  qed
qed

instantiation gf :: field
begin

lift_definition inverse_gf :: "gf \<Rightarrow> gf" is "\<lambda>a. if a = 0 then 0 else gf_pow a 254" .

definition divide_gf :: "gf \<Rightarrow> gf \<Rightarrow> gf" where
  "divide_gf a b = a * inverse b"

instance
proof
  fix a b :: gf
  show "inverse a * a = 1" if "a \<noteq> 0"
  proof -
    obtain x where x: "a = gf_of x" by (cases a)
    then have "inverse a = gf_of (gf_pow x 254)"
      using that by (auto simp: inverse_gf_def gf_of_inverse gf_of_simps)
    also have "\<dots> = a ^ 254"
      by (simp add: gf_pow_def gf_of_pow_loop gf_of_simps x)
    finally show ?thesis
      using gf_power_255 [OF that] power_Suc2 [of a 254] by simp
  qed
  show "a div b = a * inverse b"
    by (simp add: divide_gf_def)
  show "inverse (0 :: gf) = 0"
    by transfer simp
qed

end

lemma gf_inv_field: "a \<noteq> 0 \<Longrightarrow> gf_inv a = Inr (byte_of (inverse (gf_of a)))"
  by (simp add: gf_inv_def inverse_gf.rep_eq gf_of_inverse)

text \<open>
  C4: the bytes with XOR as addition and the table product as multiplication form a field,
  and \<open>gf_inv\<close> returns the multiplicative inverse of every byte but 0, which it rejects.
\<close>

theorem gf_field_laws:
  "gf_mul (gf_mul a b) c = gf_mul a (gf_mul b c) \<and> gf_mul a b = gf_mul b a \<and>
   gf_mul a (b XOR c) = gf_mul a b XOR gf_mul a c \<and> gf_mul 1 a = a \<and>
   (if a = 0 then gf_inv a = Inl (Invariant ''attempted GF inverse of zero'')
    else \<exists>b. gf_inv a = Inr b \<and> gf_mul a b = 1)"
proof (intro conjI)
  show "gf_mul (gf_mul a b) c = gf_mul a (gf_mul b c)" "gf_mul a b = gf_mul b a"
    "gf_mul a (b XOR c) = gf_mul a b XOR gf_mul a c" "gf_mul 1 a = a"
    by (simp_all only: gf_of_eq [symmetric] gf_of_simps algebra_simps mult_1)
  have "gf_mul a (byte_of (inverse (gf_of a))) = 1" if "a \<noteq> 0"
  proof -
    have "gf_of a \<noteq> 0" using that by (metis gf_of_eq gf_of_simps(1))
    then show ?thesis
      by (simp only: gf_of_eq [symmetric] gf_of_simps byte_of_inverse) simp
  qed
  then show "if a = 0 then gf_inv a = Inl (Invariant ''attempted GF inverse of zero'')
    else \<exists>b. gf_inv a = Inr b \<and> gf_mul a b = 1"
    by (simp add: gf_inv_field) (simp add: gf_inv_def)
qed

end
