(* ===== verification/Kernels.thy ===== *)
theory Kernels
  imports Gf256
begin

text \<open>
  The multiply-add kernels of \<open>crates/remanence-parity/src/codec/kernels.rs\<close>: the portable
  one, which calls the third-party \<open>reed_solomon_erasure::galois_8::mul_slice_xor\<close>, and the
  SSSE3 and AVX2 ones, which look both nibbles of every byte up in 16-entry tables. The
  third-party routine is the argument \<open>msx\<close>, with its documented behaviour as the predicate
  \<open>mul_slice_xor_spec\<close>. The vector instructions are modelled on lists of bytes, 16 or 32 long,
  the way the processor defines them: the 16-bit shift moves bits between the two bytes of a
  lane, and the byte shuffle reads its table by the low four bits unless bit 7 is set.

  A failed \<open>assert_eq!\<close> is the value \<open>Inl (Panic _)\<close>. Which kernel the processor supports is an
  input, the argument \<open>kind\<close>.
\<close>

section \<open>The code\<close>

datatype failure = Panic string | Error ParityError

type_synonym mul_slice_xor = "u8 \<Rightarrow> bytes \<Rightarrow> bytes \<Rightarrow> bytes"

datatype KernelKind = Portable | Ssse3 | Avx2

definition selected :: "bool \<Rightarrow> bool \<Rightarrow> KernelKind" where
  "selected avx2_detected ssse3_detected =
     (if avx2_detected then Avx2 else if ssse3_detected then Ssse3 else Portable)"

fun Kernel_name :: "KernelKind \<Rightarrow> string" where
  "Kernel_name Portable = ''portable''"
| "Kernel_name Ssse3 = ''ssse3''"
| "Kernel_name Avx2 = ''avx2''"

definition portable :: "mul_slice_xor \<Rightarrow> u8 \<Rightarrow> bytes \<Rightarrow> bytes \<Rightarrow> bytes" where
  "portable msx coefficient input output = msx coefficient input output"

text \<open>The tables for the low and for the high nibble of every coefficient.\<close>

definition nibble_tables :: "bytes list list" where
  "nibble_tables =
     map (\<lambda>c. [map (\<lambda>n. build_gf_mul_table ! c ! n) [0..<16],
               map (\<lambda>n. build_gf_mul_table ! c ! (push_bit 4 n)) [0..<16]]) [0..<256]"

text \<open>The vector instructions.\<close>

definition mm_and :: "bytes \<Rightarrow> bytes \<Rightarrow> bytes" where
  "mm_and a b = map2 (\<lambda>x y. x AND y) a b"

definition mm_xor :: "bytes \<Rightarrow> bytes \<Rightarrow> bytes" where
  "mm_xor a b = map2 (\<lambda>x y. x XOR y) a b"

fun mm_srli_epi16_4 :: "bytes \<Rightarrow> bytes" where
  "mm_srli_epi16_4 (lo # hi # rest) =
     (let lane = drop_bit 4 (ucast lo OR push_bit 8 (ucast hi) :: u16)
      in ucast lane # ucast (drop_bit 8 lane) # mm_srli_epi16_4 rest)"
| "mm_srli_epi16_4 bs = bs"

definition mm_shuffle_epi8 :: "bytes \<Rightarrow> bytes \<Rightarrow> bytes" where
  "mm_shuffle_epi8 table idx =
     map (\<lambda>i. if bit i 7 then 0 else table ! unat (i AND 15)) idx"

definition mm256_shuffle_epi8 :: "bytes \<Rightarrow> bytes \<Rightarrow> bytes" where
  "mm256_shuffle_epi8 table idx =
     mm_shuffle_epi8 (take 16 table) (take 16 idx) @ mm_shuffle_epi8 (drop 16 table) (drop 16 idx)"

definition ssse3_chunk :: "bytes \<Rightarrow> bytes \<Rightarrow> bytes \<Rightarrow> bytes \<Rightarrow> bytes" where
  "ssse3_chunk low high bytes out =
     (let mask = replicate 16 15;
          lo = mm_and bytes mask;
          hi = mm_and (mm_srli_epi16_4 bytes) mask;
          product = mm_xor (mm_shuffle_epi8 low lo) (mm_shuffle_epi8 high hi)
      in mm_xor out product)"

definition avx2_chunk :: "bytes \<Rightarrow> bytes \<Rightarrow> bytes \<Rightarrow> bytes \<Rightarrow> bytes" where
  "avx2_chunk low high bytes out =
     (let mask = replicate 32 15;
          lo = mm_and bytes mask;
          hi = mm_and (mm_srli_epi16_4 bytes) mask;
          product = mm_xor (mm256_shuffle_epi8 low lo) (mm256_shuffle_epi8 high hi)
      in mm_xor out product)"

text \<open>The loop over the complete chunks of \<open>w\<close> bytes: each iteration loads the chunk at
  \<open>offset\<close> of input and output and stores the new output chunk at the same place.\<close>

definition chunk_loop :: "nat \<Rightarrow> (bytes \<Rightarrow> bytes \<Rightarrow> bytes) \<Rightarrow> bytes \<Rightarrow> bytes \<Rightarrow> bytes" where
  "chunk_loop w f input output =
     foldl (\<lambda>out offset.
              take offset out
              @ f (take w (drop offset input)) (take w (drop offset out))
              @ drop (offset + w) out)
       output (map (\<lambda>i. i * w) [0..<length input div w])"

definition ssse3 :: "mul_slice_xor \<Rightarrow> u8 \<Rightarrow> bytes \<Rightarrow> bytes \<Rightarrow> bytes" where
  "ssse3 msx coefficient input output =
     (let tables = nibble_tables ! unat coefficient;
          low = tables ! 0;
          high = tables ! 1;
          end = length input div 16 * 16;
          output' = chunk_loop 16 (ssse3_chunk low high) input output
      in take end output' @ portable msx coefficient (drop end input) (drop end output'))"

definition avx2 :: "mul_slice_xor \<Rightarrow> u8 \<Rightarrow> bytes \<Rightarrow> bytes \<Rightarrow> bytes" where
  "avx2 msx coefficient input output =
     (let tables = nibble_tables ! unat coefficient;
          low = tables ! 0 @ tables ! 0;
          high = tables ! 1 @ tables ! 1;
          end = length input div 32 * 32;
          output' = chunk_loop 32 (avx2_chunk low high) input output
      in take end output' @ portable msx coefficient (drop end input) (drop end output'))"

definition Kernel_apply ::
  "mul_slice_xor \<Rightarrow> KernelKind \<Rightarrow> u8 \<Rightarrow> bytes \<Rightarrow> bytes \<Rightarrow> failure + bytes" where
  "Kernel_apply msx kind coefficient input output =
     (if length input \<noteq> length output then Inl (Panic ''assertion failed: left == right'')
      else if input = [] \<or> coefficient = 0 then Inr output
      else if coefficient = 1 then Inr (map2 (\<lambda>out byte. out XOR byte) output input)
      else case kind of
             Portable \<Rightarrow> Inr (portable msx coefficient input output)
           | Ssse3 \<Rightarrow> Inr (ssse3 msx coefficient input output)
           | Avx2 \<Rightarrow> Inr (avx2 msx coefficient input output))"

section \<open>The reference: one field multiply-add per byte\<close>

definition mul_add :: "u8 \<Rightarrow> bytes \<Rightarrow> bytes \<Rightarrow> bytes" where
  "mul_add c input output = map2 (\<lambda>out b. out XOR gf_mul c b) output input"

text \<open>The documented behaviour of \<open>galois_8::mul_slice_xor(c, input, out)\<close>: it adds the
  multiple of the input to the output, in GF(2^8) over the polynomial 0x11D.\<close>

definition mul_slice_xor_spec :: "mul_slice_xor \<Rightarrow> bool" where
  "mul_slice_xor_spec msx \<longleftrightarrow>
     (\<forall>c input output. length input = length output \<longrightarrow> msx c input output = mul_add c input output)"

lemma gf_mul_0: "gf_mul 0 a = 0"
  by (simp only: gf_of_eq [symmetric] gf_of_simps mult_zero_left)

section \<open>Nibble lookup is field multiplication\<close>

lemma and_15: "b AND 15 = take_bit 4 b" for b :: u8
  by (simp add: take_bit_eq_mask mask_eq_exp_minus_1)

lemma nibble_split: "b = take_bit 4 b XOR push_bit 4 (drop_bit 4 b)" for b :: u8
  by (rule word_low_high)

lemma unat_take_bit_4: "unat (take_bit 4 b :: u8) < 16"
  using take_bit_nat_less_exp [of 4 "unat b"] by (simp add: unsigned_take_bit_eq)

lemma unat_drop_bit_4: "unat (drop_bit 4 b :: u8) < 16"
  using unat_u8_lt [of b] by (simp only: unat_drop_bit_eq) (simp add: drop_bit_eq_div)

lemma low_table: "nibble_tables ! unat c ! 0 ! unat (take_bit 4 b) = gf_mul c (take_bit 4 b)"
  using unat_take_bit_4 [of b] by (simp add: nibble_tables_def gf_mul_def unat_u8_lt)

lemma high_table:
  "nibble_tables ! unat c ! 1 ! unat (drop_bit 4 b) = gf_mul c (push_bit 4 (drop_bit 4 b))"
proof -
  have "unat (push_bit 4 (drop_bit 4 b)) = push_bit 4 (unat (drop_bit 4 b))"
    using unat_drop_bit_4 [of b]
    by (simp only: unsigned_push_bit_eq) (simp add: push_bit_eq_mult take_bit_nat_eq_self_iff)
  then show ?thesis
    using unat_drop_bit_4 [of b] by (simp add: nibble_tables_def gf_mul_def unat_u8_lt)
qed

lemma nibble_product: "gf_mul c (take_bit 4 b) XOR gf_mul c (push_bit 4 (drop_bit 4 b)) = gf_mul c b"
  by (simp only: gf_mul_sum gf_sum_xor_right [symmetric] nibble_split [symmetric])

lemma not_bit_7: "\<not> bit (take_bit 4 b :: u8) 7" "\<not> bit (drop_bit 4 b :: u8) 7"
  by (simp_all add: bit_take_bit_iff bit_drop_bit_eq impossible_bit)

lemma lane_nibbles:
  "ucast (drop_bit 4 (ucast lo OR push_bit 8 (ucast hi) :: u16)) AND 15 = drop_bit 4 (lo :: u8)"
  "ucast (drop_bit 8 (drop_bit 4 (ucast lo OR push_bit 8 (ucast hi) :: u16))) AND 15 =
     drop_bit 4 (hi :: u8)"
  by (rule bit_word_eqI; auto simp: and_15 bit_simps dest: bit_imp_le_length)+

lemma srli_nibbles: "even (length bs) \<Longrightarrow>
    mm_and (mm_srli_epi16_4 bs) (replicate (length bs) 15) = map (drop_bit 4) bs"
proof (induction bs rule: mm_srli_epi16_4.induct)
  case (1 lo hi rest)
  then show ?case
    by (simp only: mm_srli_epi16_4.simps Let_def mm_and_def list.size add_Suc_right replicate_Suc
        zip_Cons_Cons list.map prod.case lane_nibbles add_0_right even_Suc even_plus_one_iff simp_thms)
qed (simp_all add: mm_and_def)

lemma and_mask: "mm_and bs (replicate (length bs) 15) = map (take_bit 4) bs"
  by (induction bs) (simp_all add: mm_and_def and_15)

lemma shuffle_low: "mm_shuffle_epi8 (nibble_tables ! unat c ! 0) (map (take_bit 4) bs) =
    map (\<lambda>b. gf_mul c (take_bit 4 b)) bs"
  by (simp add: mm_shuffle_epi8_def not_bit_7 and_15 low_table)

lemma shuffle_high: "mm_shuffle_epi8 (nibble_tables ! unat c ! 1) (map (drop_bit 4) bs) =
    map (\<lambda>b. gf_mul c (push_bit 4 (drop_bit 4 b))) bs"
proof -
  have "take_bit 4 (drop_bit 4 b) = drop_bit 4 b" for b :: u8
    by (rule bit_word_eqI) (auto simp: bit_simps dest: bit_imp_le_length)
  then show ?thesis
    by (simp add: mm_shuffle_epi8_def not_bit_7 and_15 high_table del: One_nat_def)
qed

lemma xor_products: "mm_xor out (mm_xor (map (\<lambda>b. gf_mul c (take_bit 4 b)) bs)
    (map (\<lambda>b. gf_mul c (push_bit 4 (drop_bit 4 b))) bs)) = mul_add c bs out"
  by (simp add: mm_xor_def mul_add_def zip_map1 zip_map2 zip_same_conv_map nibble_product comp_def split_def)

lemma ssse3_chunk_mul_add:
  assumes "length bs = 16"
  shows "ssse3_chunk (nibble_tables ! unat c ! 0) (nibble_tables ! unat c ! 1) bs out =
    mul_add c bs out"
  using srli_nibbles [of bs] and_mask [of bs] assms
  by (simp add: ssse3_chunk_def Let_def shuffle_low shuffle_high xor_products del: One_nat_def)

lemma length_nibble_tables: "length (nibble_tables ! unat c ! 0) = 16"
  "length (nibble_tables ! unat c ! 1) = 16" for c :: u8
  by (simp_all add: nibble_tables_def unat_u8_lt)

lemma avx2_chunk_mul_add:
  assumes "length bs = 32"
  shows "avx2_chunk (nibble_tables ! unat c ! 0 @ nibble_tables ! unat c ! 0)
    (nibble_tables ! unat c ! 1 @ nibble_tables ! unat c ! 1) bs out = mul_add c bs out"
proof -
  have "take 16 (map f bs) @ drop 16 (map f bs) = map f bs" for f :: "u8 \<Rightarrow> u8"
    by simp
  then show ?thesis
    using srli_nibbles [of bs] and_mask [of bs] assms
    by (simp add: avx2_chunk_def mm256_shuffle_epi8_def Let_def take_map drop_map length_nibble_tables
       shuffle_low shuffle_high xor_products map_append [symmetric] del: One_nat_def map_append)
qed

lemma length_mul_add [simp]: "length (mul_add c input output) = min (length output) (length input)"
  by (simp add: mul_add_def)

lemma mul_add_append: "length a = length a' \<Longrightarrow>
    mul_add c (a @ b) (a' @ b') = mul_add c a a' @ mul_add c b b'"
  by (simp add: mul_add_def)

lemma chunk_loop_mul_add:
  assumes f: "\<And>bs out. length bs = w \<Longrightarrow> f bs out = mul_add c bs out"
    and len: "length input = length output"
  shows "chunk_loop w f input output =
    mul_add c (take (length input div w * w) input) (take (length input div w * w) output)
    @ drop (length input div w * w) output"
proof -
  have "n * w \<le> length input \<Longrightarrow>
     foldl (\<lambda>out offset. take offset out @ f (take w (drop offset input)) (take w (drop offset out))
       @ drop (offset + w) out) output (map (\<lambda>i. i * w) [0..<n]) =
     mul_add c (take (n * w) input) (take (n * w) output) @ drop (n * w) output" for n
  proof (induction n)
    case (Suc n)
    have split: "take (Suc n * w) xs = take (n * w) xs @ take w (drop (n * w) xs)" for xs :: bytes
      by (simp only: mult_Suc add.commute [of w] take_add)
    have chunk: "length (take w (drop (n * w) input)) = w"
      using Suc.prems by simp
    show ?case
      using Suc chunk len
      by (simp add: f split mul_add_append min_absorb2 del: mult_Suc) (simp add: add.commute)
  qed (simp add: mul_add_def)
  then show ?thesis
    unfolding chunk_loop_def by simp
qed

lemma mul_add_0: "length input = length output \<Longrightarrow> mul_add 0 input output = output"
  by (rule nth_equalityI) (simp_all add: mul_add_def gf_mul_0)

lemma mul_add_1: "mul_add 1 input output = map2 (\<lambda>out byte. out XOR byte) output input"
  by (simp add: mul_add_def gf_mul_sum gf_one)

lemma chunked_kernel:
  assumes "mul_slice_xor_spec msx" "length input = length output"
    and f: "\<And>bs out. length bs = w \<Longrightarrow> f bs out = mul_add c bs out"
  shows "take (length input div w * w) (chunk_loop w f input output)
    @ portable msx c (drop (length input div w * w) input)
        (drop (length input div w * w) (chunk_loop w f input output)) = mul_add c input output"
proof -
  let ?e = "length input div w * w"
  have e: "?e \<le> length output"
    using assms(2) by simp
  have "mul_add c (take ?e input @ drop ?e input) (take ?e output @ drop ?e output) =
      mul_add c (take ?e input) (take ?e output) @ mul_add c (drop ?e input) (drop ?e output)"
    using assms(2) by (intro mul_add_append) simp
  then show ?thesis
    using assms(1,2) e
    by (simp add: chunk_loop_mul_add [OF f] portable_def mul_slice_xor_spec_def)
qed

lemma Kernel_apply_mul_add:
  assumes "mul_slice_xor_spec msx" and "length input = length output"
  shows "Kernel_apply msx kind c input output = Inr (mul_add c input output)"
proof -
  have "ssse3 msx c input output = mul_add c input output"
    using chunked_kernel [OF assms ssse3_chunk_mul_add] by (simp only: ssse3_def Let_def)
  moreover have "avx2 msx c input output = mul_add c input output"
    using chunked_kernel [OF assms avx2_chunk_mul_add] by (simp only: avx2_def Let_def)
  ultimately show ?thesis
    using assms
    by (cases kind) (auto simp: Kernel_apply_def portable_def mul_slice_xor_spec_def mul_add_0
        mul_add_1 mul_add_def [of c "[]" "[]"])
qed

lemma mul_add_spec: "mul_slice_xor_spec mul_add"
  by (simp add: mul_slice_xor_spec_def)

section \<open>Properties\<close>

text \<open>
  C3: whichever kernel the processor selects, multiply-add over a slice is the field
  multiply-add of every byte: the nibble tables, the 16-bit shifts and the chunk loops of the
  vector kernels compute the same bytes as the table product, and equal lengths never panic.
\<close>

theorem Kernel_apply_correct:
  assumes "mul_slice_xor_spec msx" and "length input = length output"
  shows "Kernel_apply msx (selected avx2_detected ssse3_detected) c input output =
    Inr (map2 (\<lambda>out b. out XOR gf_mul c b) output input)"
  using Kernel_apply_mul_add [OF assms] by (simp add: mul_add_def)

theorem Kernel_apply_correct_witness:
  "Kernel_apply mul_add (selected False True) 7 (replicate 17 0xA5) (replicate 17 0x3C) =
     Inr (map2 (\<lambda>out b. out XOR gf_mul 7 b) (replicate 17 0x3C) (replicate 17 0xA5))"
  by (rule Kernel_apply_correct [OF mul_add_spec]) simp

end
