(* ===== verification/Cauchy.thy ===== *)
theory Cauchy
  imports Main
begin

text \<open>
  The algebra behind the erasure code, in any field: a square Cauchy matrix
  \<open>1 / (x j - y i)\<close> with distinct \<open>x\<close> and distinct \<open>y\<close> has a trivial kernel. The proof removes
  one row and one column at a time, so no determinant is needed.
\<close>

lemma cauchy_term:
  fixes a b c d :: "'a::field"
  assumes "a \<noteq> c" "b \<noteq> c"
  shows "(a - d) / (a - c) - (b - d) / (b - c) = (b - a) * ((c - d) / (b - c) / (a - c))"
  using assms by (simp add: divide_simps) (simp add: algebra_simps)

lemma cauchy_kernel:
  fixes x :: "'j \<Rightarrow> 'a::field" and y :: "'i \<Rightarrow> 'a"
  assumes "finite I" and "finite J" and "card I \<le> card J"
    and "inj_on x J" and "inj_on y I" and "\<And>i j. i \<in> I \<Longrightarrow> j \<in> J \<Longrightarrow> x j \<noteq> y i"
    and "\<And>j. j \<in> J \<Longrightarrow> (\<Sum>i\<in>I. v i / (x j - y i)) = 0"
  shows "\<forall>i\<in>I. v i = 0"
  using assms
proof (induction "card I" arbitrary: I J v)
  case 0
  then show ?case by simp
next
  case (Suc n)
  obtain i0 where i0: "i0 \<in> I"
    using Suc.hyps(2) by (metis card_eq_0_iff equals0I nat.distinct(1))
  obtain j0 where j0: "j0 \<in> J"
    using Suc.hyps(2) Suc.prems(2,3) by (metis card.empty equals0I le_zero_eq nat.distinct(1))
  define w where "w i = v i * ((y i - y i0) / (x j0 - y i))" for i
  have "(\<Sum>i\<in>I - {i0}. w i / (x j - y i)) = 0" if j: "j \<in> J - {j0}" for j
  proof -
    have "x j0 \<noteq> x j"
      using j j0 Suc.prems(4) by (auto simp: inj_on_def)
    have "(x j0 - x j) * (\<Sum>i\<in>I - {i0}. w i / (x j - y i)) =
        (\<Sum>i\<in>I - {i0}. v i * ((x j - y i0) / (x j - y i) - (x j0 - y i0) / (x j0 - y i)))"
      using j j0 Suc.prems(6) by (auto simp: w_def sum_distrib_left cauchy_term intro!: sum.cong)
    also have "\<dots> = (\<Sum>i\<in>I. v i * ((x j - y i0) / (x j - y i) - (x j0 - y i0) / (x j0 - y i)))"
      using j j0 i0 Suc.prems(1,6) by (simp add: sum.remove [of I i0])
    also have "\<dots> = (x j - y i0) * (\<Sum>i\<in>I. v i / (x j - y i))
        - (x j0 - y i0) * (\<Sum>i\<in>I. v i / (x j0 - y i))"
      by (simp add: sum_distrib_left sum_subtractf [symmetric] algebra_simps)
    finally show ?thesis
      using j j0 Suc.prems(7) \<open>x j0 \<noteq> x j\<close> by simp
  qed
  then have "\<forall>i\<in>I - {i0}. w i = 0"
    using Suc.prems Suc.hyps(2) i0 j0
    by (intro Suc.hyps(1) [of "I - {i0}" "J - {j0}"]) (auto simp: inj_on_def)
  then have v: "v i = 0" if "i \<in> I - {i0}" for i
    using that i0 j0 Suc.prems(5,6) by (auto simp: w_def inj_on_def)
  have "(\<Sum>i\<in>I. v i / (x j0 - y i)) = v i0 / (x j0 - y i0)"
    using i0 Suc.prems(1) v by (simp add: sum.remove [of I i0])
  then have "v i0 = 0"
    using Suc.prems(6,7) i0 j0 by simp
  with v show ?case by blast
qed

end
