(* ===== verification/ReedSolomon.thy ===== *)
theory ReedSolomon
  imports Kernels Cauchy "HOL-Library.Multiset"
begin

text \<open>
  The Reed-Solomon codec of \<open>crates/remanence-parity/src/codec.rs\<close>: the Cauchy generator, batch
  and incremental encoding, Gauss-Jordan inversion and reconstruction of missing shards. A
  shard is a byte list, a stripe the list of its \<open>k\<close> data shards followed by its \<open>m\<close> parity
  shards, and a missing shard is \<open>None\<close>. Operations that reach a multiply-add kernel return
  \<open>failure + 'a\<close>, where \<open>Inl (Panic _)\<close> stands for a failed assertion or an index out of bounds
  and \<open>Inl (Error e)\<close> for the returned error; the theorems show that no panic is reached.
\<close>

section \<open>The code\<close>

record ReedSolomonCodec =
  codec_k :: nat
  codec_m :: nat
  codec_generator :: "bytes list"

definition u8_try_from :: "nat \<Rightarrow> u8 option" where
  "u8_try_from n = (if n < 256 then Some (word_of_nat n) else None)"

definition nth_or_panic :: "'a list \<Rightarrow> nat \<Rightarrow> failure + 'a" where
  "nth_or_panic xs i = (if i < length xs then Inr (xs ! i) else Inl (Panic ''index out of bounds''))"

definition cauchy_generator :: "nat \<Rightarrow> nat \<Rightarrow> bytes list parity_result" where
  "cauchy_generator k m =
     (let width = k + m
      in if int width > 18446744073709551615
         then Inl (Invariant ''Cauchy generator width overflows'')
         else if width > 255
         then Inl (InvalidScheme ''k + m = {width} > 255 - GF(2^8) RS limit'')
         else try_map (\<lambda>parity_index.
                rbind (ok_or (Invariant ''Cauchy X seed exceeds u8'')
                        (u8_try_from (k + parity_index)))
                  (\<lambda>x. try_map (\<lambda>data_index.
                         rbind (ok_or (Invariant ''Cauchy Y seed exceeds u8'')
                                 (u8_try_from data_index))
                           (\<lambda>y. gf_inv (x XOR y)))
                       [0..<k]))
              [0..<m])"

definition ReedSolomonCodec_new :: "ParityScheme \<Rightarrow> ReedSolomonCodec parity_result" where
  "ReedSolomonCodec_new scheme =
     rbind (ParityScheme_validate scheme)
       (\<lambda>_. let k = unat (data_blocks_per_stripe scheme);
                m = unat (parity_blocks_per_stripe scheme)
            in rbind (cauchy_generator k m)
                 (\<lambda>generator. Inr \<lparr>codec_k = k, codec_m = m, codec_generator = generator\<rparr>))"

definition gf_mul_slice_xor ::
  "mul_slice_xor \<Rightarrow> KernelKind \<Rightarrow> u8 \<Rightarrow> bytes \<Rightarrow> bytes \<Rightarrow> failure + bytes" where
  "gf_mul_slice_xor msx kind coefficient input output =
     Kernel_apply msx kind coefficient input output"

definition new_parity_accumulators :: "ReedSolomonCodec \<Rightarrow> nat \<Rightarrow> bytes list" where
  "new_parity_accumulators c block_size = replicate (codec_m c) (replicate block_size 0)"

definition accumulate :: "mul_slice_xor \<Rightarrow> KernelKind \<Rightarrow> ReedSolomonCodec \<Rightarrow>
    nat \<Rightarrow> bytes \<Rightarrow> bytes list \<Rightarrow> failure + bytes list" where
  "accumulate msx kind c data_index shard parity =
     (if data_index \<ge> codec_k c
      then Inl (Error (Invariant ''accumulate: data_index outside 0..k''))
      else if length parity \<noteq> codec_m c
      then Inl (Error (Invariant ''accumulate: parity accumulator count != m''))
      else if list_ex (\<lambda>p. length p \<noteq> length shard) parity
      then Inl (Error (Invariant ''accumulate: accumulator block size mismatch''))
      else try_map (\<lambda>(parity_index, out).
             rbind (nth_or_panic (codec_generator c) parity_index)
               (\<lambda>row. rbind (nth_or_panic row data_index)
                 (\<lambda>coefficient. gf_mul_slice_xor msx kind coefficient shard out)))
           (enumerate 0 parity))"

definition encode :: "mul_slice_xor \<Rightarrow> KernelKind \<Rightarrow> ReedSolomonCodec \<Rightarrow> bytes list \<Rightarrow>
    failure + bytes list" where
  "encode msx kind c data =
     (if length data \<noteq> codec_k c
      then Inl (Error (Invariant ''encode: data row count != k (stripe accounting bug)''))
      else
        let block_size = (case data of b # _ \<Rightarrow> length b | [] \<Rightarrow> 0)
        in if list_ex (\<lambda>b. length b \<noteq> block_size) data
           then Inl (Error (Invariant ''encode: data blocks have heterogeneous sizes''))
           else try_fold (\<lambda>parity (data_index, shard).
                   accumulate msx kind c data_index shard parity)
                 (new_parity_accumulators c block_size) (enumerate 0 data))"

fun shard_len_loop :: "nat option \<Rightarrow> bytes option list \<Rightarrow> nat option parity_result" where
  "shard_len_loop len [] = Inr len"
| "shard_len_loop len (None # shards) = shard_len_loop len shards"
| "shard_len_loop len (Some shard # shards) =
     (if shard = [] then Inl (ReedSolomon EmptyShard)
      else case len of
             Some expected \<Rightarrow>
               if length shard \<noteq> expected then Inl (ReedSolomon IncorrectShardSize)
               else shard_len_loop len shards
           | None \<Rightarrow> shard_len_loop (Some (length shard)) shards)"

definition shard_len :: "bytes option list \<Rightarrow> nat option parity_result" where
  "shard_len shards = shard_len_loop None shards"

definition systematic_row :: "ReedSolomonCodec \<Rightarrow> nat \<Rightarrow> bytes parity_result" where
  "systematic_row c shard_index =
     (if shard_index < codec_k c
      then Inr ((replicate (codec_k c) 0)[shard_index := 1])
      else rbind (ok_or (Invariant ''systematic row underflow'')
                   (if codec_k c \<le> shard_index then Some (shard_index - codec_k c) else None))
        (\<lambda>parity_index.
          ok_or (Invariant ''systematic parity row outside 0..m'')
            (if parity_index < length (codec_generator c)
             then Some (codec_generator c ! parity_index) else None)))"

text \<open>One column of the Gauss-Jordan elimination: pivot search, row swap, scaling of the pivot
  row, and elimination from every other row.\<close>

definition swap_rows :: "'a list \<Rightarrow> nat \<Rightarrow> nat \<Rightarrow> 'a list" where
  "swap_rows xs i j = xs[i := xs ! j, j := xs ! i]"

definition add_multiple :: "u8 \<Rightarrow> bytes \<Rightarrow> bytes \<Rightarrow> bytes" where
  "add_multiple factor pivot_row row = map2 (\<lambda>v p. v XOR gf_mul factor p) row pivot_row"

definition eliminate_row ::
  "nat \<Rightarrow> bytes list \<times> bytes list \<Rightarrow> nat \<Rightarrow> bytes list \<times> bytes list" where
  "eliminate_row col = (\<lambda>(matrix, inverse) row.
     if row = col then (matrix, inverse)
     else
       let factor = matrix ! row ! col
       in if factor = 0 then (matrix, inverse)
          else (matrix[row := add_multiple factor (matrix ! col) (matrix ! row)],
                inverse[row := add_multiple factor (inverse ! col) (inverse ! row)]))"

definition gauss_step ::
  "nat \<Rightarrow> bytes list \<times> bytes list \<Rightarrow> nat \<Rightarrow> (bytes list \<times> bytes list) parity_result" where
  "gauss_step n = (\<lambda>(matrix, inverse) col.
     rbind (ok_or (Invariant ''Cauchy decode matrix is singular'')
             (List.find (\<lambda>row. matrix ! row ! col \<noteq> 0) [col..<n]))
       (\<lambda>pivot.
         let (matrix, inverse) =
               (if pivot \<noteq> col
                then (swap_rows matrix pivot col, swap_rows inverse pivot col)
                else (matrix, inverse))
         in rbind (gf_inv (matrix ! col ! col))
              (\<lambda>pivot_inv.
                let matrix = matrix[col := map (\<lambda>v. gf_mul v pivot_inv) (matrix ! col)];
                    inverse = inverse[col := map (\<lambda>v. gf_mul v pivot_inv) (inverse ! col)]
                in Inr (foldl (eliminate_row col) (matrix, inverse) [0..<n]))))"

definition identity_matrix :: "nat \<Rightarrow> bytes list" where
  "identity_matrix n = map (\<lambda>i. (replicate n 0)[i := 1]) [0..<n]"

definition invert_matrix :: "bytes list \<Rightarrow> bytes list parity_result" where
  "invert_matrix matrix =
     (let n = length matrix
      in if list_ex (\<lambda>row. length row \<noteq> n) matrix
         then Inl (Invariant ''decode matrix is not square'')
         else rbind (try_fold (gauss_step n) (matrix, identity_matrix n) [0..<n])
                (\<lambda>(matrix, inverse). Inr inverse))"

text \<open>The first \<open>k\<close> shards that are present, with their indices.\<close>

fun collect_survivors ::
  "nat \<Rightarrow> (nat \<times> bytes) list \<Rightarrow> (nat \<times> bytes option) list \<Rightarrow> (nat \<times> bytes) list" where
  "collect_survivors k survivors [] = survivors"
| "collect_survivors k survivors ((index, None) # shards) = collect_survivors k survivors shards"
| "collect_survivors k survivors ((index, Some shard) # shards) =
     (let survivors = survivors @ [(index, shard)]
      in if length survivors = k then survivors else collect_survivors k survivors shards)"

definition fill_missing :: "nat \<Rightarrow> bytes option list \<Rightarrow> nat \<times> bytes \<Rightarrow> bytes option list" where
  "fill_missing base shards = (\<lambda>(index, shard).
     if shards ! (base + index) = None then shards[base + index := Some shard] else shards)"

definition reconstruct :: "mul_slice_xor \<Rightarrow> KernelKind \<Rightarrow> ReedSolomonCodec \<Rightarrow>
    bytes option list \<Rightarrow> failure + bytes option list" where
  "reconstruct msx kind c shards =
     (if length shards \<noteq> codec_k c + codec_m c
      then Inl (Error (Invariant ''reconstruct: shard count != k + m''))
      else rbind (map_err Error (rbind (shard_len shards)
                    (\<lambda>len. ok_or (ReedSolomon TooFewShardsPresent) len)))
        (\<lambda>shard_len.
          if list_all (\<lambda>s. s \<noteq> None) shards then Inr shards
          else
            let survivors = collect_survivors (codec_k c) [] (enumerate 0 shards);
                survivor_indices = map fst survivors;
                survivor_shards = map snd survivors
            in if length survivor_indices < codec_k c
               then Inl (Error (ReedSolomon TooFewShardsPresent))
               else
                 rbind (map_err Error (rbind (try_map (systematic_row c) survivor_indices)
                          invert_matrix))
                   (\<lambda>decode_matrix.
                     rbind (try_map (\<lambda>data_index.
                              try_fold (\<lambda>out survivor_index.
                                  gf_mul_slice_xor msx kind
                                    (decode_matrix ! data_index ! survivor_index)
                                    (survivor_shards ! survivor_index) out)
                                (replicate shard_len 0) [0..<codec_k c])
                            [0..<codec_k c])
                       (\<lambda>data.
                         let shards = foldl (fill_missing 0) shards (enumerate 0 data)
                         in if list_ex (\<lambda>s. s = None) (drop (codec_k c) shards)
                            then rbind (encode msx kind c data)
                                   (\<lambda>parity. Inr (foldl (fill_missing (codec_k c)) shards
                                      (enumerate 0 parity)))
                            else Inr shards))))"

section \<open>Matrices over the field\<close>

text \<open>The field entry of a byte matrix, and the shape of a byte matrix.\<close>

abbreviation mat :: "bytes list \<Rightarrow> nat \<Rightarrow> nat \<Rightarrow> gf" where
  "mat M i j \<equiv> gf_of (M ! i ! j)"

definition is_mat :: "nat \<Rightarrow> nat \<Rightarrow> bytes list \<Rightarrow> bool" where
  "is_mat r c M \<longleftrightarrow> length M = r \<and> (\<forall>i < r. length (M ! i) = c)"

lemma is_matI: "length M = r \<Longrightarrow> (\<And>i. i < r \<Longrightarrow> length (M ! i) = c) \<Longrightarrow> is_mat r c M"
  by (simp add: is_mat_def)

lemma is_mat_simps: "is_mat r c M \<Longrightarrow> length M = r" "is_mat r c M \<Longrightarrow> i < r \<Longrightarrow> length (M ! i) = c"
  by (simp_all add: is_mat_def)

lemma gf_of_eq_0: "gf_of a = 0 \<longleftrightarrow> a = 0"
  by (metis gf_of_eq gf_of_simps(1))

subsection \<open>One elimination step, entry by entry\<close>

text \<open>Row \<open>i\<close> after a step: the pivot row scaled by \<open>iv\<close>, or the swapped row plus the multiple
  of it that clears the column.\<close>

definition swapped :: "nat \<Rightarrow> nat \<Rightarrow> nat \<Rightarrow> nat" where
  "swapped col p i = (if i = col then p else if i = p then col else i)"

definition step_entry ::
  "(nat \<Rightarrow> nat \<Rightarrow> gf) \<Rightarrow> (nat \<Rightarrow> gf) \<Rightarrow> nat \<Rightarrow> nat \<Rightarrow> gf \<Rightarrow> nat \<Rightarrow> nat \<Rightarrow> gf" where
  "step_entry A f col p iv i j =
     (if i = col then iv * A p j
      else A (swapped col p i) j + f (swapped col p i) * (iv * A p j))"

lemma add_multiple_nth: "j < length row \<Longrightarrow> j < length pivot \<Longrightarrow>
    gf_of (add_multiple f pivot row ! j) = gf_of (row ! j) + gf_of f * gf_of (pivot ! j)"
  by (simp add: add_multiple_def gf_of_simps)

lemma length_add_multiple [simp]:
  "length (add_multiple f pivot row) = min (length row) (length pivot)"
  by (simp add: add_multiple_def)

lemma foldl_eliminate:
  assumes "is_mat n n A" "is_mat n n B" "col < n" "r \<le> n"
  shows "foldl (eliminate_row col) (A, B) [0..<r] =
    (map (\<lambda>i. if i \<noteq> col \<and> i < r \<and> A ! i ! col \<noteq> 0 then add_multiple (A ! i ! col) (A ! col) (A ! i) else A ! i) [0..<n],
     map (\<lambda>i. if i \<noteq> col \<and> i < r \<and> A ! i ! col \<noteq> 0 then add_multiple (A ! i ! col) (B ! col) (B ! i) else B ! i) [0..<n])"
  using assms(4)
proof (induction r)
  case 0
  then show ?case
    using assms map_nth [of A] map_nth [of B] by (simp add: is_mat_def)
next
  case (Suc r)
  then show ?case
    using assms
    by (auto simp: eliminate_row_def Let_def intro!: nth_equalityI simp: nth_list_update less_Suc_eq)
qed

lemma swap_rows_nth: "i < length xs \<Longrightarrow> p < length xs \<Longrightarrow> col < length xs \<Longrightarrow>
    swap_rows xs p col ! i = xs ! swapped col p i"
  by (auto simp: swap_rows_def swapped_def nth_list_update)

lemma swapped_less: "col < n \<Longrightarrow> p < n \<Longrightarrow> i < n \<Longrightarrow> swapped col p i < n"
  by (simp add: swapped_def)

lemma swapped_id [simp]: "swapped col col i = i"
  by (simp add: swapped_def)

lemma gauss_step_Inr:
  assumes A: "is_mat n n A" and B: "is_mat n n B" and col: "col < n"
    and step: "gauss_step n (A, B) col = Inr (A', B')"
  obtains p iv where "col \<le> p" "p < n" "iv * mat A p col = 1" "is_mat n n A'" "is_mat n n B'"
    "\<And>i j. i < n \<Longrightarrow> j < n \<Longrightarrow> mat A' i j = step_entry (mat A) (\<lambda>i. mat A i col) col p iv i j"
    "\<And>i j. i < n \<Longrightarrow> j < n \<Longrightarrow> mat B' i j = step_entry (mat B) (\<lambda>i. mat A i col) col p iv i j"
proof -
  from step obtain p where find: "List.find (\<lambda>row. A ! row ! col \<noteq> 0) [col..<n] = Some p"
    by (auto simp: gauss_step_def)
  then have p: "col \<le> p" "p < n" "A ! p ! col \<noteq> 0"
    by (auto simp: find_Some_iff)
  define A1 where "A1 = swap_rows A p col"
  define B1 where "B1 = swap_rows B p col"
  have id: "swap_rows M col col = M" for M :: "bytes list"
    by (simp add: swap_rows_def)
  have len: "length A = n" "length B = n"
    using A B by (simp_all add: is_mat_def)
  have A1: "i < n \<Longrightarrow> A1 ! i = A ! swapped col p i" and B1: "i < n \<Longrightarrow> B1 ! i = B ! swapped col p i" for i
    using p col len by (simp_all add: A1_def B1_def swap_rows_nth)
  have pc: "A1 ! col ! col = A ! p ! col"
    using col by (simp add: A1 swapped_def)
  obtain iv where iv: "gf_inv (A ! p ! col) = Inr iv" "gf_of iv * mat A p col = 1"
    using gf_inv_field [of "A ! p ! col"] p
    by (metis byte_of_inverse gf_of_eq_0 left_inverse)
  define A2 where "A2 = A1[col := map (\<lambda>v. gf_mul v iv) (A1 ! col)]"
  define B2 where "B2 = B1[col := map (\<lambda>v. gf_mul v iv) (B1 ! col)]"
  have shapes: "is_mat n n A2" "is_mat n n B2"
    using A B col p by (auto simp: is_mat_def A2_def B2_def A1_def B1_def swap_rows_nth swapped_less
        nth_list_update swap_rows_def)
  have "gauss_step n (A, B) col = Inr (foldl (eliminate_row col) (A2, B2) [0..<n])"
    using find iv pc by (auto simp: gauss_step_def A2_def B2_def A1_def B1_def id Let_def)
  then have AB': "(A', B') = foldl (eliminate_row col) (A2, B2) [0..<n]"
    using step by simp
  have A2: "i < n \<Longrightarrow> j < n \<Longrightarrow> mat A2 i j = (if i = col then gf_of iv * mat A p j else mat A (swapped col p i) j)"
    and B2: "i < n \<Longrightarrow> j < n \<Longrightarrow> mat B2 i j = (if i = col then gf_of iv * mat B p j else mat B (swapped col p i) j)" for i j
    using A B p col
    by (auto simp: A2_def B2_def nth_list_update A1_def B1_def swap_rows_nth is_mat_def swapped_def gf_of_simps)
      (auto simp: swap_rows_def gf_of_simps nth_list_update)
  have len2: "i < n \<Longrightarrow> length (A2 ! i) = n" "i < n \<Longrightarrow> length (B2 ! i) = n" for i
    using shapes by (simp_all add: is_mat_def)
  have A': "i < n \<Longrightarrow> j < n \<Longrightarrow> mat A' i j =
      (if i = col then mat A2 i j else mat A2 i j + mat A2 i col * mat A2 col j)"
    and B': "i < n \<Longrightarrow> j < n \<Longrightarrow> mat B' i j =
      (if i = col then mat B2 i j else mat B2 i j + mat A2 i col * mat B2 col j)" for i j
    using AB' foldl_eliminate [OF shapes col order_refl] col
    by (simp_all add: add_multiple_nth len2 gf_of_simps)
  have "is_mat n n A'" "is_mat n n B'"
    using AB' foldl_eliminate [OF shapes col order_refl] shapes col by (auto simp: is_mat_def)
  then show ?thesis
    using p iv(2) col
    by (intro that [of p "gf_of iv"]) (simp_all add: A' B' A2 B2 step_entry_def)
qed

subsection \<open>Inversion\<close>

definition kernel :: "nat \<Rightarrow> (nat \<Rightarrow> nat \<Rightarrow> gf) \<Rightarrow> (nat \<Rightarrow> gf) \<Rightarrow> bool" where
  "kernel n A v \<longleftrightarrow> (\<forall>i<n. (\<Sum>j<n. A i j * v j) = 0)"

definition nonsingular :: "nat \<Rightarrow> (nat \<Rightarrow> nat \<Rightarrow> gf) \<Rightarrow> bool" where
  "nonsingular n A \<longleftrightarrow> (\<forall>v. kernel n A v \<longrightarrow> (\<forall>j<n. v j = 0))"

lemma step_entry_sum:
  "(\<Sum>j<n. step_entry A f col p iv i j * v j) =
     step_entry (\<lambda>i _. \<Sum>j<n. A i j * v j) f col p iv i 0"
  by (simp add: step_entry_def sum_distrib_left sum.distrib algebra_simps)

lemma kernel_step:
  assumes "col < n" "p < n" "iv \<noteq> 0" and "kernel n (step_entry A f col p iv) v"
  shows "kernel n A v"
  unfolding kernel_def
proof (intro allI impI)
  let ?S = "\<lambda>i. \<Sum>j<n. A i j * v j"
  have step: "step_entry (\<lambda>i _. ?S i) f col p iv i 0 = 0" if "i < n" for i
    using assms(4) that by (simp add: kernel_def step_entry_sum)
  have p: "?S p = 0"
    using step [OF assms(1)] assms(3) by (simp add: step_entry_def)
  fix i assume "i < n"
  show "?S i = 0"
  proof (cases "i = p")
    case False
    then have "swapped col p i \<noteq> col" "swapped col p (swapped col p i) = i"
      by (auto simp: swapped_def)
    then show ?thesis
      using step [of "swapped col p i"] swapped_less [OF assms(1,2) \<open>i < n\<close>] p
      by (simp add: step_entry_def)
  qed (simp add: p)
qed

lemma unit_columns_step:
  assumes "\<And>i j. i < n \<Longrightarrow> j < col \<Longrightarrow> A i j = of_bool (i = j)"
    and "col \<le> p" "p < n" "iv * A p col = 1" "i < n" "j \<le> col"
  shows "step_entry A (\<lambda>i. A i col) col p iv i j = of_bool (i = j)"
proof (cases "j = col")
  case True
  then show ?thesis using assms(4) by (simp add: step_entry_def)
next
  case False
  then have "j < col" using assms by simp
  then have "A p j = 0" "A (swapped col p i) j = of_bool (i = j)" if "i \<noteq> col"
    using assms that by (auto simp: swapped_def)
  then show ?thesis
    using assms \<open>j < col\<close> by (auto simp: step_entry_def)
qed

lemma product_step:
  assumes "\<And>i j. i < n \<Longrightarrow> j < n \<Longrightarrow> (\<Sum>l<n. B i l * M l j) = A i j"
    and "col < n" "p < n" "i < n" "j < n"
  shows "(\<Sum>l<n. step_entry B f col p iv i l * M l j) = step_entry A f col p iv i j"
  using assms by (simp add: step_entry_sum) (simp add: step_entry_def swapped_def)

text \<open>No pivot in a column means that the columns up to it are dependent.\<close>

lemma no_pivot_singular:
  assumes "\<And>i j. i < n \<Longrightarrow> j < col \<Longrightarrow> A i j = of_bool (i = j)"
    and "col < n" and "\<And>i. col \<le> i \<Longrightarrow> i < n \<Longrightarrow> A i col = 0"
  shows "\<exists>v. kernel n A v \<and> v col \<noteq> 0"
proof (intro exI conjI)
  let ?v = "\<lambda>j. if j < col then A j col else if j = col then 1 else 0"
  show "kernel n A ?v"
    unfolding kernel_def
  proof (intro allI impI)
    fix i assume i: "i < n"
    have "(\<Sum>j<n. A i j * ?v j) = (\<Sum>j\<in>{..<col} \<union> {col}. A i j * ?v j)"
      using assms(2) by (intro sum.mono_neutral_right) auto
    also have "\<dots> = (\<Sum>j<col. of_bool (i = j) * A j col) + A i col"
      using assms(1) [OF i] by (subst sum.union_disjoint) (auto intro!: sum.cong)
    also have "(\<Sum>j<col. of_bool (i = j) * A j col) = (if i < col then A i col else 0)"
      by (auto simp: of_bool_def if_distrib [of "\<lambda>x. x * _"] sum.delta cong: if_cong)
    finally show "(\<Sum>j<n. A i j * ?v j) = 0"
      using assms(3) i by (cases "i < col") auto
  qed
qed simp

definition gauss_inv :: "nat \<Rightarrow> bytes list \<Rightarrow> nat \<Rightarrow> bytes list \<Rightarrow> bytes list \<Rightarrow> bool" where
  "gauss_inv n M c A B \<longleftrightarrow> is_mat n n A \<and> is_mat n n B \<and>
     (\<forall>i<n. \<forall>j<n. (\<Sum>l<n. mat B i l * mat M l j) = mat A i j) \<and>
     (\<forall>i<n. \<forall>j<c. mat A i j = of_bool (i = j)) \<and>
     (\<forall>v. kernel n (mat A) v \<longrightarrow> kernel n (mat M) v)"

lemma mat_identity: "i < n \<Longrightarrow> j < n \<Longrightarrow> mat (identity_matrix n) i j = of_bool (i = j)"
  by (simp add: identity_matrix_def nth_list_update gf_of_simps)

lemma is_mat_identity: "is_mat n n (identity_matrix n)"
  by (simp add: is_mat_def identity_matrix_def)

lemma sum_of_bool_mult: "i < n \<Longrightarrow> (\<Sum>l<n. of_bool (i = l) * f l) = (f i :: gf)" for n :: nat
proof -
  assume "i < n"
  have "(\<Sum>l<n. of_bool (i = l) * f l) = (\<Sum>l<n. if i = l then f l else 0)"
    by (intro sum.cong) auto
  then show ?thesis using \<open>i < n\<close> by simp
qed

lemma gauss_inv_init: "is_mat n n M \<Longrightarrow> gauss_inv n M 0 M (identity_matrix n)"
  by (simp add: gauss_inv_def is_mat_identity mat_identity sum_of_bool_mult)

lemma gauss_inv_step:
  assumes inv: "gauss_inv n M c A B" and c: "c < n" and step: "gauss_step n (A, B) c = Inr (A', B')"
  shows "gauss_inv n M (Suc c) A' B'"
proof -
  have shapes: "is_mat n n A" "is_mat n n B"
    using inv by (simp_all add: gauss_inv_def)
  from gauss_step_Inr [OF shapes c step] obtain p iv where p: "c \<le> p" "p < n" "iv * mat A p c = 1"
    and shapes': "is_mat n n A'" "is_mat n n B'"
    and A': "\<And>i j. i < n \<Longrightarrow> j < n \<Longrightarrow> mat A' i j = step_entry (mat A) (\<lambda>i. mat A i c) c p iv i j"
    and B': "\<And>i j. i < n \<Longrightarrow> j < n \<Longrightarrow> mat B' i j = step_entry (mat B) (\<lambda>i. mat A i c) c p iv i j"
    by blast
  have "(\<Sum>l<n. mat B' i l * mat M l j) = mat A' i j" if "i < n" "j < n" for i j
  proof -
    have "(\<Sum>l<n. mat B' i l * mat M l j) =
        (\<Sum>l<n. step_entry (mat B) (\<lambda>i. mat A i c) c p iv i l * mat M l j)"
      using that by (intro sum.cong) (simp_all add: B')
    also have "\<dots> = step_entry (mat A) (\<lambda>i. mat A i c) c p iv i j"
      using inv p(2) c that by (intro product_step) (simp_all add: gauss_inv_def)
    finally show ?thesis using that by (simp add: A')
  qed
  moreover have "mat A' i j = of_bool (i = j)" if "i < n" "j < Suc c" for i j
    using that c inv p unit_columns_step [of n c "mat A" p iv i j]
    by (simp add: A' gauss_inv_def)
  moreover have "kernel n (mat M) v" if "kernel n (mat A') v" for v
  proof -
    have "kernel n (step_entry (mat A) (\<lambda>i. mat A i c) c p iv) v"
      unfolding kernel_def
    proof (intro allI impI)
      fix i assume "i < n"
      then have "(\<Sum>j<n. step_entry (mat A) (\<lambda>i. mat A i c) c p iv i j * v j) =
          (\<Sum>j<n. mat A' i j * v j)"
        by (intro sum.cong) (simp_all add: A')
      then show "(\<Sum>j<n. step_entry (mat A) (\<lambda>i. mat A i c) c p iv i j * v j) = 0"
        using that \<open>i < n\<close> by (simp add: kernel_def)
    qed
    moreover have "iv \<noteq> 0" using p(3) by auto
    ultimately have "kernel n (mat A) v"
      using kernel_step [OF c p(2)] by blast
    then show ?thesis using inv by (simp add: gauss_inv_def)
  qed
  ultimately show ?thesis
    using shapes' by (simp add: gauss_inv_def)
qed

lemma gauss_progress:
  assumes inv: "gauss_inv n M c A B" and c: "c < n" and ns: "nonsingular n (mat M)"
  obtains A' B' where "gauss_step n (A, B) c = Inr (A', B')"
proof (cases "List.find (\<lambda>row. A ! row ! c \<noteq> 0) [c..<n]")
  case None
  then have "mat A i c = 0" if "c \<le> i" "i < n" for i
    using that by (auto simp: find_None_iff gf_of_eq_0)
  then obtain v where "kernel n (mat A) v" "v c \<noteq> 0"
    using no_pivot_singular [of n c "mat A"] inv c by (auto simp: gauss_inv_def)
  then show ?thesis
    using inv ns c by (auto simp: gauss_inv_def nonsingular_def)
next
  case (Some p)
  then have p: "c \<le> p" "p < n" "A ! p ! c \<noteq> 0"
    by (auto simp: find_Some_iff)
  have "swap_rows A p c ! c ! c = A ! p ! c"
    using p c inv by (simp add: gauss_inv_def is_mat_def swap_rows_nth swapped_def)
  then have "\<exists>st. gauss_step n (A, B) c = Inr st"
    using Some p(3) by (cases "p = c") (simp_all add: gauss_step_def gf_inv_def Let_def)
  then show ?thesis
    using that by force
qed

lemma gauss_run:
  assumes "is_mat n n M" "nonsingular n (mat M)" "c \<le> n"
  shows "\<exists>A B. try_fold (gauss_step n) (M, identity_matrix n) [0..<c] = Inr (A, B) \<and>
    gauss_inv n M c A B"
  using assms(3)
proof (induction c)
  case 0
  then show ?case using gauss_inv_init [OF assms(1)] by simp
next
  case (Suc c)
  then obtain A B where AB: "try_fold (gauss_step n) (M, identity_matrix n) [0..<c] = Inr (A, B)"
    "gauss_inv n M c A B" by auto
  moreover obtain A' B' where "gauss_step n (A, B) c = Inr (A', B')"
    using gauss_progress [OF AB(2) _ assms(2)] Suc.prems by auto
  ultimately show ?case
    using gauss_inv_step [OF AB(2)] Suc.prems by (auto simp: try_fold_append)
qed

lemma invert_matrix_correct:
  assumes "is_mat n n M" "nonsingular n (mat M)"
  obtains V where "invert_matrix M = Inr V" "is_mat n n V"
    "\<And>i j. i < n \<Longrightarrow> j < n \<Longrightarrow> (\<Sum>l<n. mat V i l * mat M l j) = of_bool (i = j)"
proof -
  obtain A B where run: "try_fold (gauss_step n) (M, identity_matrix n) [0..<n] = Inr (A, B)"
    and inv: "gauss_inv n M n A B"
    using gauss_run [OF assms order_refl] by blast
  have "\<not> list_ex (\<lambda>row. length row \<noteq> n) M" "length M = n"
    using assms(1) by (auto simp: is_mat_def list_ex_iff in_set_conv_nth)
  then have "invert_matrix M = Inr B"
    using run by (simp add: invert_matrix_def)
  then show ?thesis
    using that inv by (simp add: gauss_inv_def)
qed

section \<open>The generator\<close>

definition seed :: "nat \<Rightarrow> gf" where
  "seed n = gf_of (word_of_nat n)"

lemma seed_inj: "a < 256 \<Longrightarrow> b < 256 \<Longrightarrow> seed a = seed b \<longleftrightarrow> a = b"
  by (simp add: seed_def word_of_nat_eq_iff take_bit_nat_eq_self)

definition codec_wf :: "ReedSolomonCodec \<Rightarrow> bool" where
  "codec_wf c \<longleftrightarrow> is_mat (codec_m c) (codec_k c) (codec_generator c) \<and>
     codec_k c + codec_m c \<le> 255 \<and>
     (\<forall>j<codec_m c. \<forall>i<codec_k c.
        mat (codec_generator c) j i = 1 / (seed (codec_k c + j) - seed i))"

lemma cauchy_generator_eq:
  assumes "k + m \<le> 255"
  shows "cauchy_generator k m =
    Inr (map (\<lambda>j. map (\<lambda>i. byte_of (inverse (seed (k + j) - seed i))) [0..<k]) [0..<m])"
proof -
  have entry: "rbind (ok_or e (u8_try_from (k + j))) (\<lambda>x. try_map (\<lambda>i.
        rbind (ok_or e' (u8_try_from i)) (\<lambda>y. gf_inv (x XOR y))) [0..<k]) =
      Inr (map (\<lambda>i. byte_of (inverse (seed (k + j) - seed i))) [0..<k])" if j: "j < m" for e e' j
  proof -
    have inv: "gf_inv (word_of_nat (k + j) XOR word_of_nat i) =
        Inr (byte_of (inverse (seed (k + j) - seed i)))" if i: "i < k" for i
    proof -
      have "seed (k + j) - seed i = gf_of (word_of_nat (k + j) XOR word_of_nat i)"
        by (simp only: seed_def gf_of_simps diff_conv_add_uminus gf_minus)
      moreover have "seed (k + j) - seed i \<noteq> 0"
        using assms i j by (simp add: seed_inj)
      ultimately show ?thesis
        by (simp add: gf_inv_field gf_of_eq_0)
    qed
    show ?thesis
      using assms j
      by (simp add: u8_try_from_def del: of_nat_add)
        (auto intro!: try_map_Inr simp: inv simp del: of_nat_add)
  qed
  show ?thesis
    using assms by (simp add: cauchy_generator_def Let_def del: of_nat_add)
      (auto intro!: try_map_Inr simp: entry simp del: of_nat_add)
qed

lemma ReedSolomonCodec_new_Inr:
  assumes "ParityScheme_validate s = Inr s"
  obtains c where "ReedSolomonCodec_new s = Inr c" "codec_wf c"
    "codec_k c = nK s" "codec_m c = nM s"
proof -
  have km: "nK s + nM s \<le> 255" using assms by (simp add: validate_Inr)
  define c where "c = \<lparr>codec_k = nK s, codec_m = nM s, codec_generator =
    map (\<lambda>j. map (\<lambda>i. byte_of (inverse (seed (nK s + j) - seed i))) [0..<nK s]) [0..<nM s]\<rparr>"
  have "ReedSolomonCodec_new s = Inr c"
    using assms km by (simp add: ReedSolomonCodec_new_def cauchy_generator_eq c_def Let_def)
  moreover have "codec_wf c"
    using km by (simp add: codec_wf_def c_def is_mat_def byte_of_inverse inverse_eq_divide)
  ultimately show ?thesis
    using that by (simp add: c_def)
qed

lemma ReedSolomonCodec_new_dest:
  assumes "ReedSolomonCodec_new s = Inr c"
  shows "codec_wf c" "codec_k c = nK s" "codec_m c = nM s" "2 \<le> nK s" "1 \<le> nM s"
proof -
  have v: "ParityScheme_validate s = Inr s"
    using assms by (auto simp: ReedSolomonCodec_new_def validate_Inr)
  with assms show "codec_wf c" "codec_k c = nK s" "codec_m c = nM s"
    using ReedSolomonCodec_new_Inr [OF v] by auto
  from v show "2 \<le> nK s" "1 \<le> nM s" by (simp_all add: validate_Inr)
qed

section \<open>Encoding\<close>

lemma blocks_eqI: "is_mat n L xs \<Longrightarrow> is_mat n L ys \<Longrightarrow>
    (\<And>i t. i < n \<Longrightarrow> t < L \<Longrightarrow> mat xs i t = mat ys i t) \<Longrightarrow> xs = ys"
  by (auto simp: is_mat_def intro!: nth_equalityI)

lemma mul_add_nth: "t < length out \<Longrightarrow> length shard = length out \<Longrightarrow>
    gf_of (mul_add a shard out ! t) = gf_of (out ! t) + gf_of a * gf_of (shard ! t)"
  by (simp add: mul_add_def gf_of_simps)

lemma accumulate_Inr:
  assumes "mul_slice_xor_spec msx" "codec_wf c" "i < codec_k c" "length shard = L"
    and P: "is_mat (codec_m c) L P"
  shows "accumulate msx kind c i shard P =
    Inr (map (\<lambda>j. mul_add (codec_generator c ! j ! i) shard (P ! j)) [0..<codec_m c])"
proof -
  have len: "length P = codec_m c" "\<And>j. j < codec_m c \<Longrightarrow> length (P ! j) = L"
    using P by (simp_all add: is_mat_def)
  then have ok: "\<not> list_ex (\<lambda>p. length p \<noteq> length shard) P"
    using assms(4) by (auto simp: list_ex_iff in_set_conv_nth)
  have gen: "length (codec_generator c) = codec_m c"
    "\<And>j. j < codec_m c \<Longrightarrow> length (codec_generator c ! j) = codec_k c"
    using assms(2) by (simp_all add: codec_wf_def is_mat_def)
  have "try_map (\<lambda>(j, out). rbind (nth_or_panic (codec_generator c) j)
      (\<lambda>row. rbind (nth_or_panic row i) (\<lambda>a. gf_mul_slice_xor msx kind a shard out)))
      (enumerate 0 P) =
    Inr (map (\<lambda>(j, out). mul_add (codec_generator c ! j ! i) shard out) (enumerate 0 P))"
  proof (rule try_map_Inr)
    fix x assume "x \<in> set (enumerate 0 P)"
    then obtain j where "x = (j, P ! j)" "j < codec_m c"
      using len by (auto simp: in_set_conv_nth nth_enumerate_eq)
    then show "(case x of (j, out) \<Rightarrow> rbind (nth_or_panic (codec_generator c) j)
        (\<lambda>row. rbind (nth_or_panic row i) (\<lambda>a. gf_mul_slice_xor msx kind a shard out))) =
      Inr (case x of (j, out) \<Rightarrow> mul_add (codec_generator c ! j ! i) shard out)"
      using assms len gen by (simp add: nth_or_panic_def gf_mul_slice_xor_def Kernel_apply_mul_add)
  qed
  moreover have "map (\<lambda>(j, out). mul_add (codec_generator c ! j ! i) shard out) (enumerate 0 P) =
      map (\<lambda>j. mul_add (codec_generator c ! j ! i) shard (P ! j)) [0..<codec_m c]"
    using len by (auto intro!: nth_equalityI simp: nth_enumerate_eq)
  ultimately show ?thesis
    using assms(3) len ok by (simp add: accumulate_def)
qed

text \<open>The parity that a sequence of indexed shards adds to position \<open>t\<close> of parity row \<open>j\<close>.\<close>

definition contribution :: "ReedSolomonCodec \<Rightarrow> (nat \<times> bytes) list \<Rightarrow> nat \<Rightarrow> nat \<Rightarrow> gf" where
  "contribution c xs j t = (\<Sum>(i, s)\<leftarrow>xs. mat (codec_generator c) j i * gf_of (s ! t))"

definition accumulate_all :: "mul_slice_xor \<Rightarrow> KernelKind \<Rightarrow> ReedSolomonCodec \<Rightarrow>
    bytes list \<Rightarrow> (nat \<times> bytes) list \<Rightarrow> failure + bytes list" where
  "accumulate_all msx kind c P xs =
     try_fold (\<lambda>parity (data_index, shard). accumulate msx kind c data_index shard parity) P xs"

lemma accumulate_all_Inr:
  assumes "mul_slice_xor_spec msx" "codec_wf c"
    and "\<And>i s. (i, s) \<in> set xs \<Longrightarrow> i < codec_k c \<and> length s = L" "is_mat (codec_m c) L P"
  shows "\<exists>Q. accumulate_all msx kind c P xs = Inr Q \<and> is_mat (codec_m c) L Q \<and>
    (\<forall>j<codec_m c. \<forall>t<L. mat Q j t = mat P j t + contribution c xs j t)"
  using assms(3,4)
proof (induction xs arbitrary: P)
  case Nil
  then show ?case by (simp add: accumulate_all_def contribution_def)
next
  case (Cons x xs)
  obtain i s where x: "x = (i, s)" by (cases x)
  then have i: "i < codec_k c" and s: "length s = L"
    using Cons.prems(1) by auto
  define P' where
    "P' = map (\<lambda>j. mul_add (codec_generator c ! j ! i) s (P ! j)) [0..<codec_m c]"
  have P: "accumulate msx kind c i s P = Inr P'"
    unfolding P'_def by (rule accumulate_Inr [OF assms(1,2) i s Cons.prems(2)])
  have P': "is_mat (codec_m c) L P'"
    and P'_val: "\<And>j t. j < codec_m c \<Longrightarrow> t < L \<Longrightarrow>
      mat P' j t = mat P j t + mat (codec_generator c) j i * gf_of (s ! t)"
    using Cons.prems(2) s by (simp_all add: is_mat_def P'_def mul_add_nth)
  obtain Q where Q: "accumulate_all msx kind c P' xs = Inr Q" "is_mat (codec_m c) L Q"
    "\<forall>j<codec_m c. \<forall>t<L. mat Q j t = mat P' j t + contribution c xs j t"
    using Cons.IH [of P'] Cons.prems(1) P' by auto
  moreover have "accumulate_all msx kind c P (x # xs) = Inr Q"
    using Q(1) P by (simp add: accumulate_all_def x)
  ultimately show ?case
    by (intro exI [of _ Q]) (simp add: P'_val contribution_def x add.assoc)
qed

lemma encode_Inr:
  assumes "mul_slice_xor_spec msx" "codec_wf c" "is_mat (codec_k c) L data" "0 < codec_k c"
  shows "\<exists>Q. encode msx kind c data = Inr Q \<and> is_mat (codec_m c) L Q \<and>
     (\<forall>j<codec_m c. \<forall>t<L.
        mat Q j t = (\<Sum>i<codec_k c. mat (codec_generator c) j i * mat data i t))"
    and "encode msx kind c data =
      accumulate_all msx kind c (new_parity_accumulators c L) (enumerate 0 data)"
proof -
  have len: "length data = codec_k c" "\<And>i. i < codec_k c \<Longrightarrow> length (data ! i) = L"
    using assms(3) by (simp_all add: is_mat_def)
  have zero: "is_mat (codec_m c) L (new_parity_accumulators c L)"
    by (simp add: is_mat_def new_parity_accumulators_def)
  have mem: "i < codec_k c \<and> length s = L" if "(i, s) \<in> set (enumerate 0 data)" for i s
    using that len by (auto simp: in_set_conv_nth nth_enumerate_eq)
  obtain Q where Q: "accumulate_all msx kind c (new_parity_accumulators c L) (enumerate 0 data) = Inr Q"
    "is_mat (codec_m c) L Q" "\<forall>j<codec_m c. \<forall>t<L.
       mat Q j t = mat (new_parity_accumulators c L) j t + contribution c (enumerate 0 data) j t"
    using accumulate_all_Inr [OF assms(1,2) mem zero] by blast
  have "contribution c (enumerate 0 data) j t =
      (\<Sum>i<codec_k c. mat (codec_generator c) j i * mat data i t)" for j t
    using len(1)
    by (simp add: contribution_def sum_list_sum_nth nth_enumerate_eq atLeast0LessThan)
  then have val: "mat Q j t = (\<Sum>i<codec_k c. mat (codec_generator c) j i * mat data i t)"
    if "j < codec_m c" "t < L" for j t
    using that by (simp add: Q new_parity_accumulators_def gf_of_simps)
  have "(case data of b # _ \<Rightarrow> length b | [] \<Rightarrow> 0) = L"
    using len(1) len(2) [of 0] assms(4) by (cases data) auto
  moreover have "\<not> list_ex (\<lambda>b. length b \<noteq> L) data"
    using len by (auto simp: list_ex_iff in_set_conv_nth)
  ultimately show enc: "encode msx kind c data =
      accumulate_all msx kind c (new_parity_accumulators c L) (enumerate 0 data)"
    using len by (simp add: encode_def accumulate_all_def Let_def)
  show "\<exists>Q. encode msx kind c data = Inr Q \<and> is_mat (codec_m c) L Q \<and>
     (\<forall>j<codec_m c. \<forall>t<L.
        mat Q j t = (\<Sum>i<codec_k c. mat (codec_generator c) j i * mat data i t))"
    using Q(1,2) val enc by (intro exI [of _ Q]) simp
qed

section \<open>Survivors\<close>

text \<open>The row of the systematic generator that produces shard \<open>r\<close>.\<close>

definition sys_entry :: "ReedSolomonCodec \<Rightarrow> nat \<Rightarrow> nat \<Rightarrow> gf" where
  "sys_entry c r i =
     (if r < codec_k c then of_bool (r = i) else mat (codec_generator c) (r - codec_k c) i)"

lemma systematic_row_Inr:
  assumes "codec_wf c" "r < codec_k c + codec_m c"
  obtains row where "systematic_row c r = Inr row" "length row = codec_k c"
    "\<And>i. i < codec_k c \<Longrightarrow> gf_of (row ! i) = sys_entry c r i"
proof (cases "r < codec_k c")
  case True
  then show ?thesis
    by (intro that [of "(replicate (codec_k c) 0)[r := 1]"])
      (auto simp: systematic_row_def sys_entry_def nth_list_update gf_of_simps)
next
  case False
  then show ?thesis
    using assms by (intro that [of "codec_generator c ! (r - codec_k c)"])
      (auto simp: systematic_row_def sys_entry_def codec_wf_def is_mat_def)
qed

text \<open>Any \<open>k\<close> distinct rows of the systematic generator are independent.\<close>

lemma survivors_nonsingular:
  assumes wf: "codec_wf c" and len: "length rs = codec_k c" and dist: "distinct rs"
    and range: "set rs \<subseteq> {..<codec_k c + codec_m c}"
  shows "nonsingular (codec_k c) (\<lambda>l i. sys_entry c (rs ! l) i)"
  unfolding nonsingular_def kernel_def
proof (intro allI impI)
  fix v i
  let ?k = "codec_k c"
  assume zero: "\<forall>l<?k. (\<Sum>j<?k. sys_entry c (rs ! l) j * v j) = 0" and i: "i < ?k"
  have row: "(\<Sum>j<?k. sys_entry c r j * v j) = 0" if "r \<in> set rs" for r
    using zero that len by (auto simp: in_set_conv_nth)
  define D where "D = set rs \<inter> {..<?k}"
  define J where "J = set rs - {..<?k}"
  have D: "v r = 0" if "r \<in> D" for r
  proof -
    have "(\<Sum>j<?k. of_bool (r = j) * v j) = 0"
      using row [of r] that by (simp add: D_def sys_entry_def)
    then show ?thesis using that by (simp add: D_def sum_of_bool_mult)
  qed
  have card: "card ({..<?k} - D) \<le> card J"
  proof -
    have "card D + card J = ?k"
      using distinct_card [OF dist] len card_Int_Diff [of "set rs" "{..<?k}"] by (simp add: D_def J_def)
    moreover have "card ({..<?k} - D) = ?k - card D"
      by (subst card_Diff_subset) (auto simp: D_def)
    ultimately show ?thesis by simp
  qed
  have lim: "r < 256" if "r \<in> J \<or> r < ?k" for r
    using that range wf by (auto simp: J_def codec_wf_def)
  have "\<forall>i\<in>{..<?k} - D. v i = 0"
  proof (rule cauchy_kernel [where x = seed and y = seed and J = J])
    show "finite ({..<?k} - D)" "finite J" by (simp_all add: J_def)
    show "inj_on seed J" "inj_on seed ({..<?k} - D)"
      using lim by (auto simp: inj_on_def seed_inj)
    show "seed j \<noteq> seed i" if "i \<in> {..<?k} - D" "j \<in> J" for i j
      using that lim by (auto simp: seed_inj J_def)
    show "(\<Sum>i\<in>{..<?k} - D. v i / (seed j - seed i)) = 0" if "j \<in> J" for j
    proof -
      have "(\<Sum>i\<in>{..<?k} - D. v i / (seed j - seed i)) = (\<Sum>i<?k. v i / (seed j - seed i))"
        by (rule sum.mono_neutral_left) (auto simp: D)
      also have "\<dots> = (\<Sum>i<?k. sys_entry c j i * v i)"
        using that wf range by (intro sum.cong)
          (auto simp: sys_entry_def codec_wf_def J_def)
      also have "\<dots> = 0"
        using that by (intro row) (simp add: J_def)
      finally show ?thesis .
    qed
  qed (rule card)
  with D i show "v i = 0" by blast
qed


text \<open>Collecting survivors takes the first \<open>k\<close> shards that are present.\<close>

definition present :: "(nat \<times> bytes option) list \<Rightarrow> (nat \<times> bytes) list" where
  "present xs = map (\<lambda>(i, s). (i, the s)) (filter (\<lambda>(i, s). s \<noteq> None) xs)"

lemma collect_survivors_take:
  "length acc < k \<Longrightarrow> collect_survivors k acc xs = acc @ take (k - length acc) (present xs)"
proof (induction k acc xs rule: collect_survivors.induct)
  case (3 k acc index shard shards)
  show ?case
  proof (cases "Suc (length acc) = k")
    case True
    then have "k - length acc = 1" by simp
    with True show ?thesis by (simp add: present_def)
  next
    case False
    then have "k - length acc = Suc (k - Suc (length acc))"
      using 3(2) by simp
    moreover have "collect_survivors k (acc @ [(index, shard)]) shards =
        (acc @ [(index, shard)]) @ take (k - Suc (length acc)) (present shards)"
      using 3 False by simp
    ultimately show ?thesis
      using False by (simp add: present_def)
  qed
qed (simp_all add: present_def)

text \<open>A stripe in which some shards are missing: every shard that is present is the encoded one.\<close>

definition damaged :: "bytes list \<Rightarrow> bytes option list \<Rightarrow> bool" where
  "damaged stripe shards \<longleftrightarrow> length shards = length stripe \<and>
     (\<forall>i<length stripe. shards ! i = None \<or> shards ! i = Some (stripe ! i))"

lemma length_present:
  "length (present (enumerate n shards)) = length (filter (\<lambda>s. s \<noteq> None) shards)"
  by (induction shards arbitrary: n) (simp_all add: present_def)

lemma present_damaged:
  assumes "damaged stripe shards"
  shows "(i, s) \<in> set (present (enumerate 0 shards)) \<Longrightarrow> i < length stripe \<and> s = stripe ! i"
    and "distinct (map fst (present (enumerate 0 shards)))"
proof -
  show "(i, s) \<in> set (present (enumerate 0 shards)) \<Longrightarrow> i < length stripe \<and> s = stripe ! i"
    using assms by (fastforce simp: present_def damaged_def in_set_conv_nth nth_enumerate_eq)
  have "map fst (present xs) = map fst (filter (\<lambda>(i, s). s \<noteq> None) xs)" for xs
    by (simp add: present_def split_def comp_def)
  then show "distinct (map fst (present (enumerate 0 shards)))"
    by (simp add: distinct_map_filter)
qed

lemma shard_len_loop_Inr:
  assumes "\<And>s. Some s \<in> set shards \<Longrightarrow> length s = L" "0 < L" "len \<noteq> None \<longrightarrow> len = Some L"
  shows "shard_len_loop len shards =
    Inr (if len = None \<and> filter (\<lambda>s. s \<noteq> None) shards = [] then None else Some L)"
  using assms
proof (induction len shards rule: shard_len_loop.induct)
  case (3 len shard shards)
  then show ?case by (cases len) auto
qed auto

lemma fill_missing_stripe:
  assumes "length shards = base + length xs + extra"
  shows "foldl (fill_missing base) shards (enumerate 0 xs) =
    map (\<lambda>i. if base \<le> i \<and> i < base + length xs \<and> shards ! i = None then Some (xs ! (i - base))
        else shards ! i) [0..<length shards]"
proof -
  have "n \<le> length xs \<Longrightarrow> foldl (fill_missing base) shards (take n (enumerate 0 xs)) =
    map (\<lambda>i. if base \<le> i \<and> i < base + n \<and> shards ! i = None then Some (xs ! (i - base))
        else shards ! i) [0..<length shards]" for n
  proof (induction n)
    case 0
    show ?case by (auto intro!: nth_equalityI)
  next
    case (Suc n)
    then have "take (Suc n) (enumerate 0 xs) = take n (enumerate 0 xs) @ [(n, xs ! n)]"
      by (simp add: take_Suc_conv_app_nth nth_enumerate_eq)
    then show ?case
      using Suc assms
      by (auto simp: fill_missing_def nth_list_update less_Suc_eq intro!: nth_equalityI)
  qed
  from this [of "length xs"] show ?thesis by simp
qed

section \<open>Reconstruction\<close>

lemma combine_Inr:
  assumes "mul_slice_xor_spec msx" "length out = L" "\<And>l. l < n \<Longrightarrow> length (ss l) = L"
  shows "\<exists>res. try_fold (\<lambda>out l. gf_mul_slice_xor msx kind (cs l) (ss l) out) out [0..<n] = Inr res \<and>
    length res = L \<and>
    (\<forall>t<L. gf_of (res ! t) = gf_of (out ! t) + (\<Sum>l<n. gf_of (cs l) * gf_of (ss l ! t)))"
  using assms(3)
proof (induction n)
  case 0
  then show ?case using assms(2) by simp
next
  case (Suc n)
  then obtain res where res: "try_fold (\<lambda>out l. gf_mul_slice_xor msx kind (cs l) (ss l) out) out [0..<n] = Inr res"
    "length res = L"
    "\<forall>t<L. gf_of (res ! t) = gf_of (out ! t) + (\<Sum>l<n. gf_of (cs l) * gf_of (ss l ! t))"
    by auto
  then show ?case
    using Suc.prems [of n] assms(1)
    by (simp add: try_fold_append gf_mul_slice_xor_def Kernel_apply_mul_add mul_add_nth add.assoc)
qed

lemma nonsingular_cong:
  assumes "nonsingular n A" "\<And>i j. i < n \<Longrightarrow> j < n \<Longrightarrow> A i j = B i j"
  shows "nonsingular n B"
proof -
  have "kernel n A v" if "kernel n B v" for v
    unfolding kernel_def
  proof (intro allI impI)
    fix i assume "i < n"
    then have "(\<Sum>j<n. A i j * v j) = (\<Sum>j<n. B i j * v j)"
      by (intro sum.cong) (simp_all add: assms(2))
    then show "(\<Sum>j<n. A i j * v j) = 0"
      using that \<open>i < n\<close> by (simp add: kernel_def)
  qed
  then show ?thesis using assms(1) by (simp add: nonsingular_def)
qed

lemma survivor_matrix_Inr:
  assumes "codec_wf c" "length rs = codec_k c" "distinct rs" "set rs \<subseteq> {..<codec_k c + codec_m c}"
  shows "\<exists>V. rbind (try_map (systematic_row c) rs) invert_matrix = Inr V \<and>
    (\<forall>d<codec_k c. \<forall>i<codec_k c.
       (\<Sum>l<codec_k c. mat V d l * sys_entry c (rs ! l) i) = of_bool (d = i))"
proof -
  define row where "row r = projr (systematic_row c r)" for r
  have row: "systematic_row c r = Inr (row r)" "length (row r) = codec_k c"
    "i < codec_k c \<Longrightarrow> gf_of (row r ! i) = sys_entry c r i" if "r \<in> set rs" for r i
  proof -
    have "r < codec_k c + codec_m c"
      using that assms(4) by auto
    then obtain ro where "systematic_row c r = Inr ro" "length ro = codec_k c"
      "\<And>i. i < codec_k c \<Longrightarrow> gf_of (ro ! i) = sys_entry c r i"
      using systematic_row_Inr [OF assms(1)] by metis
    then show "systematic_row c r = Inr (row r)" "length (row r) = codec_k c"
      "i < codec_k c \<Longrightarrow> gf_of (row r ! i) = sys_entry c r i"
      by (simp_all add: row_def)
  qed
  have M: "try_map (systematic_row c) rs = Inr (map row rs)"
    by (rule try_map_Inr) (rule row)
  have entry: "mat (map row rs) l i = sys_entry c (rs ! l) i" if "l < codec_k c" "i < codec_k c" for l i
    using that assms(2) by (simp add: row)
  have "is_mat (codec_k c) (codec_k c) (map row rs)"
    using assms(2) by (simp add: is_mat_def row)
  moreover have "nonsingular (codec_k c) (mat (map row rs))"
    using survivors_nonsingular [OF assms] by (rule nonsingular_cong) (simp add: entry)
  ultimately obtain V where "invert_matrix (map row rs) = Inr V" "is_mat (codec_k c) (codec_k c) V"
    "\<And>d i. d < codec_k c \<Longrightarrow> i < codec_k c \<Longrightarrow>
       (\<Sum>l<codec_k c. mat V d l * mat (map row rs) l i) = of_bool (d = i)"
    using invert_matrix_correct by blast
  moreover have "(\<Sum>l<codec_k c. mat V d l * mat (map row rs) l i) =
      (\<Sum>l<codec_k c. mat V d l * sys_entry c (rs ! l) i)" if "i < codec_k c" for d i
    using that by (intro sum.cong) (simp_all only: entry lessThan_iff)
  ultimately show ?thesis
    using M by (intro exI [of _ V]) simp
qed

text \<open>Applying the inverse of the survivors' rows to the survivors gives the data back.\<close>

lemma decode_identity:
  fixes k :: nat
  assumes inv: "\<And>d i. d < k \<Longrightarrow> i < k \<Longrightarrow> (\<Sum>l<k. V d l * S l i) = of_bool (d = i)" and "d < k"
  shows "(\<Sum>l<k. V d l * (\<Sum>i<k. S l i * D i)) = (D d :: gf)"
proof -
  have "(\<Sum>l<k. V d l * (\<Sum>i<k. S l i * D i)) = (\<Sum>l<k. \<Sum>i<k. V d l * S l i * D i)"
    by (simp add: sum_distrib_left mult.assoc)
  also have "\<dots> = (\<Sum>i<k. \<Sum>l<k. V d l * S l i * D i)"
    by (rule sum.swap)
  also have "\<dots> = (\<Sum>i<k. of_bool (d = i) * D i)"
    using assms by (intro sum.cong) (simp_all add: sum_distrib_right [symmetric])
  finally show ?thesis using assms(2) by (simp add: sum_of_bool_mult)
qed

lemma decode_Inr:
  assumes "mul_slice_xor_spec msx" "is_mat k L data" "\<And>l. l < k \<Longrightarrow> length (ss ! l) = L"
    and inv: "\<And>d i. d < k \<Longrightarrow> i < k \<Longrightarrow> (\<Sum>l<k. mat V d l * S l i) = of_bool (d = i)"
    and ss: "\<And>l t. l < k \<Longrightarrow> t < L \<Longrightarrow> gf_of (ss ! l ! t) = (\<Sum>i<k. S l i * mat data i t)"
  shows "try_map (\<lambda>d. try_fold (\<lambda>out l. gf_mul_slice_xor msx kind (V ! d ! l) (ss ! l) out)
      (replicate L 0) [0..<k]) [0..<k] = Inr data"
proof -
  have "try_fold (\<lambda>out l. gf_mul_slice_xor msx kind (V ! d ! l) (ss ! l) out)
      (replicate L 0) [0..<k] = Inr (data ! d)" if "d < k" for d
  proof -
    obtain res where res: "try_fold (\<lambda>out l. gf_mul_slice_xor msx kind (V ! d ! l) (ss ! l) out)
        (replicate L 0) [0..<k] = Inr res" "length res = L"
      "\<forall>t<L. gf_of (res ! t) = gf_of (replicate L 0 ! t) + (\<Sum>l<k. mat V d l * gf_of (ss ! l ! t))"
      using combine_Inr [OF assms(1), of "replicate L 0" L k "\<lambda>l. ss ! l" kind "\<lambda>l. V ! d ! l"] assms(3) by auto
    have "gf_of (res ! t) = mat data d t" if "t < L" for t
    proof -
      have "(\<Sum>l<k. mat V d l * gf_of (ss ! l ! t)) =
          (\<Sum>l<k. mat V d l * (\<Sum>i<k. S l i * mat data i t))"
        using that by (intro sum.cong) (simp_all add: ss)
      then show ?thesis
        using res(3) that decode_identity [OF inv \<open>d < k\<close>, of "\<lambda>i. mat data i t"]
        by (simp add: gf_of_simps)
    qed
    then have "res = data ! d"
      using res(2) assms(2) \<open>d < k\<close> by (intro nth_equalityI) (simp_all add: is_mat_def)
    then show ?thesis using res(1) by simp
  qed
  then have "try_map (\<lambda>d. try_fold (\<lambda>out l. gf_mul_slice_xor msx kind (V ! d ! l) (ss ! l) out)
      (replicate L 0) [0..<k]) [0..<k] = Inr (map ((!) data) [0..<k])"
    by (intro try_map_Inr) simp
  moreover have "map ((!) data) [0..<k] = data"
    using assms(2) map_nth [of data] by (simp add: is_mat_def)
  ultimately show ?thesis by simp
qed


text \<open>Every shard of an encoded stripe is its systematic row applied to the data.\<close>

lemma stripe_entry:
  assumes data: "is_mat (codec_k c) L data" and parity: "is_mat (codec_m c) L parity"
    and val: "\<And>j t. j < codec_m c \<Longrightarrow> t < L \<Longrightarrow>
      mat parity j t = (\<Sum>i<codec_k c. mat (codec_generator c) j i * mat data i t)"
    and r: "r < codec_k c + codec_m c" and t: "t < L"
  shows "mat (data @ parity) r t = (\<Sum>i<codec_k c. sys_entry c r i * mat data i t)"
proof (cases "r < codec_k c")
  case True
  then show ?thesis
    using data by (simp add: nth_append is_mat_def sys_entry_def sum_of_bool_mult)
next
  case False
  then show ?thesis
    using data r t by (simp add: nth_append is_mat_def sys_entry_def val)
qed

lemma stripe_shape:
  "is_mat k L data \<Longrightarrow> is_mat m L parity \<Longrightarrow> is_mat (k + m) L (data @ parity)"
  by (auto simp: is_mat_def nth_append)

lemma fill_stripe:
  assumes dmg: "damaged (data @ parity) shards"
  defines "shards1 \<equiv> foldl (fill_missing 0) shards (enumerate 0 data)"
  shows "i < length data \<Longrightarrow> shards1 ! i = Some (data ! i)"
    and "length shards1 = length data + length parity"
    and "\<not> list_ex (\<lambda>s. s = None) (drop (length data) shards1) \<Longrightarrow> shards1 = map Some (data @ parity)"
    and "foldl (fill_missing (length data)) shards1 (enumerate 0 parity) = map Some (data @ parity)"
proof -
  have len: "length shards = length data + length parity"
    using dmg by (simp add: damaged_def)
  have s1: "shards1 = map (\<lambda>i. if i < length data \<and> shards ! i = None then Some (data ! i)
      else shards ! i) [0..<length shards]"
    using fill_missing_stripe [of shards 0 data "length parity"] len by (simp add: shards1_def)
  have present: "shards ! i = None \<or> shards ! i = Some ((data @ parity) ! i)" if "i < length shards" for i
    using dmg that by (simp add: damaged_def)
  show first: "shards1 ! i = Some (data ! i)" if "i < length data" for i
    using that len present [of i] by (auto simp: s1 nth_append)
  show len1: "length shards1 = length data + length parity"
    by (simp add: s1 len)
  have rest: "shards1 ! i = shards ! i" if "length data \<le> i" "i < length shards" for i
    using that by (simp add: s1)
  show "shards1 = map Some (data @ parity)" if "\<not> list_ex (\<lambda>s. s = None) (drop (length data) shards1)"
  proof (rule nth_equalityI)
    fix i assume "i < length shards1"
    moreover have "shards1 ! i \<noteq> None" if "length data \<le> i"
      using that \<open>i < length shards1\<close> \<open>\<not> list_ex _ _\<close>
      by (auto simp: list_ex_iff in_set_conv_nth) (metis add_diff_inverse_nat diff_less_mono len1 nth_drop not_le le_add1)
    ultimately show "shards1 ! i = map Some (data @ parity) ! i"
      using first [of i] rest [of i] present [of i] len1 len by (cases "i < length data") (auto simp: nth_append)
  qed (simp add: len1)
  show "foldl (fill_missing (length data)) shards1 (enumerate 0 parity) = map Some (data @ parity)"
  proof (rule nth_equalityI)
    fix i assume "i < length (foldl (fill_missing (length data)) shards1 (enumerate 0 parity))"
    then have i: "i < length data + length parity"
      using fill_missing_stripe [of shards1 "length data" parity 0] len1 by simp
    show "foldl (fill_missing (length data)) shards1 (enumerate 0 parity) ! i = map Some (data @ parity) ! i"
      using fill_missing_stripe [of shards1 "length data" parity 0] len1 first [of i] rest [of i] present [of i] i len
      by (cases "i < length data") (auto simp: nth_append)
  qed (use fill_missing_stripe [of shards1 "length data" parity 0] len1 in simp)
qed


lemma survivors_damaged:
  assumes "damaged stripe shards" "0 < k" "k \<le> length (filter (\<lambda>s. s \<noteq> None) shards)"
  defines "sv \<equiv> collect_survivors k [] (enumerate 0 shards)"
  shows "length sv = k" "distinct (map fst sv)" "set (map fst sv) \<subseteq> {..<length stripe}"
    "l < k \<Longrightarrow> snd (sv ! l) = stripe ! fst (sv ! l)"
proof -
  have sv: "sv = take k (present (enumerate 0 shards))"
    using collect_survivors_take [of "[]" k] assms(2) by (simp add: sv_def)
  show len: "length sv = k"
    using assms(3) by (simp add: sv length_present)
  show "distinct (map fst sv)"
    using present_damaged(2) [OF assms(1)] by (simp add: sv take_map [symmetric])
  have mem: "i < length stripe \<and> s = stripe ! i" if "(i, s) \<in> set sv" for i s
    using present_damaged(1) [OF assms(1)] that by (auto simp: sv dest: in_set_takeD)
  then show "set (map fst sv) \<subseteq> {..<length stripe}" by auto
  show "snd (sv ! l) = stripe ! fst (sv ! l)" if "l < k"
    using mem [of "fst (sv ! l)" "snd (sv ! l)"] that len by simp
qed

lemma encode_value:
  assumes "mul_slice_xor_spec msx" "codec_wf c" "is_mat (codec_k c) L data" "0 < codec_k c"
    and "encode msx kind c data = Inr Q"
  shows "is_mat (codec_m c) L Q" and "j < codec_m c \<Longrightarrow> t < L \<Longrightarrow>
       mat Q j t = (\<Sum>i<codec_k c. mat (codec_generator c) j i * mat data i t)"
proof -
  obtain Q' where Q': "encode msx kind c data = Inr Q'" "is_mat (codec_m c) L Q'"
    "\<forall>j<codec_m c. \<forall>t<L.
       mat Q' j t = (\<Sum>i<codec_k c. mat (codec_generator c) j i * mat data i t)"
    using encode_Inr(1) [OF assms(1-4), of kind] by blast
  have "Q' = Q" using Q'(1) assms(5) by simp
  then show "is_mat (codec_m c) L Q" "j < codec_m c \<Longrightarrow> t < L \<Longrightarrow>
       mat Q j t = (\<Sum>i<codec_k c. mat (codec_generator c) j i * mat data i t)"
    using Q'(2,3) by simp_all
qed

lemma reconstruct_Inr:
  assumes spec: "mul_slice_xor_spec msx" and wf: "codec_wf c" and k: "0 < codec_k c"
    and data: "is_mat (codec_k c) L data" and L: "0 < L"
    and enc: "encode msx kind c data = Inr parity"
    and dmg: "damaged (data @ parity) shards"
    and enough: "codec_k c \<le> length (filter (\<lambda>s. s \<noteq> None) shards)"
  shows "reconstruct msx kind c shards = Inr (map Some (data @ parity))"
proof -
  note Q = encode_value [OF spec wf data k enc]
  let ?st = "data @ parity"
  have st: "is_mat (codec_k c + codec_m c) L ?st"
    using stripe_shape [OF data Q(1)] .
  have lens: "length data = codec_k c" "length parity = codec_m c" "length shards = codec_k c + codec_m c"
    using data Q(1) dmg by (simp_all add: is_mat_def damaged_def)
  have nonempty: "filter (\<lambda>s. s \<noteq> None) shards \<noteq> []"
    using enough k by auto
  have pres: "shards ! i = None \<or> shards ! i = Some (?st ! i)" if "i < length shards" for i
    using dmg that by (simp add: damaged_def)
  have "length s = L" if some: "Some s \<in> set shards" for s
  proof -
    obtain i where "i < length shards" "shards ! i = Some s"
      using some by (auto simp: in_set_conv_nth)
    then show ?thesis
      using pres [of i] is_mat_simps(2) [OF st, of i] lens(3) by simp
  qed
  then have sl: "shard_len shards = Inr (Some L)"
    using shard_len_loop_Inr [of shards L None] L nonempty by (simp add: shard_len_def)
  show ?thesis
  proof (cases "list_all (\<lambda>s. s \<noteq> None) shards")
    case True
    then have "shards ! i = Some (?st ! i)" if "i < length shards" for i
      using pres [OF that] that by (auto simp: list_all_length)
    then have "shards = map Some ?st"
      using lens by (intro nth_equalityI) (simp_all del: map_append)
    then show ?thesis using True sl lens by (simp add: reconstruct_def)
  next
    case False
    define sv where "sv = collect_survivors (codec_k c) [] (enumerate 0 shards)"
    note sv = survivors_damaged [OF dmg k enough, folded sv_def]
    have sub: "set (map fst sv) \<subseteq> {..<codec_k c + codec_m c}"
      using sv(3) lens by simp
    have len: "length (map fst sv) = codec_k c"
      using sv(1) by simp
    obtain V where V: "rbind (try_map (systematic_row c) (map fst sv)) invert_matrix = Inr V"
      and inv: "\<forall>d<codec_k c. \<forall>i<codec_k c.
         (\<Sum>l<codec_k c. mat V d l * sys_entry c (map fst sv ! l) i) = of_bool (d = i)"
      using survivor_matrix_Inr [OF wf len sv(2) sub] by blast
    have range: "fst (sv ! l) < codec_k c + codec_m c" if "l < codec_k c" for l
    proof -
      have "fst (sv ! l) \<in> set (map fst sv)"
        using that sv(1) by simp
      then show ?thesis using sub by blast
    qed
    have dec: "try_map (\<lambda>d. try_fold (\<lambda>out l. gf_mul_slice_xor msx kind (V ! d ! l) (map snd sv ! l) out)
        (replicate L 0) [0..<codec_k c]) [0..<codec_k c] = Inr data"
    proof (rule decode_Inr [OF spec data])
      show "(\<Sum>l<codec_k c. mat V d l * sys_entry c (map fst sv ! l) i) = of_bool (d = i)"
        if "d < codec_k c" "i < codec_k c" for d i
        using inv that by blast
      fix l assume l: "l < codec_k c"
      then show "length (map snd sv ! l) = L"
        using sv(1,4) range st by (simp add: is_mat_def)
      show "gf_of (map snd sv ! l ! t) =
          (\<Sum>i<codec_k c. sys_entry c (map fst sv ! l) i * mat data i t)" if "t < L" for t
        using l that sv(1,4) range stripe_entry [OF data Q] by simp
    qed
    note fill = fill_stripe [OF dmg, unfolded lens]
    let ?f = "foldl (fill_missing 0) shards (enumerate 0 data)"
    have "reconstruct msx kind c shards =
        (if list_ex (\<lambda>s. s = None) (drop (codec_k c) ?f)
         then rbind (encode msx kind c data)
           (\<lambda>parity. Inr (foldl (fill_missing (codec_k c)) ?f (enumerate 0 parity)))
         else Inr ?f)"
      unfolding reconstruct_def Let_def sv_def [symmetric] sl
      using False lens(3) V dec sv(1)
      by (simp only: if_False if_True rbind_Inr ok_or_Some map_err_Inr length_map simp_thms less_irrefl)
    then show ?thesis
      using enc fill(3,4) by (simp only: rbind_Inr split: if_split) simp
  qed
qed

lemma encode_kernel_independent:
  assumes "mul_slice_xor_spec msx" "mul_slice_xor_spec msx'" "codec_wf c"
    "is_mat (codec_k c) L data" "0 < codec_k c"
  shows "encode msx kind c data = encode msx' kind' c data"
proof -
  obtain Q Q' where Q: "encode msx kind c data = Inr Q" "encode msx' kind' c data = Inr Q'"
    using encode_Inr(1) [OF assms(1,3-5), of kind] encode_Inr(1) [OF assms(2-5), of kind'] by blast
  have "Q = Q'"
    using encode_value [OF assms(1,3-5) Q(1)] encode_value [OF assms(2-5) Q(2)]
    by (intro blocks_eqI [of "codec_m c" L]) simp_all
  then show ?thesis using Q by simp
qed

lemma blocks_of_list: "length data = n \<Longrightarrow> (\<And>d. d \<in> set data \<Longrightarrow> length d = L) \<Longrightarrow> is_mat n L data"
  by (auto simp: is_mat_def)

lemma contribution_zeros:
  assumes "\<forall>(i, s)\<in>set zs. s = replicate L 0" "t < L"
  shows "contribution c zs j t = 0"
  using assms by (induction zs) (auto simp: contribution_def gf_of_simps)

lemma contribution_mset: "contribution c xs j t =
    sum_mset (image_mset (\<lambda>(i, s). mat (codec_generator c) j i * gf_of (s ! t)) (mset xs))"
  by (induction xs) (auto simp: contribution_def)

lemma stripe_codec:
  assumes "ReedSolomonCodec_new scheme = Inr c" "length data = codec_k c" "\<forall>d\<in>set data. length d = L"
  shows "codec_wf c" "0 < codec_k c" "is_mat (codec_k c) L data"
  using ReedSolomonCodec_new_dest [OF assms(1)] assms(2,3) by (auto intro: blocks_of_list)

text \<open>Feeding the data shards to the accumulators one by one, in any order, and leaving out shards that
  are all zero, gives the same bytes as batch encoding.\<close>

lemma accumulate_permuted:
  assumes "mul_slice_xor_spec msx" and "ReedSolomonCodec_new scheme = Inr c"
    and "length data = codec_k c" and "\<forall>d\<in>set data. length d = L"
    and "mset xs + mset zeros = mset (enumerate 0 data)"
    and "\<forall>(i, s)\<in>set zeros. s = replicate L 0"
  shows "accumulate_all msx kind c (new_parity_accumulators c L) xs = encode msx kind c data"
proof -
  note st = stripe_codec [OF assms(2-4)]
  have zero: "is_mat (codec_m c) L (new_parity_accumulators c L)"
    by (simp add: is_mat_def new_parity_accumulators_def)
  have sub: "set xs \<subseteq> set (enumerate 0 data)"
    using arg_cong [OF assms(5), of set_mset] by auto
  have mem: "i < codec_k c \<and> length s = L" if "(i, s) \<in> set xs" for i s
    using sub that assms(3,4) by (fastforce simp: in_set_conv_nth nth_enumerate_eq)
  obtain Q where Q: "accumulate_all msx kind c (new_parity_accumulators c L) xs = Inr Q"
    "is_mat (codec_m c) L Q"
    "\<forall>j<codec_m c. \<forall>t<L. mat Q j t = mat (new_parity_accumulators c L) j t + contribution c xs j t"
    using accumulate_all_Inr [OF assms(1) st(1) mem zero] by blast
  have mem': "i < codec_k c \<and> length s = L" if "(i, s) \<in> set (enumerate 0 data)" for i s
    using that assms(3,4) by (fastforce simp: in_set_conv_nth nth_enumerate_eq)
  obtain Q' where Q': "accumulate_all msx kind c (new_parity_accumulators c L) (enumerate 0 data) = Inr Q'"
    "is_mat (codec_m c) L Q'" "\<forall>j<codec_m c. \<forall>t<L.
       mat Q' j t = mat (new_parity_accumulators c L) j t + contribution c (enumerate 0 data) j t"
    using accumulate_all_Inr [OF assms(1) st(1) mem' zero] by blast
  have "contribution c (enumerate 0 data) j t = contribution c xs j t" if "t < L" for j t
    using contribution_zeros [OF assms(6) that, of c j]
    by (simp add: contribution_mset assms(5) [symmetric])
  then have "Q = Q'"
    using Q(2,3) Q'(2,3) by (intro blocks_eqI [of "codec_m c" L]) simp_all
  then show ?thesis
    using Q(1) Q'(1) encode_Inr(2) [OF assms(1) st(1,3,2)] by simp
qed

lemma small_codec:
  obtains c where "ReedSolomonCodec_new small_scheme = Inr c" "codec_k c = 4" "codec_m c = 2"
proof -
  have "ParityScheme_validate small_scheme = Inr small_scheme"
    by code_simp
  then obtain c where "ReedSolomonCodec_new small_scheme = Inr c"
    "codec_k c = nK small_scheme" "codec_m c = nM small_scheme"
    using ReedSolomonCodec_new_Inr by blast
  then show ?thesis
    using that by (simp add: small_scheme_def)
qed

section \<open>Properties\<close>

text \<open>
  C1: the erasure code is maximum distance separable as implemented. Whatever \<open>m\<close> or fewer
  shards of an encoded stripe are missing, reconstruction from the first \<open>k\<close> survivors
  returns every shard of the stripe as it was written, for every validated scheme, whichever
  kernels the writing and the reading host select.
\<close>

theorem reconstruct_recovers_stripe:
  assumes "mul_slice_xor_spec msx" and "mul_slice_xor_spec msx'"
    and "ReedSolomonCodec_new scheme = Inr c"
    and "length data = codec_k c" and "\<forall>d\<in>set data. length d = L" and "0 < L"
    and "encode msx kind c data = Inr parity"
    and "length shards = length (data @ parity)"
    and "\<forall>i<length shards. shards ! i = None \<or> shards ! i = Some ((data @ parity) ! i)"
    and "length (filter (\<lambda>s. s = None) shards) \<le> codec_m c"
  shows "reconstruct msx' kind' c shards = Inr (map Some (data @ parity))"
proof -
  note st = stripe_codec [OF assms(3-5)]
  have "encode msx' kind' c data = Inr parity"
    using encode_kernel_independent [OF assms(1,2) st(1,3,2), of kind kind'] assms(7) by simp
  moreover have "length parity = codec_m c"
    using encode_value(1) [OF assms(1) st(1,3,2) assms(7)] by (simp add: is_mat_def)
  then have "codec_k c \<le> length (filter (\<lambda>s. s \<noteq> None) shards)"
    using sum_length_filter_compl [of "\<lambda>s. s = None" shards] assms(4,8,10) by simp
  ultimately show ?thesis
    using assms(2,6,8,9) st by (intro reconstruct_Inr) (simp_all add: damaged_def)
qed

theorem reconstruct_recovers_stripe_witness:
  "\<exists>c parity. ReedSolomonCodec_new small_scheme = Inr c \<and>
     encode mul_add Portable c [[1, 9], [2, 8], [3, 7], [4, 6]] = Inr parity \<and>
     reconstruct mul_add Avx2 c ([None, Some [2, 8], None, Some [4, 6]] @ map Some parity) =
       Inr (map Some ([[1, 9], [2, 8], [3, 7], [4, 6]] @ parity))"
proof -
  obtain c where c: "ReedSolomonCodec_new small_scheme = Inr c" and km: "codec_k c = 4" "codec_m c = 2"
    by (rule small_codec)
  let ?data = "[[1, 9], [2, 8], [3, 7], [4, 6]]"
  have data: "length ?data = codec_k c" "\<forall>d\<in>set ?data. length d = 2"
    by (simp_all add: km)
  note st = stripe_codec [OF c data]
  obtain parity where enc: "encode mul_add Portable c ?data = Inr parity"
    using encode_Inr(1) [OF mul_add_spec st(1,3,2), of Portable] by blast
  have parity: "length parity = 2"
    using encode_value(1) [OF mul_add_spec st(1,3,2) enc] km by (simp add: is_mat_def)
  then obtain p q where pq: "parity = [p, q]"
    by (auto simp: length_Suc_conv numeral_2_eq_2)
  have "reconstruct mul_add Avx2 c ([None, Some [2, 8], None, Some [4, 6]] @ map Some parity) =
      Inr (map Some (?data @ parity))"
  proof (rule reconstruct_recovers_stripe [OF mul_add_spec mul_add_spec c data _ enc])
    show "\<forall>i<length ([None, Some [2, 8], None, Some [4, 6]] @ map Some parity).
        ([None, Some [2, 8], None, Some [4, 6]] @ map Some parity) ! i = None \<or>
        ([None, Some [2, 8], None, Some [4, 6]] @ map Some parity) ! i = Some ((?data @ parity) ! i)"
      by (simp add: pq nth_Cons')
  qed (simp_all add: km pq)
  with c enc show ?thesis by blast
qed

text \<open>
  C5: encoding succeeds on every stripe of \<open>k\<close> equally long blocks, without a panic, and
  parity block \<open>j\<close> is the Cauchy combination of the data blocks: byte by byte, the sum over
  \<open>i\<close> of the data byte divided by \<open>(k + j) XOR i\<close> in the field.
\<close>

theorem encode_is_cauchy_combination:
  assumes "mul_slice_xor_spec msx" and "ReedSolomonCodec_new scheme = Inr c"
    and "length data = codec_k c" and "\<forall>d\<in>set data. length d = L"
  shows "\<exists>parity. encode msx kind c data = Inr parity \<and> length parity = codec_m c \<and>
    (\<forall>j<codec_m c. length (parity ! j) = L \<and>
       (\<forall>t<L. gf_of (parity ! j ! t) =
          (\<Sum>i<codec_k c. gf_of (data ! i ! t) /
             gf_of (word_of_nat (codec_k c + j) XOR word_of_nat i))))"
proof -
  note st = stripe_codec [OF assms(2-4)]
  obtain Q where Q: "encode msx kind c data = Inr Q" "is_mat (codec_m c) L Q"
    "\<forall>j<codec_m c. \<forall>t<L. mat Q j t = (\<Sum>i<codec_k c. mat (codec_generator c) j i * mat data i t)"
    using encode_Inr(1) [OF assms(1) st(1,3,2), of kind] by blast
  have "mat (codec_generator c) j i * x = x / gf_of (word_of_nat (codec_k c + j) XOR word_of_nat i)"
    if "j < codec_m c" "i < codec_k c" for i j x
    using st(1) that by (simp add: codec_wf_def seed_def gf_of_simps diff_conv_add_uminus del: add_uminus_conv_diff of_nat_add)
  then have "(\<Sum>i<codec_k c. mat (codec_generator c) j i * mat data i t) =
      (\<Sum>i<codec_k c. mat data i t / gf_of (word_of_nat (codec_k c + j) XOR word_of_nat i))"
    if "j < codec_m c" for j t
    using that by (intro sum.cong) (simp_all only: lessThan_iff)
  then show ?thesis
    using Q by (intro exI [of _ Q]) (simp add: is_mat_def del: of_nat_add)
qed

theorem encode_is_cauchy_combination_witness:
  "\<exists>c parity. ReedSolomonCodec_new small_scheme = Inr c \<and>
     encode mul_add Ssse3 c [[1], [2], [3], [4]] = Inr parity \<and> length parity = codec_m c \<and>
     (\<forall>j<codec_m c. length (parity ! j) = 1 \<and>
       (\<forall>t<1. gf_of (parity ! j ! t) =
          (\<Sum>i<codec_k c. gf_of ([[1], [2], [3], [4]] ! i ! t) /
             gf_of (word_of_nat (codec_k c + j) XOR word_of_nat i))))"
proof -
  obtain c where c: "ReedSolomonCodec_new small_scheme = Inr c" "codec_k c = 4"
    by (rule small_codec)
  show ?thesis
    using encode_is_cauchy_combination [OF mul_add_spec c(1), of "[[1], [2], [3], [4]]" 1 Ssse3] c
    by (simp only: list.size list.set) (simp add: Ball_def del: of_nat_add)
qed

text \<open>
  C6: with fewer than \<open>k\<close> shards present, reconstruction reports
  \<open>TooFewShardsPresent\<close> and never a wrong stripe.
\<close>

theorem reconstruct_too_few:
  assumes "length shards = codec_k c + codec_m c" and "0 < L"
    and "\<forall>s. Some s \<in> set shards \<longrightarrow> length s = L"
    and "length (filter (\<lambda>s. s \<noteq> None) shards) < codec_k c"
  shows "reconstruct msx kind c shards = Inl (Error (ReedSolomon TooFewShardsPresent))"
proof -
  have "shard_len shards =
      Inr (if filter (\<lambda>s. s \<noteq> None) shards = [] then None else Some L)"
    using shard_len_loop_Inr [of shards L None] assms(2,3) by (simp add: shard_len_def)
  moreover have "\<not> list_all (\<lambda>s. s \<noteq> None) shards"
  proof
    assume "list_all (\<lambda>s. s \<noteq> None) shards"
    then have "filter (\<lambda>s. s \<noteq> None) shards = shards"
      by (simp add: filter_id_conv list_all_iff)
    then show False using assms(1,4) by simp
  qed
  moreover have "length (collect_survivors (codec_k c) [] (enumerate 0 shards)) < codec_k c"
    using assms(4) by (subst collect_survivors_take) (auto simp: length_present)
  ultimately show ?thesis
    using assms(1) by (auto simp: reconstruct_def Let_def)
qed

theorem reconstruct_too_few_witness:
  "reconstruct mul_add Portable \<lparr>codec_k = 3, codec_m = 1, codec_generator = []\<rparr>
     [Some [1], None, None, Some [2]] = Inl (Error (ReedSolomon TooFewShardsPresent))"
  by (rule reconstruct_too_few [where L = 1]) simp_all

end
