(* ===== verification/SidecarDirectory.thy ===== *)
theory SidecarDirectory
  imports ParityModel
begin

text \<open>
  The sidecar epoch directory and the value types of the \<open>parity_map\<close> control file, from
  \<open>crates/remanence-parity/src/parity_map.rs\<close>: the directory with its structural validation, the
  allocation-free length bounds, the bootstrap's reference to a parity map, and the header,
  footer and payload records that the codec reads and writes. A fixed-size array \<open>[u8; N]\<close> is a
  byte list; its length is part of the codec's well-formedness predicate.
\<close>

section \<open>Directory\<close>

record SidecarEpochDirectoryEntry =
  sde_tape_file_number :: u64
  sde_epoch_id :: u64
  sde_protected_ordinal_start :: u64
  sde_protected_ordinal_end_exclusive :: u64
  sde_sidecar_total_block_count :: u64
  sde_sidecar_header_block_count :: u64
  sde_parity_shard_block_count :: u64
  sde_canonical_metadata_hash :: bytes
  sde_flags :: u32

record SidecarEpochDirectory =
  directory_scope_tape_file_count :: u64
  directory_scope_total_data_ordinals :: u64
  directory_scope_highest_protected_ordinal :: u64
  is_final_directory :: bool
  directory_entries :: "SidecarEpochDirectoryEntry list"

definition SIDECAR_DIRECTORY_FLAG_FINAL_PARTIAL_EPOCH :: u32 where
  "SIDECAR_DIRECTORY_FLAG_FINAL_PARTIAL_EPOCH = 0x01"

definition SIDECAR_DIRECTORY_FLAG_PRIMARY_KNOWN_GOOD :: u32 where
  "SIDECAR_DIRECTORY_FLAG_PRIMARY_KNOWN_GOOD = 0x02"

definition SIDECAR_DIRECTORY_FLAG_TAIL_KNOWN_GOOD :: u32 where
  "SIDECAR_DIRECTORY_FLAG_TAIL_KNOWN_GOOD = 0x04"

definition KNOWN_DIRECTORY_FLAGS :: u32 where
  "KNOWN_DIRECTORY_FLAGS = SIDECAR_DIRECTORY_FLAG_FINAL_PARTIAL_EPOCH
     OR SIDECAR_DIRECTORY_FLAG_PRIMARY_KNOWN_GOOD OR SIDECAR_DIRECTORY_FLAG_TAIL_KNOWN_GOOD"

text \<open>One iteration of the validation loop. The state is the previous sidecar's tape-file number
  and the ordinal at which the next protected range has to start.\<close>

definition validate_directory_entry ::
  "SidecarEpochDirectory \<Rightarrow> u64 option \<times> u64 \<Rightarrow> nat \<times> SidecarEpochDirectoryEntry \<Rightarrow>
     (u64 option \<times> u64) parity_result" where
  "validate_directory_entry d = (\<lambda>(previous_tape_file_number, expected_start) (index, entry).
     if sde_tape_file_number entry \<ge> directory_scope_tape_file_count d
     then Inl (DirectoryInvalid ''directory sidecar tape file {} lies outside scope {}'')
     else if (case previous_tape_file_number of
                None \<Rightarrow> False | Some previous \<Rightarrow> sde_tape_file_number entry \<le> previous)
     then Inl (DirectoryInvalid ''directory sidecar entries must be in ascending tape-file order'')
     else if sde_protected_ordinal_end_exclusive entry \<le> sde_protected_ordinal_start entry
     then Inl (DirectoryInvalid ''directory sidecar {} has an empty protected range'')
     else if sde_protected_ordinal_start entry \<noteq> expected_start
     then Inl (DirectoryInvalid ''directory sidecar {} protected range starts at {}, expected contiguous start {expected_protected_ordinal_start}'')
     else if sde_epoch_id entry \<noteq> word_of_nat index
     then Inl (DirectoryInvalid ''directory sidecar {} has epoch_id {}, expected {expected_epoch_id}'')
     else if sde_sidecar_total_block_count entry = 0
       \<or> sde_sidecar_header_block_count entry = 0
       \<or> sde_parity_shard_block_count entry = 0
     then Inl (DirectoryInvalid ''directory sidecar {} has invalid block counts'')
     else if sde_flags entry AND NOT KNOWN_DIRECTORY_FLAGS \<noteq> 0
     then Inl (DirectoryInvalid ''directory sidecar {} has unknown flags 0x{:08x}'')
     else Inr (Some (sde_tape_file_number entry), sde_protected_ordinal_end_exclusive entry))"

definition SidecarEpochDirectory_validate :: "SidecarEpochDirectory \<Rightarrow> unit parity_result" where
  "SidecarEpochDirectory_validate d =
     (if directory_scope_highest_protected_ordinal d > directory_scope_total_data_ordinals d
      then Inl (DirectoryInvalid ''directory highest protected ordinal exceeds total data ordinals'')
      else rbind (try_fold (validate_directory_entry d) (None, 0)
                   (enumerate 0 (directory_entries d)))
        (\<lambda>(_, expected_start).
          if expected_start \<noteq> directory_scope_highest_protected_ordinal d
          then Inl (DirectoryInvalid ''directory highest protected ordinal {} does not match partition end {expected_protected_ordinal_start}'')
          else Inr ()))"

section \<open>Length bounds\<close>

definition PARITY_MAP_CBOR_FIXED_UPPER_BOUND_BYTES :: u64 where
  "PARITY_MAP_CBOR_FIXED_UPPER_BOUND_BYTES = 325"

definition PARITY_MAP_CBOR_DIRECTORY_FIXED_UPPER_BOUND_BYTES :: u64 where
  "PARITY_MAP_CBOR_DIRECTORY_FIXED_UPPER_BOUND_BYTES = 43"

definition PARITY_MAP_CBOR_DIRECTORY_ENTRY_UPPER_BOUND_BYTES :: u64 where
  "PARITY_MAP_CBOR_DIRECTORY_ENTRY_UPPER_BOUND_BYTES = 116"

definition parity_map_directory_len_upper_bound :: "u64 \<Rightarrow> u64 parity_result" where
  "parity_map_directory_len_upper_bound directory_entry_count =
     rbind (ok_or (ParityMapParse ''parity-map directory byte bound overflows u64'')
             (checked_mul directory_entry_count PARITY_MAP_CBOR_DIRECTORY_ENTRY_UPPER_BOUND_BYTES))
       (\<lambda>rows. ok_or (ParityMapParse ''parity-map directory envelope overflows u64'')
          (checked_add PARITY_MAP_CBOR_DIRECTORY_FIXED_UPPER_BOUND_BYTES rows))"

definition parity_map_payload_len_upper_bound :: "u64 \<Rightarrow> u64 parity_result" where
  "parity_map_payload_len_upper_bound directory_entry_count =
     rbind (ok_or (ParityMapParse ''parity-map directory byte bound overflows u64'')
             (checked_mul directory_entry_count PARITY_MAP_CBOR_DIRECTORY_ENTRY_UPPER_BOUND_BYTES))
       (\<lambda>rows. ok_or (ParityMapParse ''parity-map payload byte bound overflows u64'')
          (checked_add PARITY_MAP_CBOR_FIXED_UPPER_BOUND_BYTES rows))"

section \<open>Reference, payload, header and footer\<close>

record ParityMapReference =
  pmr_tape_file_number :: u64
  pmr_block_count :: u64
  pmr_scope_tape_file_count :: u64
  pmr_scope_total_data_ordinals :: u64
  pmr_scope_highest_protected_ordinal :: u64
  pmr_is_final_directory :: bool
  pmr_payload_sha256 :: bytes
  pmr_canonical_map_digest :: bytes

definition ParityMapReference_validate :: "ParityMapReference \<Rightarrow> unit parity_result" where
  "ParityMapReference_validate r =
     (if pmr_block_count r = 0
      then Inl (ParityMapParse ''parity-map reference block_count must be non-zero'')
      else if pmr_scope_tape_file_count r = 0
      then Inl (ParityMapParse ''parity-map reference scope must include at least one tape file'')
      else if pmr_scope_highest_protected_ordinal r > pmr_scope_total_data_ordinals r
      then Inl (ParityMapParse ''parity-map reference highest protected ordinal exceeds total data ordinals'')
      else Inr ())"

record ParityMapPayload =
  pmp_tape_uuid :: bytes
  pmp_sequence :: u64
  pmp_directory :: SidecarEpochDirectory
  pmp_canonical_map_digest :: bytes
  pmp_writer_version :: "string option"
  pmp_write_timestamp :: "string option"

datatype ParityMapCopyKind = Primary | Tail

fun ParityMapCopyKind_to_u16 :: "ParityMapCopyKind \<Rightarrow> u16" where
  "ParityMapCopyKind_to_u16 Primary = 1"
| "ParityMapCopyKind_to_u16 Tail = 2"

definition ParityMapCopyKind_from_u16 :: "u16 \<Rightarrow> ParityMapCopyKind parity_result" where
  "ParityMapCopyKind_from_u16 v =
     (if v = 1 then Inr Primary else if v = 2 then Inr Tail
      else Inl (ParityMapParse ''unsupported parity-map copy kind: {value}''))"

text \<open>The locator fields that headers and footers share.\<close>

record ParityMapLocator =
  pml_magic :: bytes
  pml_tape_uuid :: bytes
  pml_sequence :: u64
  pml_block_size :: u32
  pml_payload_len :: u64
  pml_payload_sha256 :: bytes
  pml_canonical_map_digest :: bytes
  pml_scope_tape_file_count :: u64
  pml_scope_total_data_ordinals :: u64
  pml_scope_highest_protected_ordinal :: u64
  pml_is_final_directory :: bool
  pml_copy_block_count :: u64
  pml_total_block_count :: u64
  pml_primary_copy_start_block :: u64
  pml_tail_copy_start_block :: u64
  pml_footer_block_index :: u64

record ParityMapHeader = ParityMapLocator +
  pmh_schema_version :: u16
  pmh_copy_kind :: ParityMapCopyKind
  pmh_header_crc64 :: u64

record ParityMapFooter = ParityMapLocator +
  pmf_footer_version :: u16
  pmf_footer_crc64 :: u64

record DecodedParityMapTapeFile =
  decoded_header :: ParityMapHeader
  decoded_payload :: ParityMapPayload
  decoded_payload_bytes :: bytes

section \<open>A validated directory partitions the protected ordinals\<close>

lemma validate_directory_entry_Inr:
  "validate_directory_entry d (prev, start) (i, e) = Inr (prev', start') \<longleftrightarrow>
     sde_tape_file_number e < directory_scope_tape_file_count d \<and>
     (\<forall>p. prev = Some p \<longrightarrow> p < sde_tape_file_number e) \<and>
     sde_protected_ordinal_start e < sde_protected_ordinal_end_exclusive e \<and>
     sde_protected_ordinal_start e = start \<and> sde_epoch_id e = word_of_nat i \<and>
     sde_sidecar_total_block_count e \<noteq> 0 \<and> sde_sidecar_header_block_count e \<noteq> 0 \<and>
     sde_parity_shard_block_count e \<noteq> 0 \<and> sde_flags e AND NOT KNOWN_DIRECTORY_FLAGS = 0 \<and>
     prev' = Some (sde_tape_file_number e) \<and> start' = sde_protected_ordinal_end_exclusive e"
  by (auto simp: validate_directory_entry_def split: option.splits)

definition covers :: "SidecarEpochDirectoryEntry \<Rightarrow> u64 \<Rightarrow> bool" where
  "covers e ordinal \<longleftrightarrow>
     sde_protected_ordinal_start e \<le> ordinal \<and> ordinal < sde_protected_ordinal_end_exclusive e"

lemma directory_fold_bounds:
  assumes "try_fold (validate_directory_entry d) (prev, start) (enumerate n es) = Inr (prev', fin)"
  shows "start \<le> fin"
    and "\<forall>e \<in> set es. covers e ord \<longrightarrow> start \<le> ord \<and> ord < fin"
    and "\<forall>i < length es. sde_epoch_id (es ! i) = word_of_nat (n + i)"
    and "\<forall>e \<in> set es. sde_tape_file_number e < directory_scope_tape_file_count d"
  using assms
proof (induction es arbitrary: prev start n)
  case (Cons e es)
  { case 1 then show ?case
      using Cons.IH(1) by (fastforce simp: validate_directory_entry_Inr) }
  { case 2 then show ?case
      using Cons.IH(1,2) by (fastforce simp: validate_directory_entry_Inr covers_def) }
  { case 3 then show ?case
      using Cons.IH(3) by (fastforce simp: validate_directory_entry_Inr nth_Cons split: nat.splits) }
  { case 4 then show ?case
      using Cons.IH(4) by (fastforce simp: validate_directory_entry_Inr) }
qed simp_all

lemma directory_fold_unique:
  assumes "try_fold (validate_directory_entry d) (prev, start) (enumerate n es) = Inr (prev', fin)"
    and "start \<le> ord" "ord < fin"
  shows "\<exists>!i. i < length es \<and> covers (es ! i) ord"
  using assms
proof (induction es arbitrary: prev start n)
  case (Cons e es)
  let ?next = "sde_protected_ordinal_end_exclusive e"
  from Cons.prems(1) have start: "sde_protected_ordinal_start e = start"
    and rest: "try_fold (validate_directory_entry d) (Some (sde_tape_file_number e), ?next)
                 (enumerate (Suc n) es) = Inr (prev', fin)"
    by (auto simp: validate_directory_entry_Inr)
  show ?case
  proof (cases "ord < ?next")
    case True
    then have "\<not> covers x ord" if "x \<in> set es" for x
      using directory_fold_bounds(2) [OF rest, of ord] that by auto
    then have "i = 0" if "i < length (e # es)" "covers ((e # es) ! i) ord" for i
      using that by (cases i) auto
    moreover have "covers e ord"
      using True start Cons.prems(2) by (simp add: covers_def)
    ultimately show ?thesis by (intro ex1I [of _ 0]) auto
  next
    case False
    then have no: "\<not> covers e ord" by (simp add: covers_def)
    from Cons.IH [OF rest] False Cons.prems(3)
    obtain i where i: "i < length es" "covers (es ! i) ord"
      and uniq: "\<And>j. j < length es \<Longrightarrow> covers (es ! j) ord \<Longrightarrow> j = i"
      by (auto simp: not_less)
    have "j = Suc i" if "j < length (e # es)" "covers ((e # es) ! j) ord" for j
      using that no uniq by (cases j) auto
    with i show ?thesis by (intro ex1I [of _ "Suc i"]) auto
  qed
qed simp

lemma directory_fold_ascending:
  assumes "try_fold (validate_directory_entry d) (prev, start) (enumerate n es) = Inr r"
  shows "sorted_wrt (<) (map sde_tape_file_number es) \<and>
    (\<forall>p. prev = Some p \<longrightarrow> (\<forall>e \<in> set es. p < sde_tape_file_number e))"
  using assms
proof (induction es arbitrary: prev start n)
  case (Cons e es)
  obtain p' fin where r: "r = (p', fin)" by (cases r)
  from Cons.prems have rest: "try_fold (validate_directory_entry d)
        (Some (sde_tape_file_number e), sde_protected_ordinal_end_exclusive e)
        (enumerate (Suc n) es) = Inr r"
    and lt: "\<forall>p. prev = Some p \<longrightarrow> p < sde_tape_file_number e"
    by (auto simp: r validate_directory_entry_Inr)
  from Cons.IH [OF rest] lt show ?case by (auto intro: order_less_trans)
qed simp

lemma SidecarEpochDirectory_validate_Inr:
  "SidecarEpochDirectory_validate d = Inr u \<longleftrightarrow>
     directory_scope_highest_protected_ordinal d \<le> directory_scope_total_data_ordinals d \<and>
     (\<exists>prev. try_fold (validate_directory_entry d) (None, 0) (enumerate 0 (directory_entries d))
        = Inr (prev, directory_scope_highest_protected_ordinal d))"
  by (auto simp: SidecarEpochDirectory_validate_def split: if_splits)

definition two_epoch_directory :: SidecarEpochDirectory where
  "two_epoch_directory =
     \<lparr>directory_scope_tape_file_count = 6, directory_scope_total_data_ordinals = 20,
      directory_scope_highest_protected_ordinal = 15, is_final_directory = True,
      directory_entries =
        [\<lparr>sde_tape_file_number = 2, sde_epoch_id = 0, sde_protected_ordinal_start = 0,
          sde_protected_ordinal_end_exclusive = 12, sde_sidecar_total_block_count = 9,
          sde_sidecar_header_block_count = 1, sde_parity_shard_block_count = 6,
          sde_canonical_metadata_hash = replicate 32 7, sde_flags = 6\<rparr>,
         \<lparr>sde_tape_file_number = 4, sde_epoch_id = 1, sde_protected_ordinal_start = 12,
          sde_protected_ordinal_end_exclusive = 15, sde_sidecar_total_block_count = 9,
          sde_sidecar_header_block_count = 1, sde_parity_shard_block_count = 6,
          sde_canonical_metadata_hash = replicate 32 8, sde_flags = 7\<rparr>]\<rparr>"

lemma two_epoch_directory_valid: "SidecarEpochDirectory_validate two_epoch_directory = Inr ()"
  by code_simp

text \<open>C19: A sidecar epoch directory that passes validation partitions the protected ordinals:
  every ordinal below the protection watermark lies in the protected range of exactly one entry,
  no entry protects an ordinal at or above the watermark, the watermark is within the data, the
  epoch ids count up from zero, and the sidecars appear in strictly ascending tape-file order
  inside the directory's scope.\<close>

theorem directory_partitions_ordinals:
  assumes "SidecarEpochDirectory_validate d = Inr ()"
  shows "(ordinal < directory_scope_highest_protected_ordinal d \<longrightarrow>
          (\<exists>!i. i < length (directory_entries d) \<and> covers (directory_entries d ! i) ordinal))
    \<and> (\<forall>e \<in> set (directory_entries d). covers e ordinal \<longrightarrow>
          ordinal < directory_scope_highest_protected_ordinal d)
    \<and> directory_scope_highest_protected_ordinal d \<le> directory_scope_total_data_ordinals d
    \<and> (\<forall>i < length (directory_entries d).
          sde_epoch_id (directory_entries d ! i) = word_of_nat i)
    \<and> sorted_wrt (<) (map sde_tape_file_number (directory_entries d))
    \<and> (\<forall>e \<in> set (directory_entries d).
          sde_tape_file_number e < directory_scope_tape_file_count d)"
proof -
  from assms obtain prev
    where run: "try_fold (validate_directory_entry d) (None, 0) (enumerate 0 (directory_entries d))
        = Inr (prev, directory_scope_highest_protected_ordinal d)"
      and le: "directory_scope_highest_protected_ordinal d \<le> directory_scope_total_data_ordinals d"
    by (auto simp: SidecarEpochDirectory_validate_Inr)
  show ?thesis
    using le directory_fold_unique [OF run, of ordinal] directory_fold_bounds(2-4) [OF run]
      directory_fold_ascending [OF run] by simp
qed

theorem directory_partitions_ordinals_witness:
  "SidecarEpochDirectory_validate two_epoch_directory = Inr () \<and>
   (\<exists>!i. i < length (directory_entries two_epoch_directory) \<and>
      covers (directory_entries two_epoch_directory ! i) 12)"
proof -
  have "12 < directory_scope_highest_protected_ordinal two_epoch_directory"
    by code_simp
  then show ?thesis
    using directory_partitions_ordinals [OF two_epoch_directory_valid, of 12]
      two_epoch_directory_valid by blast
qed

end
