(* ===== verification/ByteBlocks.thy ===== *)
theory ByteBlocks
  imports Prelude
begin

text \<open>
  Fixed-layout byte buffers: the little- and big-endian conversions of the Rust integer types,
  \<open>buf[a..b]\<close> as \<open>slice\<close>, and \<open>buf[a..b].copy_from_slice(x)\<close> as \<open>copy_at\<close>, with the laws by which
  a field that was copied in is read back and the other fields are left alone.
\<close>

named_theorems buffer_simps \<open>reading fields out of a fixed-layout buffer\<close>

section \<open>Endian conversions\<close>

primrec le_bytes :: "nat \<Rightarrow> 'a::len word \<Rightarrow> bytes" where
  "le_bytes 0 w = []"
| "le_bytes (Suc n) w = ucast w # le_bytes n (drop_bit 8 w)"

fun le_word :: "bytes \<Rightarrow> 'a::len word" where
  "le_word [] = 0"
| "le_word (b # bs) = ucast b OR push_bit 8 (le_word bs)"

definition be_bytes :: "nat \<Rightarrow> 'a::len word \<Rightarrow> bytes" where
  "be_bytes n w = rev (le_bytes n w)"

definition be_word :: "bytes \<Rightarrow> 'a::len word" where
  "be_word bs = le_word (rev bs)"

lemma length_le_bytes [simp]: "length (le_bytes n w) = n"
  by (induction n arbitrary: w) simp_all

lemma length_be_bytes [simp]: "length (be_bytes n w) = n"
  by (simp add: be_bytes_def)

lemma ucast_low_byte: "ucast (ucast w :: u8) = take_bit 8 w" for w :: "'a::len word"
  by (rule bit_word_eqI) (auto simp: bit_simps)

lemma le_word_le_bytes: "le_word (le_bytes n w) = take_bit (8 * n) w"
proof (induction n arbitrary: w)
  case (Suc n)
  show ?case
    by (simp add: Suc ucast_low_byte) (rule bit_word_eqI, auto simp: bit_simps)
qed simp

lemma be_word_be_bytes: "be_word (be_bytes n w) = take_bit (8 * n) w"
  by (simp add: be_word_def be_bytes_def le_word_le_bytes)

lemma take_bit_all: "LENGTH('a) \<le> n \<Longrightarrow> take_bit n w = w" for w :: "'a::len word"
  by (rule bit_word_eqI) (auto simp: bit_simps)

lemma le_word_le_bytes_full [buffer_simps]:
  "le_word (le_bytes 2 (a :: u16)) = a" "le_word (le_bytes 4 (b :: u32)) = b"
  "le_word (le_bytes 8 (c :: u64)) = c"
  by (simp_all add: le_word_le_bytes take_bit_all)

section \<open>Slices\<close>

definition slice :: "nat \<Rightarrow> nat \<Rightarrow> 'a list \<Rightarrow> 'a list" where
  "slice off n buf = take n (drop off buf)"

definition copy_at :: "nat \<Rightarrow> 'a list \<Rightarrow> 'a list \<Rightarrow> 'a list" where
  "copy_at off bs buf = take off buf @ bs @ drop (off + length bs) buf"

lemma length_of_slice [simp]: "length (slice off n buf) = min n (length buf - off)"
  by (simp add: slice_def)

lemma length_copy_at [simp]: "off + length bs \<le> length buf \<Longrightarrow> length (copy_at off bs buf) = length buf"
  by (simp add: copy_at_def)

lemma nth_copy_at: "off + length bs \<le> length buf \<Longrightarrow> i < length buf \<Longrightarrow>
    copy_at off bs buf ! i = (if off \<le> i \<and> i < off + length bs then bs ! (i - off) else buf ! i)"
  by (auto simp: copy_at_def nth_append min_def)

lemma slice_copy_same [buffer_simps]:
  "off + n \<le> length buf \<Longrightarrow> length bs = n \<Longrightarrow> slice off n (copy_at off bs buf) = bs"
  by (simp add: slice_def copy_at_def)

lemma slice_copy_other [buffer_simps]:
  assumes "off' + length bs \<le> length buf" "off + n \<le> off' \<or> off' + length bs \<le> off"
  shows "slice off n (copy_at off' bs buf) = slice off n buf"
  using assms by (intro nth_equalityI) (auto simp: slice_def nth_copy_at)

lemma nth_copy_other [buffer_simps]:
  "off' + length bs \<le> length buf \<Longrightarrow> i < length buf \<Longrightarrow> i < off' \<or> off' + length bs \<le> i \<Longrightarrow>
    copy_at off' bs buf ! i = buf ! i"
  by (auto simp: nth_copy_at)

lemma slice_replicate [simp]: "slice off n (replicate m x) = replicate (min n (m - off)) x"
  by (simp add: slice_def)

lemma nth_of_slice: "off + n \<le> length buf \<Longrightarrow> i < n \<Longrightarrow> slice off n buf ! i = buf ! (off + i)"
  by (simp add: slice_def)

lemma slice_drop: "slice off n (drop m buf) = slice (m + off) n buf"
  by (simp add: slice_def add.commute)

lemma take_copy_after: "n \<le> off \<Longrightarrow> off \<le> length buf \<Longrightarrow> take n (copy_at off bs buf) = take n buf"
  by (simp add: copy_at_def)

lemma drop_copy_before:
  "off + length bs \<le> n \<Longrightarrow> n \<le> length buf \<Longrightarrow> drop n (copy_at off bs buf) = drop n buf"
  by (simp add: copy_at_def)

lemma take_eq_slice: "take n buf = slice 0 n buf"
  by (simp add: slice_def)

lemma slice_take: "off + n \<le> m \<Longrightarrow> slice off n (take m buf) = slice off n buf"
  by (simp add: slice_def drop_take min_def)

section \<open>Fields of a block\<close>

text \<open>A sequence of \<open>block[a..b].copy_from_slice(x)\<close> statements, as offsets with their bytes.\<close>

definition write_fields :: "(nat \<times> bytes) list \<Rightarrow> bytes \<Rightarrow> bytes" where
  "write_fields fs block = foldl (\<lambda>b (offset, bs). copy_at offset bs b) block fs"

fun fields_fit :: "nat \<Rightarrow> nat \<Rightarrow> (nat \<times> bytes) list \<Rightarrow> bool" where
  "fields_fit lo hi [] \<longleftrightarrow> lo \<le> hi"
| "fields_fit lo hi ((off, bs) # fs) \<longleftrightarrow> lo \<le> off \<and> fields_fit (off + length bs) hi fs"

definition carries :: "bytes \<Rightarrow> (nat \<times> bytes) list \<Rightarrow> bool" where
  "carries block fs \<longleftrightarrow> list_all (\<lambda>(off, bs). slice off (length bs) block = bs) fs"

lemma slice_prefix: "take n a = take n b \<Longrightarrow> off + len \<le> n \<Longrightarrow> slice off len a = slice off len b"
  by (metis slice_take)

lemma fields_fit_le: "fields_fit lo hi fs \<Longrightarrow> lo \<le> hi"
  by (induction lo hi fs rule: fields_fit.induct) auto

lemma write_fields_Cons [simp]:
  "write_fields ((off, bs) # fs) block = write_fields fs (copy_at off bs block)"
  "write_fields [] block = block"
  by (simp_all add: write_fields_def)

lemma length_write_fields [simp]:
  "fields_fit lo hi fs \<Longrightarrow> hi \<le> length block \<Longrightarrow> length (write_fields fs block) = length block"
proof (induction lo hi fs arbitrary: block rule: fields_fit.induct)
  case (2 lo hi off bs fs)
  then show ?case using fields_fit_le [of "off + length bs" hi fs] by simp
qed simp

lemma slice_write_fields_outside:
  "fields_fit lo hi fs \<Longrightarrow> hi \<le> length block \<Longrightarrow> off + n \<le> lo \<or> hi \<le> off \<Longrightarrow>
    slice off n (write_fields fs block) = slice off n block"
proof (induction lo hi fs arbitrary: block rule: fields_fit.induct)
  case (2 lo hi off' bs fs)
  then show ?case
    using fields_fit_le [of "off' + length bs" hi fs] by (auto simp: slice_copy_other)
qed simp

lemma slice_write_fields_gap:
  "fields_fit lo hi fs \<Longrightarrow> hi \<le> length block \<Longrightarrow>
    list_all (\<lambda>(off', bs). off + n \<le> off' \<or> off' + length bs \<le> off) fs \<Longrightarrow>
    slice off n (write_fields fs block) = slice off n block"
proof (induction lo hi fs arbitrary: block rule: fields_fit.induct)
  case (2 lo hi off' bs fs)
  then show ?case
    using fields_fit_le [of "off' + length bs" hi fs] by (auto simp: slice_copy_other)
qed simp

lemma carries_write_fields:
  "fields_fit lo hi fs \<Longrightarrow> hi \<le> length block \<Longrightarrow> carries (write_fields fs block) fs"
proof (induction lo hi fs arbitrary: block rule: fields_fit.induct)
  case (2 lo hi off bs fs)
  then have fit: "fields_fit (off + length bs) hi fs" "off + length bs \<le> hi"
    using fields_fit_le by auto
  then have "slice off (length bs) (write_fields fs (copy_at off bs block)) = bs"
    using 2(3) slice_write_fields_outside [OF fit(1), of "copy_at off bs block" off "length bs"]
    by (simp add: slice_copy_same)
  then show ?case using 2(1) [OF fit(1), of "copy_at off bs block"] 2(3) fit(2)
    by (simp add: carries_def)
qed (simp add: carries_def)

lemma fields_fit_bound: "fields_fit lo hi fs \<Longrightarrow> (off, bs) \<in> set fs \<Longrightarrow> off + length bs \<le> hi"
proof (induction lo hi fs rule: fields_fit.induct)
  case (2 lo hi off' bs' fs)
  then show ?case using fields_fit_le [of "off' + length bs'" hi fs] by auto
qed simp

lemma carries_prefix:
  assumes "carries block fs" "fields_fit lo hi fs" "take hi block' = take hi block"
  shows "carries block' fs"
proof -
  have "slice off (length bs) block' = bs" if f: "(off, bs) \<in> set fs" for off bs
  proof -
    have "slice off (length bs) (take hi block') = slice off (length bs) (take hi block)"
      by (simp add: assms(3))
    moreover have "slice off (length bs) block = bs"
      using assms(1) f by (auto simp: carries_def list_all_iff)
    ultimately show ?thesis
      using fields_fit_bound [OF assms(2) f] by (simp add: slice_take)
  qed
  then show ?thesis by (auto simp: carries_def list_all_iff)
qed

end
