(* ===== verification/Cbor.thy ===== *)
theory Cbor
  imports ByteBlocks "HOL-Library.List_Lexorder" "HOL-Library.Product_Lexorder"
begin

text \<open>
  Canonical CBOR, from \<open>crates/remanence-parity/src/cbor.rs\<close>: the tracker for the integer keys of
  a map, the check of the permitted shapes, and the decoder that accepts exactly one encoding of
  each value. The CBOR reader and writer are the third-party crate ciborium; they are arguments
  of the definitions, and the locale \<open>ciborium\<close> states what the code relies on: on values of the
  permitted fragment the writer emits the shortest-form encoding of RFC 8949, and the reader
  returns the value that such an encoding starts with together with the number of bytes it read.
  The encoder and decoder of RFC 8949 below are the reference that the locale is stated and
  interpreted with.

  A Rust \<open>String\<close> is its sequence of UTF-8 bytes, one \<open>char\<close> per byte. A ciborium integer is
  an \<open>int\<close> between $-2^{64}$ and $2^{64} - 1$ (\<open>cbor_wf\<close>). The catch-all arm of the shape check is
  for variants that the value type does not have yet.
\<close>

section \<open>Values\<close>

datatype CborValue =
    Integer int
  | Bytes bytes
  | Text string
  | Bool bool
  | Null
  | Array "CborValue list"
  | Map "(CborValue \<times> CborValue) list"
  | Float u64
  | Tag u64 CborValue

section \<open>Integer map keys\<close>

definition deterministic_integer_encoding :: "int \<Rightarrow> bytes" where
  "deterministic_integer_encoding value =
     (let (major, argument) = (if value \<ge> 0 then (0 :: u8, word_of_int value :: u64)
                               else (1, word_of_int (- 1 - value)));
          initial = push_bit 5 major
      in if argument \<le> 23 then [initial OR ucast argument]
         else if argument \<le> 0xff then [initial OR 24, ucast argument]
         else if argument \<le> 0xffff then (initial OR 25) # be_bytes 2 (ucast argument :: u16)
         else if argument \<le> 0xffffffff then (initial OR 26) # be_bytes 4 (ucast argument :: u32)
         else (initial OR 27) # be_bytes 8 argument)"

record IntegerMapKeyTracker =
  previous :: "(int \<times> bytes) option"
  seen :: "int set"

definition IntegerMapKeyTracker_default :: IntegerMapKeyTracker where
  "IntegerMapKeyTracker_default = \<lparr>previous = None, seen = {}\<rparr>"

fun IntegerMapKeyTracker_next ::
  "IntegerMapKeyTracker \<Rightarrow> CborValue \<Rightarrow> string + (int \<times> IntegerMapKeyTracker)" where
  "IntegerMapKeyTracker_next t (Integer key) =
     (if key \<in> seen t then Inl ''{context} contains duplicate CBOR map key {key}''
      else
        let encoded = deterministic_integer_encoding key
        in if (case previous t of
                 None \<Rightarrow> False
               | Some (_, previous_encoded) \<Rightarrow>
                   (length encoded, encoded) \<le> (length previous_encoded, previous_encoded))
           then Inl ''{context} CBOR map key {key} is not in deterministic order after key {previous}''
           else Inr (key, \<lparr>previous = Some (key, encoded), seen = insert key (seen t)\<rparr>))"
| "IntegerMapKeyTracker_next t _ = Inl ''{context} contains non-integer CBOR map key''"

section \<open>Shape and canonical decoding\<close>

fun validate_canonical_cbor_shape :: "CborValue \<Rightarrow> string + unit"
  and validate_shape_values :: "CborValue list \<Rightarrow> string + unit"
  and validate_shape_entries ::
    "IntegerMapKeyTracker \<Rightarrow> (CborValue \<times> CborValue) list \<Rightarrow> string + unit" where
  "validate_canonical_cbor_shape (Array values) = validate_shape_values values"
| "validate_canonical_cbor_shape (Map entries) =
     validate_shape_entries IntegerMapKeyTracker_default entries"
| "validate_canonical_cbor_shape (Float _) = Inl ''{label} contains a forbidden CBOR float''"
| "validate_canonical_cbor_shape (Tag _ _) = Inl ''{label} contains a forbidden CBOR tag''"
| "validate_canonical_cbor_shape _ = Inr ()"
| "validate_shape_values [] = Inr ()"
| "validate_shape_values (v # vs) =
     rbind (validate_canonical_cbor_shape v) (\<lambda>_. validate_shape_values vs)"
| "validate_shape_entries t [] = Inr ()"
| "validate_shape_entries t ((key, v) # entries) =
     rbind (IntegerMapKeyTracker_next t key) (\<lambda>(_, t').
       rbind (validate_canonical_cbor_shape v) (\<lambda>_. validate_shape_entries t' entries))"

text \<open>\<open>from_reader\<close> returns the value and the reader's position after it.\<close>

type_synonym cbor_writer = "CborValue \<Rightarrow> string + bytes"
type_synonym cbor_reader = "bytes \<Rightarrow> string + (CborValue \<times> nat)"

definition decode_canonical_cbor_value ::
  "cbor_writer \<Rightarrow> cbor_reader \<Rightarrow> bytes \<Rightarrow> string + CborValue" where
  "decode_canonical_cbor_value into_writer from_reader bs =
     rbind (map_err (\<lambda>_. ''{context} CBOR decode failed: {error}'') (from_reader bs))
       (\<lambda>(value, position).
         if position \<noteq> length bs
         then Inl ''{context} CBOR consumed {} of {} encoded bytes''
         else rbind (validate_canonical_cbor_shape value) (\<lambda>_.
           rbind (map_err (\<lambda>_. ''{context} CBOR re-encode failed: {error}'') (into_writer value))
             (\<lambda>canonical.
               if canonical \<noteq> bs
               then Inl ''{context} CBOR is not the deterministic canonical encoding''
               else Inr value)))"

section \<open>The encoding of RFC 8949\<close>

definition cbor_head :: "u8 \<Rightarrow> u64 \<Rightarrow> bytes" where
  "cbor_head major argument =
     (let initial = push_bit 5 major
      in if argument < 24 then [initial OR ucast argument]
         else if argument < 2 ^ 8 then (initial OR 24) # be_bytes 1 argument
         else if argument < 2 ^ 16 then (initial OR 25) # be_bytes 2 argument
         else if argument < 2 ^ 32 then (initial OR 26) # be_bytes 4 argument
         else (initial OR 27) # be_bytes 8 argument)"

fun cbor_encode :: "CborValue \<Rightarrow> bytes" where
  "cbor_encode (Integer i) =
     (if i \<ge> 0 then cbor_head 0 (word_of_int i) else cbor_head 1 (word_of_int (- 1 - i)))"
| "cbor_encode (Bytes bs) = cbor_head 2 (word_of_nat (length bs)) @ bs"
| "cbor_encode (Text s) = cbor_head 3 (word_of_nat (length s)) @ map of_char s"
| "cbor_encode (Array vs) = cbor_head 4 (word_of_nat (length vs)) @ concat (map cbor_encode vs)"
| "cbor_encode (Map kvs) =
     cbor_head 5 (word_of_nat (length kvs))
       @ concat (map (\<lambda>(k, v). cbor_encode k @ cbor_encode v) kvs)"
| "cbor_encode (Tag t v) = cbor_head 6 t @ cbor_encode v"
| "cbor_encode (Bool b) = [if b then 0xf5 else 0xf4]"
| "cbor_encode Null = [0xf6]"
| "cbor_encode (Float bits) = 0xfb # be_bytes 8 bits"

text \<open>The values that the contract below is about: no floats and no tags, lengths and integers
  that a head can carry, and ASCII text, which is valid UTF-8. Then the bound on nesting.\<close>

fun cbor_wf :: "CborValue \<Rightarrow> bool" where
  "cbor_wf (Integer i) \<longleftrightarrow> - (2 ^ 64) \<le> i \<and> i < 2 ^ 64"
| "cbor_wf (Bytes bs) \<longleftrightarrow> int (length bs) < 2 ^ 64"
| "cbor_wf (Text s) \<longleftrightarrow> int (length s) < 2 ^ 64 \<and> list_all (\<lambda>c. of_char c < (128 :: nat)) s"
| "cbor_wf (Array vs) \<longleftrightarrow> int (length vs) < 2 ^ 64 \<and> list_all cbor_wf vs"
| "cbor_wf (Map kvs) \<longleftrightarrow>
     int (length kvs) < 2 ^ 64 \<and> list_all (\<lambda>(k, v). cbor_wf k \<and> cbor_wf v) kvs"
| "cbor_wf (Bool _) \<longleftrightarrow> True"
| "cbor_wf Null \<longleftrightarrow> True"
| "cbor_wf _ \<longleftrightarrow> False"

fun cbor_depth_within :: "nat \<Rightarrow> CborValue \<Rightarrow> bool" where
  "cbor_depth_within d (Array vs) \<longleftrightarrow>
     (case d of 0 \<Rightarrow> False | Suc d' \<Rightarrow> list_all (cbor_depth_within d') vs)"
| "cbor_depth_within d (Map kvs) \<longleftrightarrow>
     (case d of 0 \<Rightarrow> False
      | Suc d' \<Rightarrow> list_all (\<lambda>(k, v). cbor_depth_within d' k \<and> cbor_depth_within d' v) kvs)"
| "cbor_depth_within d (Tag _ v) \<longleftrightarrow> (case d of 0 \<Rightarrow> False | Suc d' \<Rightarrow> cbor_depth_within d' v)"
| "cbor_depth_within d _ \<longleftrightarrow> True"

section \<open>The decoding of RFC 8949\<close>

definition take_exact :: "nat \<Rightarrow> 'a list \<Rightarrow> ('a list \<times> 'a list) option" where
  "take_exact n xs = (if n \<le> length xs then Some (take n xs, drop n xs) else None)"

definition cbor_argument :: "u8 \<Rightarrow> bytes \<Rightarrow> (u64 \<times> bytes) option" where
  "cbor_argument info bs =
     (if info < 24 then Some (ucast info, bs)
      else if info > 27 then None
      else map_option (\<lambda>(arg, rest). (be_word arg, rest))
             (take_exact (if info = 24 then 1 else if info = 25 then 2 else if info = 26 then 4
                          else 8) bs))"

primrec repeat_parse ::
  "nat \<Rightarrow> (bytes \<Rightarrow> ('a \<times> bytes) option) \<Rightarrow> bytes \<Rightarrow> ('a list \<times> bytes) option" where
  "repeat_parse 0 p bs = Some ([], bs)"
| "repeat_parse (Suc n) p bs =
     (case p bs of None \<Rightarrow> None
      | Some (x, rest) \<Rightarrow> map_option (\<lambda>(xs, rest'). (x # xs, rest')) (repeat_parse n p rest))"

definition pair_parse ::
  "(bytes \<Rightarrow> ('a \<times> bytes) option) \<Rightarrow> bytes \<Rightarrow> (('a \<times> 'a) \<times> bytes) option" where
  "pair_parse p bs =
     (case p bs of None \<Rightarrow> None
      | Some (k, rest) \<Rightarrow> map_option (\<lambda>(v, rest'). ((k, v), rest')) (p rest))"

definition cbor_body ::
  "(bytes \<Rightarrow> (CborValue \<times> bytes) option) \<Rightarrow> u8 \<Rightarrow> u64 \<Rightarrow> bytes \<Rightarrow> (CborValue \<times> bytes) option" where
  "cbor_body decode major arg rest =
     (if major = 0 then Some (Integer (uint arg), rest)
      else if major = 1 then Some (Integer (- 1 - uint arg), rest)
      else if major = 2 then map_option (\<lambda>(x, r). (Bytes x, r)) (take_exact (unat arg) rest)
      else if major = 3
      then map_option (\<lambda>(x, r). (Text (map (\<lambda>b. char_of (unat b)) x), r))
             (take_exact (unat arg) rest)
      else if major = 4
      then map_option (\<lambda>(x, r). (Array x, r)) (repeat_parse (unat arg) decode rest)
      else if major = 5
      then map_option (\<lambda>(x, r). (Map x, r)) (repeat_parse (unat arg) (pair_parse decode) rest)
      else if major = 6 then map_option (\<lambda>(x, r). (Tag arg x, r)) (decode rest)
      else None)"

primrec cbor_decode :: "nat \<Rightarrow> bytes \<Rightarrow> (CborValue \<times> bytes) option" where
  "cbor_decode 0 bs = None"
| "cbor_decode (Suc d) bs =
     (case bs of [] \<Rightarrow> None
      | b # tail \<Rightarrow>
          if b = 0xf4 then Some (Bool False, tail)
          else if b = 0xf5 then Some (Bool True, tail)
          else if b = 0xf6 then Some (Null, tail)
          else (case cbor_argument (take_bit 5 b) tail of None \<Rightarrow> None
                | Some (arg, rest) \<Rightarrow> cbor_body (cbor_decode d) (drop_bit 5 b) arg rest))"

section \<open>The contract of the CBOR reader and writer\<close>

text \<open>Nesting is bounded by half of the recursion limit that the reader documents.\<close>

abbreviation cbor_nesting :: nat where
  "cbor_nesting \<equiv> 128"

locale ciborium =
  fixes into_writer :: cbor_writer
    and from_reader :: cbor_reader
  assumes into_writer_deterministic:
      "cbor_wf v \<Longrightarrow> into_writer v = Inr (cbor_encode v)"
    and from_reader_inverse:
      "cbor_wf v \<Longrightarrow> cbor_depth_within cbor_nesting v \<Longrightarrow>
       from_reader (cbor_encode v @ rest) = Inr (v, length (cbor_encode v))"

definition reference_writer :: cbor_writer where
  "reference_writer v = Inr (cbor_encode v)"

definition reference_reader :: cbor_reader where
  "reference_reader bs =
     (case cbor_decode (Suc cbor_nesting) bs of
        None \<Rightarrow> Inl ''malformed''
      | Some (v, rest) \<Rightarrow> Inr (v, length bs - length rest))"

lemma take_bit_word_less: "w < 2 ^ k \<Longrightarrow> take_bit k w = w" for w :: "'a::len word"
  by (simp add: take_bit_eq_mod mod_word_less)

lemma word_bit_less: "w < 2 ^ k \<Longrightarrow> bit w n \<Longrightarrow> n < k" for w :: "'a::len word"
proof (rule ccontr)
  assume w: "w < 2 ^ k" "bit w n" "\<not> n < k"
  then have "take_bit k w = w"
    by (simp add: take_bit_word_less)
  with w(2,3) show False
    by (metis bit_take_bit_iff)
qed

lemma initial_byte:
  fixes m x :: u8
  assumes "m < 8" "x < 32"
  shows "drop_bit 5 (push_bit 5 m OR x) = m" "take_bit 5 (push_bit 5 m OR x) = x"
proof -
  have m: "bit m n \<Longrightarrow> n < 3" and x: "bit x n \<Longrightarrow> n < 5" for n
    using assms word_bit_less [of m 3] word_bit_less [of x 5] by simp_all
  show "drop_bit 5 (push_bit 5 m OR x) = m"
    by (rule bit_word_eqI) (use m x in \<open>fastforce simp: bit_simps\<close>)
  show "take_bit 5 (push_bit 5 m OR x) = x"
    by (rule bit_word_eqI) (use m x in \<open>fastforce simp: bit_simps\<close>)
qed

lemma cbor_head_shape:
  "\<exists>x tail. cbor_head m a = (push_bit 5 m OR x) # tail \<and> x < 32 \<and>
     cbor_argument x (tail @ rest) = Some (a, rest)"
proof -
  have be: "be_word (be_bytes k a) = a" if "a < 2 ^ (8 * k)" for k
    using that by (simp add: be_word_be_bytes take_bit_word_less)
  have be8: "be_word (be_bytes 8 a) = a"
    by (simp add: be_word_be_bytes take_bit_all)
  note defs = cbor_head_def cbor_argument_def take_exact_def
  consider "a < 24" | "\<not> a < 24" "a < 2 ^ 8" | "\<not> a < 24" "\<not> a < 2 ^ 8" "a < 2 ^ 16"
    | "\<not> a < 24" "\<not> a < 2 ^ 8" "\<not> a < 2 ^ 16" "a < 2 ^ 32"
    | "\<not> a < 24" "\<not> a < 2 ^ 8" "\<not> a < 2 ^ 16" "\<not> a < 2 ^ 32" by blast
  then show ?thesis
  proof cases
    case 1
    then have "unat a < 24" by (simp add: word_less_nat_alt)
    then have u: "unat (ucast a :: u8) = unat a" by (simp add: unat_ucast_down)
    then have "(ucast a :: u8) < 24" "(ucast a :: u8) < 32"
      using \<open>unat a < 24\<close> by (simp_all add: word_less_nat_alt)
    moreover have "ucast (ucast a :: u8) = a"
      using u by (intro word_eq_of_unat) (simp add: unat_ucast_up)
    ultimately show ?thesis
      using 1 by (intro exI [of _ "ucast a"] exI [of _ "[]"]) (simp add: defs)
  next
    case 2
    then show ?thesis
      using be [of 1] by (intro exI [of _ 24] exI [of _ "be_bytes 1 a"]) (simp add: defs)
  next
    case 3
    then show ?thesis
      using be [of 2] by (intro exI [of _ 25] exI [of _ "be_bytes 2 a"]) (simp add: defs)
  next
    case 4
    then show ?thesis
      using be [of 4] by (intro exI [of _ 26] exI [of _ "be_bytes 4 a"]) (simp add: defs)
  next
    case 5
    then show ?thesis
      using be8 by (intro exI [of _ 27] exI [of _ "be_bytes 8 a"]) (simp add: defs)
  qed
qed

lemma drop_bit_simple_bytes:
  "drop_bit 5 (0xf4 :: u8) = 7" "drop_bit 5 (0xf5 :: u8) = 7" "drop_bit 5 (0xf6 :: u8) = 7"
  by code_simp+

lemma cbor_head_read:
  assumes "m < 7"
  obtains b tail where "cbor_head m a = b # tail" "drop_bit 5 b = m"
    "cbor_argument (take_bit 5 b) (tail @ rest) = Some (a, rest)"
    "b \<noteq> 0xf4" "b \<noteq> 0xf5" "b \<noteq> 0xf6"
proof -
  obtain x tail where x: "cbor_head m a = (push_bit 5 m OR x) # tail" "x < 32"
      "cbor_argument x (tail @ rest) = Some (a, rest)"
    using cbor_head_shape [of m a rest] by blast
  have "m < 8" using assms by (rule order_less_trans) simp
  note b = initial_byte [OF this x(2)]
  have "push_bit 5 m OR x \<noteq> w" if "drop_bit 5 w = 7" for w
    using b(1) that assms by auto
  then have "push_bit 5 m OR x \<notin> {0xf4, 0xf5, 0xf6}"
    by (metis (no_types) drop_bit_simple_bytes insertE emptyE)
  then show thesis
    using that x b by simp
qed

lemma cbor_decode_head: "m < 7 \<Longrightarrow>
    cbor_decode (Suc d) (cbor_head m a @ rest) = cbor_body (cbor_decode d) m a rest"
  by (rule cbor_head_read [of m a rest]) auto

declare cbor_decode.simps(2) [simp del]

lemma repeat_parse_concat:
  "(\<And>x r. x \<in> set xs \<Longrightarrow> p (f x @ r) = Some (x, r)) \<Longrightarrow>
   repeat_parse (length xs) p (concat (map f xs) @ rest) = Some (xs, rest)"
  by (induction xs arbitrary: rest) simp_all

lemma take_exact_append [simp]: "length xs = n \<Longrightarrow> take_exact n (xs @ ys) = Some (xs, ys)"
  by (simp add: take_exact_def)

lemma unat_length_head: "int n < 2 ^ 64 \<Longrightarrow> unat (word_of_nat n :: u64) = n"
proof -
  assume "int n < 2 ^ 64"
  then have "n < 2 ^ LENGTH(64)"
    by (simp only: of_nat_less_iff [symmetric, where 'a = int] of_nat_power of_nat_numeral
        len_num1 len_bit0) simp
  then show ?thesis by (simp add: unsigned_of_nat take_bit_nat_eq_self_iff)
qed

lemma char_of_byte: "char_of (unat (of_char c :: u8)) = c"
proof -
  have "(of_char c :: u8) = word_of_nat (of_char c)" by (simp only: of_nat_of_char)
  also have "unat (word_of_nat (of_char c) :: u8) = of_char c"
    using nat_of_char_less_256 [of c]
    by (simp add: unsigned_of_nat take_bit_nat_eq_self_iff del: nat_of_char_less_256)
  finally show ?thesis by simp
qed

theorem cbor_decode_encode:
  "cbor_wf v \<Longrightarrow> cbor_depth_within d v \<Longrightarrow> cbor_decode (Suc d) (cbor_encode v @ rest) = Some (v, rest)"
proof (induction v arbitrary: d rest)
  case (Integer i)
  have "uint (word_of_int i :: u64) = i" if "0 \<le> i" "i < 2 ^ 64" for i
    using that by (simp add: uint_word_of_int)
  from this [of i] this [of "- 1 - i"] Integer.prems show ?case
    by (simp add: cbor_decode_head cbor_body_def)
next
  case (Bytes bs)
  then show ?case by (simp add: cbor_decode_head cbor_body_def unat_length_head)
next
  case (Text s)
  then show ?case
    by (simp add: cbor_decode_head cbor_body_def unat_length_head char_of_byte comp_def)
next
  case (Array vs)
  then obtain d' where d: "d = Suc d'" by (cases d) auto
  then have "cbor_decode (Suc d') (cbor_encode v @ r) = Some (v, r)" if "v \<in> set vs" for v r
    using Array that by (auto simp: list_all_iff)
  then show ?case
    using Array.prems by (simp add: d cbor_decode_head cbor_body_def unat_length_head
        repeat_parse_concat)
next
  case (Map kvs)
  then obtain d' where d: "d = Suc d'" by (cases d) auto
  have "cbor_decode (Suc d') (cbor_encode k @ r) = Some (k, r)"
    "cbor_decode (Suc d') (cbor_encode v @ r) = Some (v, r)" if "(k, v) \<in> set kvs" for k v r
    using Map.IH [OF that] Map.prems that
    by (fastforce simp: d list_all_iff)+
  then have "pair_parse (cbor_decode (Suc d')) ((\<lambda>(k, v). cbor_encode k @ cbor_encode v) kv @ r)
      = Some (kv, r)" if "kv \<in> set kvs" for kv r
    using that by (cases kv) (simp add: pair_parse_def)
  then show ?case
    using Map.prems by (simp add: d cbor_decode_head cbor_body_def unat_length_head
        repeat_parse_concat)
qed (simp_all add: cbor_decode.simps(2))

lemma cbor_encode_inject:
  assumes "cbor_wf v" "cbor_wf w" "cbor_depth_within d v" "cbor_depth_within d w"
  shows "cbor_encode v = cbor_encode w \<longleftrightarrow> v = w"
  using cbor_decode_encode [OF assms(1,3), of "[]"] cbor_decode_encode [OF assms(2,4), of "[]"]
  by (metis option.inject prod.inject)

interpretation rfc8949: ciborium reference_writer reference_reader
  by unfold_locales
    (simp add: reference_writer_def,
     simp only: reference_reader_def cbor_decode_encode option.case prod.case length_append
       add_diff_cancel_right')

section \<open>Canonical decoding\<close>

lemma decode_canonical_Inr:
  "decode_canonical_cbor_value W R bs = Inr v \<longleftrightarrow>
     R bs = Inr (v, length bs) \<and> validate_canonical_cbor_shape v = Inr () \<and> W v = Inr bs"
  by (auto simp: decode_canonical_cbor_value_def split: if_splits)

context ciborium
begin

lemma decode_canonical_encode:
  assumes "cbor_wf v" "cbor_depth_within cbor_nesting v"
  shows "decode_canonical_cbor_value into_writer from_reader (cbor_encode v) = Inr v \<longleftrightarrow>
    validate_canonical_cbor_shape v = Inr ()"
  using into_writer_deterministic [OF assms(1)] from_reader_inverse [OF assms, of "[]"]
  by (simp add: decode_canonical_Inr)

lemma decode_canonical_unique:
  "cbor_wf v \<Longrightarrow> decode_canonical_cbor_value into_writer from_reader bs = Inr v \<Longrightarrow>
    bs = cbor_encode v"
  by (simp add: decode_canonical_Inr into_writer_deterministic)

end

section \<open>Key order\<close>

definition key_rank :: "int \<Rightarrow> nat \<times> bytes" where
  "key_rank k = (length (deterministic_integer_encoding k), deterministic_integer_encoding k)"

fun tracker_bound :: "IntegerMapKeyTracker \<Rightarrow> int \<Rightarrow> bool" where
  "tracker_bound t k \<longleftrightarrow> (case previous t of None \<Rightarrow> True | Some (p, _) \<Rightarrow> key_rank p < key_rank k)"

definition tracker_ok :: "IntegerMapKeyTracker \<Rightarrow> bool" where
  "tracker_ok t \<longleftrightarrow>
     (case previous t of None \<Rightarrow> seen t = {}
      | Some (p, e) \<Rightarrow> e = deterministic_integer_encoding p \<and>
          (\<forall>s \<in> seen t. key_rank s \<le> key_rank p))"

lemma tracker_next_Inr:
  assumes "tracker_ok t"
  shows "IntegerMapKeyTracker_next t key = Inr (k, t') \<longleftrightarrow>
    key = Integer k \<and> tracker_bound t k \<and>
    t' = \<lparr>previous = Some (k, deterministic_integer_encoding k), seen = insert k (seen t)\<rparr>"
proof (cases key)
  case (Integer i)
  have "i \<notin> seen t" if "tracker_bound t i"
    using assms that by (fastforce simp: tracker_ok_def split: option.splits)
  with assms show ?thesis
    by (auto simp: Integer Let_def tracker_ok_def key_rank_def not_le split: option.splits if_splits)
qed auto

lemma tracker_next_ok:
  assumes "tracker_ok t" "IntegerMapKeyTracker_next t key = Inr (k, t')"
  shows "tracker_ok t'" "tracker_bound t' j \<longleftrightarrow> key_rank k < key_rank j"
  using assms
  by (auto simp: tracker_next_Inr tracker_ok_def split: option.splits intro: less_imp_le)

lemma tracker_bound_trans: "tracker_bound t k \<Longrightarrow> key_rank k < key_rank j \<Longrightarrow> tracker_bound t j"
  by (auto split: option.splits intro: less_trans)

lemma validate_shape_entries_Inr:
  "tracker_ok t \<Longrightarrow> validate_shape_entries t entries = Inr () \<longleftrightarrow>
    (\<exists>ks. map fst entries = map Integer ks \<and>
       sorted_wrt (\<lambda>a b. key_rank a < key_rank b) ks \<and> list_all (tracker_bound t) ks) \<and>
    list_all (\<lambda>v. validate_canonical_cbor_shape v = Inr ()) (map snd entries)"
proof (induction entries arbitrary: t)
  case (Cons entry entries)
  obtain key v where entry: "entry = (key, v)" by (cases entry)
  have step: "tracker_ok t'" "tracker_bound t' j \<longleftrightarrow> key_rank k < key_rank j"
    if "IntegerMapKeyTracker_next t key = Inr (k, t')" for k t' j
    using tracker_next_ok [OF Cons.prems that] by blast+
  have "validate_shape_entries t (entry # entries) = Inr () \<longleftrightarrow>
      (\<exists>k t'. IntegerMapKeyTracker_next t key = Inr (k, t') \<and>
         validate_canonical_cbor_shape v = Inr () \<and> validate_shape_entries t' entries = Inr ())"
    by (auto simp: entry)
  also have "\<dots> \<longleftrightarrow> (\<exists>k. key = Integer k \<and> tracker_bound t k \<and>
       (\<exists>ks. map fst entries = map Integer ks \<and>
          sorted_wrt (\<lambda>a b. key_rank a < key_rank b) ks \<and> list_all (\<lambda>j. key_rank k < key_rank j) ks)) \<and>
       validate_canonical_cbor_shape v = Inr () \<and>
       list_all (\<lambda>v. validate_canonical_cbor_shape v = Inr ()) (map snd entries)"
    (is "?run \<longleftrightarrow> (\<exists>k. key = Integer k \<and> tracker_bound t k \<and> ?keys k) \<and> ?shapes")
  proof -
    have run: "validate_shape_entries t' entries = Inr () \<longleftrightarrow> ?keys k \<and>
        list_all (\<lambda>v. validate_canonical_cbor_shape v = Inr ()) (map snd entries)"
      if "IntegerMapKeyTracker_next t key = Inr (k, t')" for k t'
      using Cons.IH [OF step(1) [OF that]] by (simp only: step(2) [OF that])
    have accepts: "(\<exists>t'. IntegerMapKeyTracker_next t key = Inr (k, t')) \<longleftrightarrow>
        key = Integer k \<and> tracker_bound t k" for k
      by (simp only: tracker_next_Inr [OF Cons.prems] ex_simps simp_thms)
    show ?thesis
    proof
      assume ?run
      then obtain k t' where "IntegerMapKeyTracker_next t key = Inr (k, t')"
        "validate_canonical_cbor_shape v = Inr ()" "validate_shape_entries t' entries = Inr ()"
        by (elim exE conjE)
      then show "(\<exists>k. key = Integer k \<and> tracker_bound t k \<and> ?keys k) \<and> ?shapes"
        using run accepts [of k] by blast
    next
      assume R: "(\<exists>k. key = Integer k \<and> tracker_bound t k \<and> ?keys k) \<and> ?shapes"
      then obtain k t' where "?keys k" "IntegerMapKeyTracker_next t key = Inr (k, t')"
        using accepts by blast
      with R run show ?run by blast
    qed
  qed
  also have "(\<exists>k. key = Integer k \<and> tracker_bound t k \<and> ?keys k) \<longleftrightarrow>
      (\<exists>ks. map fst (entry # entries) = map Integer ks \<and>
       sorted_wrt (\<lambda>a b. key_rank a < key_rank b) ks \<and> list_all (tracker_bound t) ks)"
    (is "?L \<longleftrightarrow> ?R")
  proof
    assume ?L
    then obtain k ks where "key = Integer k" "tracker_bound t k" "map fst entries = map Integer ks"
      "sorted_wrt (\<lambda>a b. key_rank a < key_rank b) ks" "list_all (\<lambda>j. key_rank k < key_rank j) ks"
      by blast
    then show ?R
      by (intro exI [of _ "k # ks"])
        (auto simp: entry list_all_iff simp del: tracker_bound.simps dest: tracker_bound_trans)
  next
    assume ?R
    then obtain k ks where "key = Integer k" "tracker_bound t k" "map fst entries = map Integer ks"
      "sorted_wrt (\<lambda>a b. key_rank a < key_rank b) (k # ks)"
      by (auto simp: entry Cons_eq_map_conv simp del: tracker_bound.simps)
    then show ?L by (auto simp: list_all_iff simp del: tracker_bound.simps)
  qed
  finally show ?case by (simp add: entry del: tracker_bound.simps)
qed simp

lemma tracker_ok_default: "tracker_ok IntegerMapKeyTracker_default"
  and tracker_bound_default: "tracker_bound IntegerMapKeyTracker_default k"
  by (simp_all add: tracker_ok_def IntegerMapKeyTracker_default_def)

lemma validate_shape_Map_Inr:
  "validate_canonical_cbor_shape (Map entries) = Inr () \<longleftrightarrow>
    (\<exists>ks. map fst entries = map Integer ks \<and> sorted_wrt (\<lambda>a b. key_rank a < key_rank b) ks) \<and>
    list_all (\<lambda>v. validate_canonical_cbor_shape v = Inr ()) (map snd entries)"
  using validate_shape_entries_Inr [OF tracker_ok_default]
  by (simp add: tracker_bound_default list_all_iff del: tracker_bound.simps)

text \<open>Big-endian encodings of one width are ordered as the numbers are.\<close>

lemma append_single_less:
  "length xs = length ys \<Longrightarrow> xs @ [a] < ys @ [b] \<longleftrightarrow> xs < ys \<or> xs = ys \<and> a < b"
  for a b :: "'a::linorder"
  by (induction xs ys rule: list_induct2) auto

lemma be_bytes_mono:
  fixes v w :: "'a::len word"
  assumes "v < w" "unat w < 2 ^ (8 * n)"
  shows "be_bytes n v < be_bytes n w"
  using assms
proof (induction n arbitrary: v w)
  case (Suc n)
  have split: "be_bytes (Suc n) x = be_bytes n (drop_bit 8 x) @ [ucast x]" for x :: "'a word"
    by (simp add: be_bytes_def)
  have high: "unat (drop_bit 8 x) = unat x div 256" for x :: "'a word"
    by (simp only: unat_drop_bit_eq) (simp add: drop_bit_eq_div)
  have low: "unat (ucast x :: u8) = unat x mod 256" for x :: "'a word"
    by (simp add: unsigned_ucast_eq take_bit_eq_mod)
  have lt: "unat v < unat w" using Suc.prems(1) by (simp add: word_less_nat_alt)
  have "unat (drop_bit 8 w) < 2 ^ (8 * n)"
    using Suc.prems(2) by (simp only: high) (simp add: power_add less_mult_imp_div_less mult.commute)
  then have "drop_bit 8 v < drop_bit 8 w \<Longrightarrow> be_bytes n (drop_bit 8 v) < be_bytes n (drop_bit 8 w)"
    by (rule Suc.IH [rotated])
  moreover have "drop_bit 8 v < drop_bit 8 w \<or>
      drop_bit 8 v = drop_bit 8 w \<and> (ucast v :: u8) < ucast w"
  proof (cases "unat v div 256 < unat w div 256")
    case True
    then show ?thesis by (simp only: word_less_nat_alt high simp_thms)
  next
    case False
    then have "unat v div 256 = unat w div 256"
      using div_le_mono [OF less_imp_le [OF lt], of 256] by simp
    moreover from this have "unat v mod 256 < unat w mod 256"
      using lt div_mult_mod_eq [of "unat v" 256] div_mult_mod_eq [of "unat w" 256] by linarith
    ultimately show ?thesis
      by (simp only: word_less_nat_alt word_unat_eq_iff high low simp_thms)
  qed
  ultimately show ?case
    by (auto simp: split append_single_less)
qed (simp add: word_less_nat_alt)

lemma le_bytes_ucast:
  "8 * n \<le> LENGTH('b) \<Longrightarrow> le_bytes n (ucast w :: 'b::len word) = le_bytes n w"
  for w :: "'a::len word"
proof -
  have nth: "i < n \<Longrightarrow> le_bytes n x ! i = ucast (drop_bit (8 * i) x)" for i and x :: "'c::len word"
    by (induction n arbitrary: x i) (auto simp: nth_Cons algebra_simps split: nat.splits)
  assume "8 * n \<le> LENGTH('b)"
  then show ?thesis
    by (intro nth_equalityI) (auto simp: nth intro!: bit_word_eqI simp: bit_simps)
qed

lemma be_bytes_ucast:
  "8 * n \<le> LENGTH('b) \<Longrightarrow> be_bytes n (ucast w :: 'b::len word) = be_bytes n w"
  for w :: "'a::len word"
  by (simp add: be_bytes_def le_bytes_ucast)

lemma be_bytes_1: "be_bytes 1 w = [ucast w]"
  by (simp add: be_bytes_def)

lemma deterministic_integer_encoding_eq: "deterministic_integer_encoding k = cbor_encode (Integer k)"
proof -
  have le: "a \<le> 23 \<longleftrightarrow> a < 24" "a \<le> 0xff \<longleftrightarrow> a < 2 ^ 8" "a \<le> 0xffff \<longleftrightarrow> a < 2 ^ 16"
    "a \<le> 0xffffffff \<longleftrightarrow> a < 2 ^ 32" for a :: u64
    by (auto simp: word_less_nat_alt word_le_nat_alt)
  show ?thesis
    by (simp add: deterministic_integer_encoding_def cbor_head_def le be_bytes_ucast
        be_bytes_1 [unfolded One_nat_def])
qed

lemma key_rank_mono:
  assumes "0 \<le> i" "i < j" "j < 2 ^ 64"
  shows "key_rank i < key_rank j"
proof -
  define a b where "a = (word_of_int i :: u64)" and "b = (word_of_int j :: u64)"
  have "uint a = i" "uint b = j"
    using assms by (simp_all add: a_def b_def uint_word_of_int)
  then have ab: "a < b" using assms by (simp add: word_less_def)
  have enc: "deterministic_integer_encoding i = cbor_head 0 a"
    "deterministic_integer_encoding j = cbor_head 0 b"
    using assms by (simp_all add: deterministic_integer_encoding_eq a_def b_def)
  have "b < 24 \<Longrightarrow> (ucast a :: u8) < ucast b"
    using ab by (simp add: word_less_nat_alt unat_ucast_down)
  moreover have "be_bytes n a < be_bytes n b" if "unat b < 2 ^ (8 * n)" for n
    using ab that by (rule be_bytes_mono)
  note this [of 1] this [of 2] this [of 4] this [of 8]
  ultimately show ?thesis
    using ab unat_u64_less [of b]
    by (auto simp: key_rank_def enc cbor_head_def word_less_nat_alt)
qed

lemma key_rank_less_iff:
  "0 \<le> i \<Longrightarrow> i < 2 ^ 64 \<Longrightarrow> 0 \<le> j \<Longrightarrow> j < 2 ^ 64 \<Longrightarrow> key_rank i < key_rank j \<longleftrightarrow> i < j"
  by (metis key_rank_mono linorder_less_linear order_less_asym order_less_irrefl)

lemma sorted_wrt_cong:
  "(\<And>x y. x \<in> set xs \<Longrightarrow> y \<in> set xs \<Longrightarrow> P x y = Q x y) \<Longrightarrow> sorted_wrt P xs = sorted_wrt Q xs"
  by (induction xs) auto

text \<open>A canonical map may use its keys only in ascending order: with keys in the range of an
  unsigned 64-bit integer, the shape check accepts a map exactly when the keys increase strictly
  (so no key is repeated) and every value is accepted. The source compares encodings by length
  and then by bytes; on such keys that is the numeric order.\<close>

lemma canonical_map_keys_ascend:
  assumes "\<forall>k \<in> set ks. 0 \<le> k \<and> k < 2 ^ 64" "length vs = length ks"
  shows "validate_canonical_cbor_shape (Map (zip (map Integer ks) vs)) = Inr () \<longleftrightarrow>
    sorted_wrt (<) ks \<and> (\<forall>v \<in> set vs. validate_canonical_cbor_shape v = Inr ())"
proof -
  have "sorted_wrt (\<lambda>a b. key_rank a < key_rank b) ks \<longleftrightarrow> sorted_wrt (<) ks"
    using assms(1) by (intro sorted_wrt_cong) (simp add: key_rank_less_iff)
  moreover have "map Integer ks = map Integer ks' \<longleftrightarrow> ks' = ks" for ks'
    by (metis CborValue.inject(1) inj_onI list.inj_map_strong)
  ultimately show ?thesis
    using assms(2) by (simp add: validate_shape_Map_Inr list_all_iff del: map_eq_conv
        validate_canonical_cbor_shape.simps(2))
qed



end
