(* ===== verification/ContiguousLayout.thy ===== *)
theory ContiguousLayout
  imports Main
begin

text \<open>
  The contract of a contiguous layout: consecutive segments, each starting where the one before it
  ends. Tape files on the medium, object blocks in the sequence of data ordinals and stripes in an
  epoch are laid out so; a lookup by address relies on the facts proved here once.
\<close>

locale contiguous_layout =
  fixes start :: "nat \<Rightarrow> nat" and count :: "nat \<Rightarrow> nat"
  assumes start_0: "start 0 = 0"
    and start_Suc: "start (Suc i) = start i + count i"
begin

lemma start_mono: "i \<le> j \<Longrightarrow> start i \<le> start j"
  by (induction rule: dec_induct) (simp_all add: start_Suc)

lemma end_le_start: "i < j \<Longrightarrow> start i + count i \<le> start j"
  using start_mono [of "Suc i" j] by (simp add: start_Suc)

lemma address_less_iff:
  assumes "a < count i" "b < count j"
  shows "start i + a < start j + b \<longleftrightarrow> i < j \<or> i = j \<and> a < b"
  using assms end_le_start [of i j] end_le_start [of j i] by (cases i j rule: linorder_cases) auto

lemma address_eq_iff:
  assumes "a < count i" "b < count j"
  shows "start i + a = start j + b \<longleftrightarrow> i = j \<and> a = b"
  using assms end_le_start [of i j] end_le_start [of j i] by (cases i j rule: linorder_cases) auto

lemma address_exists: "x < start n \<Longrightarrow> \<exists>i < n. start i \<le> x \<and> x < start i + count i"
proof (induction n)
  case (Suc n)
  then show ?case
    by (cases "x < start n") (auto simp: start_Suc less_Suc_eq not_less)
qed (simp add: start_0)

lemma address_exists1: "x < start n \<Longrightarrow> \<exists>!i. i < n \<and> start i \<le> x \<and> x < start i + count i"
  using address_exists [of x n] address_eq_iff [of "x - start _" _ "x - start _"]
  by (metis add_diff_inverse_nat less_diff_conv2 linorder_not_le add.commute)

end

end
