(* ===== verification/FilemarkMap.thy ===== *)
theory FilemarkMap
  imports SidecarDirectory Cbor ContiguousLayout
begin

text \<open>
  The filemark map of \<open>crates/remanence-parity/src/filemark_map.rs\<close>: the catalog of the tape files
  on a tape, its validation, its lookups between tape-file positions, data ordinals and physical
  block addresses, its digest, the incremental builder, and the digest-checked recovery scope.
  SHA-256 and the CBOR writer are arguments of the definitions. On a 64-bit host the conversions
  between \<open>u64\<close> and \<open>usize\<close> do not fail; the conversion of a length to \<open>u64\<close> is kept.
\<close>

section \<open>Entries\<close>

record FilemarkMapDigest =
  fmd_map_sha256 :: bytes
  fmd_tape_file_count :: u64
  fmd_map_total_data_ordinals :: u64
  fmd_highest_protected_ordinal :: u64
  covers_complete_map :: bool

record TapeFilePosition =
  pos_tape_file_number :: u64
  block_within_file :: u64

datatype TapeFileKind =
  Object | ParitySidecar | ParityMap | Bootstrap | TapeIndexReplica | IndexSeparationExtent

fun projection_code :: "TapeFileKind \<Rightarrow> u64" where
  "projection_code Object = 0"
| "projection_code ParitySidecar = 1"
| "projection_code Bootstrap = 2"
| "projection_code ParityMap = 3"
| "projection_code TapeIndexReplica = 4"
| "projection_code IndexSeparationExtent = 5"

record TapeFileMapEntry =
  tape_file_number :: u64
  kind :: TapeFileKind
  block_count :: u64
  first_parity_data_ordinal :: "u64 option"
  protected_ordinal_start :: "u64 option"
  protected_ordinal_end_exclusive :: "u64 option"
  epoch_id :: "u64 option"

definition entry_object :: "u64 \<Rightarrow> u64 \<Rightarrow> u64 \<Rightarrow> TapeFileMapEntry" where
  "entry_object number blocks first =
     \<lparr>tape_file_number = number, kind = Object, block_count = blocks,
      first_parity_data_ordinal = Some first, protected_ordinal_start = None,
      protected_ordinal_end_exclusive = None, epoch_id = None\<rparr>"

definition entry_parity_sidecar :: "u64 \<Rightarrow> u64 \<Rightarrow> u64 \<Rightarrow> u64 \<Rightarrow> u64 \<Rightarrow> TapeFileMapEntry" where
  "entry_parity_sidecar number blocks epoch start end_exclusive =
     \<lparr>tape_file_number = number, kind = ParitySidecar, block_count = blocks,
      first_parity_data_ordinal = None, protected_ordinal_start = Some start,
      protected_ordinal_end_exclusive = Some end_exclusive, epoch_id = Some epoch\<rparr>"

definition structural_control :: "u64 \<Rightarrow> TapeFileKind \<Rightarrow> u64 \<Rightarrow> TapeFileMapEntry" where
  "structural_control number k blocks =
     \<lparr>tape_file_number = number, kind = k, block_count = blocks,
      first_parity_data_ordinal = None, protected_ordinal_start = None,
      protected_ordinal_end_exclusive = None, epoch_id = None\<rparr>"

definition entry_bootstrap :: "u64 \<Rightarrow> u64 \<Rightarrow> TapeFileMapEntry" where
  "entry_bootstrap number blocks =
     \<lparr>tape_file_number = number, kind = Bootstrap, block_count = blocks,
      first_parity_data_ordinal = None, protected_ordinal_start = None,
      protected_ordinal_end_exclusive = None, epoch_id = None\<rparr>"

definition entry_parity_map :: "u64 \<Rightarrow> u64 \<Rightarrow> TapeFileMapEntry" where
  "entry_parity_map number blocks =
     \<lparr>tape_file_number = number, kind = ParityMap, block_count = blocks,
      first_parity_data_ordinal = None, protected_ordinal_start = None,
      protected_ordinal_end_exclusive = None, epoch_id = None\<rparr>"

definition entry_tape_index_replica :: "u64 \<Rightarrow> u64 \<Rightarrow> TapeFileMapEntry" where
  "entry_tape_index_replica number blocks = structural_control number TapeIndexReplica blocks"

definition entry_index_separation_extent :: "u64 \<Rightarrow> u64 \<Rightarrow> TapeFileMapEntry" where
  "entry_index_separation_extent number blocks =
     structural_control number IndexSeparationExtent blocks"

abbreviation filemark_map_error :: "string \<Rightarrow> ParityError" where
  "filemark_map_error \<equiv> FilemarkMapReconstruct"

definition TapeFileMapEntry_validate :: "TapeFileMapEntry \<Rightarrow> unit parity_result" where
  "TapeFileMapEntry_validate e =
     (if block_count e = 0
      then Inl (filemark_map_error ''tape file {} has zero block_count'')
      else case kind e of
        Object \<Rightarrow>
          if first_parity_data_ordinal e = None \<or> protected_ordinal_start e \<noteq> None
            \<or> protected_ordinal_end_exclusive e \<noteq> None \<or> epoch_id e \<noteq> None
          then Inl (filemark_map_error ''object tape file {} has invalid kind-specific fields'')
          else Inr ()
      | ParitySidecar \<Rightarrow>
          (case (protected_ordinal_start e, protected_ordinal_end_exclusive e, epoch_id e) of
             (Some start, Some end_exclusive, Some _) \<Rightarrow>
               if first_parity_data_ordinal e \<noteq> None \<or> end_exclusive \<le> start
               then Inl (filemark_map_error
                 ''sidecar tape file {} has invalid kind-specific fields'')
               else Inr ()
           | _ \<Rightarrow> Inl (filemark_map_error
                 ''sidecar tape file {} is missing protected range or epoch_id''))
      | Bootstrap \<Rightarrow>
          if block_count e \<noteq> 1 \<or> first_parity_data_ordinal e \<noteq> None
            \<or> protected_ordinal_start e \<noteq> None \<or> protected_ordinal_end_exclusive e \<noteq> None
            \<or> epoch_id e \<noteq> None
          then Inl (filemark_map_error ''bootstrap tape file {} has invalid kind-specific fields'')
          else Inr ()
      | _ \<Rightarrow>
          if first_parity_data_ordinal e \<noteq> None \<or> protected_ordinal_start e \<noteq> None
            \<or> protected_ordinal_end_exclusive e \<noteq> None \<or> epoch_id e \<noteq> None
          then Inl (filemark_map_error
            ''structural control tape file {} has invalid kind-specific fields'')
          else Inr ())"

definition object_ordinal_end_exclusive :: "TapeFileMapEntry \<Rightarrow> u64 option" where
  "object_ordinal_end_exclusive e =
     Option.bind (first_parity_data_ordinal e) (\<lambda>first. checked_add first (block_count e))"

section \<open>Validation\<close>

record PhysicalPrefix =
  next_start :: "u64 option"

datatype PositionBeyondU64 = PositionBeyondU64

definition PhysicalPrefix_new :: PhysicalPrefix where
  "PhysicalPrefix_new = \<lparr>next_start = Some 0\<rparr>"

definition PhysicalPrefix_push :: "PhysicalPrefix \<Rightarrow> u64 \<Rightarrow> PositionBeyondU64 + PhysicalPrefix" where
  "PhysicalPrefix_push p blocks =
     rbind (ok_or PositionBeyondU64
             (Option.bind (next_start p) (\<lambda>start. checked_add start blocks)))
       (\<lambda>filemark. Inr (p\<lparr>next_start := checked_add filemark 1\<rparr>))"

definition PhysicalPrefix_end :: "PhysicalPrefix \<Rightarrow> u64 option" where
  "PhysicalPrefix_end p = next_start p"

text \<open>\<open>u64::try_from\<close> of a length or an index.\<close>

definition u64_of_usize :: "nat \<Rightarrow> u64 option" where
  "u64_of_usize n = (if int n < 2 ^ 64 then Some (word_of_nat n) else None)"

definition validate_entry_at ::
  "u64 \<times> PhysicalPrefix \<Rightarrow> nat \<times> TapeFileMapEntry \<Rightarrow> (u64 \<times> PhysicalPrefix) parity_result" where
  "validate_entry_at = (\<lambda>(next_object_ordinal, physical) (index, e).
     rbind (ok_or (filemark_map_error ''tape file count exceeds u64::MAX'') (u64_of_usize index))
     (\<lambda>expected_file_number.
       if tape_file_number e \<noteq> expected_file_number
       then Inl (filemark_map_error
         ''tape file numbers must be dense from 0: expected {expected_file_number}, got {}'')
       else rbind (TapeFileMapEntry_validate e) (\<lambda>_.
         rbind (map_err (\<lambda>_. filemark_map_error
                 ''tape file {} describes a record or filemark position beyond u64 (REM-PARITY 7.2)'')
                 (PhysicalPrefix_push physical (block_count e)))
         (\<lambda>physical'.
           if index \<noteq> 0 \<and> kind e = Bootstrap
           then Inl (filemark_map_error
             ''schema-major 2 filemark maps forbid Bootstrap outside tape file 0'')
           else if kind e = Object
           then rbind (ok_or (filemark_map_error ''object entry missing first ordinal'')
                        (first_parity_data_ordinal e))
             (\<lambda>first.
               if first \<noteq> next_object_ordinal
               then Inl (filemark_map_error
                 ''object tape file {} starts at ordinal {first}, expected {next_object_ordinal}'')
               else rbind (ok_or (filemark_map_error ''total data ordinals overflow'')
                            (checked_add next_object_ordinal (block_count e)))
                 (\<lambda>next_object_ordinal'. Inr (next_object_ordinal', physical')))
           else Inr (next_object_ordinal, physical')))))"

fun validate_entries :: "TapeFileMapEntry list \<Rightarrow> unit parity_result" where
  "validate_entries [] = Inl (filemark_map_error
     ''schema-major 2 filemark maps require the sole tape-file-0 BOT Bootstrap'')"
| "validate_entries (first # rest) =
     (if tape_file_number first \<noteq> 0 \<or> kind first \<noteq> Bootstrap \<or> block_count first \<noteq> 1
      then Inl (filemark_map_error
        ''schema-major 2 filemark maps require a one-block Bootstrap at tape file 0'')
      else rbind (try_fold validate_entry_at (0, PhysicalPrefix_new) (enumerate 0 (first # rest)))
        (\<lambda>_. Inr ()))"

section \<open>The map\<close>

record FilemarkMap =
  map_entries :: "TapeFileMapEntry list"
  map_tape_file_count :: u64

definition checked_tape_file_count :: "nat \<Rightarrow> u64 parity_result" where
  "checked_tape_file_count entry_count =
     ok_or (filemark_map_error ''tape file count exceeds u64::MAX'') (u64_of_usize entry_count)"

definition FilemarkMap_new :: "TapeFileMapEntry list \<Rightarrow> FilemarkMap parity_result" where
  "FilemarkMap_new es =
     rbind (checked_tape_file_count (length es)) (\<lambda>count.
       rbind (validate_entries es) (\<lambda>_.
         Inr \<lparr>map_entries = es, map_tape_file_count = count\<rparr>))"

definition from_unordered_entries :: "TapeFileMapEntry list \<Rightarrow> FilemarkMap parity_result" where
  "from_unordered_entries es = FilemarkMap_new (sort_key tape_file_number es)"

text \<open>\<open>Iterator::max\<close> followed by \<open>unwrap_or(0)\<close>.\<close>

fun max_or_zero :: "u64 list \<Rightarrow> u64" where
  "max_or_zero [] = 0"
| "max_or_zero (x # xs) = fold max xs x"

definition total_data_ordinals :: "FilemarkMap \<Rightarrow> u64" where
  "total_data_ordinals m =
     max_or_zero (List.map_filter object_ordinal_end_exclusive (map_entries m))"

definition max_sidecar_end_exclusive :: "FilemarkMap \<Rightarrow> u64" where
  "max_sidecar_end_exclusive m =
     max_or_zero (List.map_filter protected_ordinal_end_exclusive (map_entries m))"

definition truncate_to_tape_files :: "FilemarkMap \<Rightarrow> u64 \<Rightarrow> FilemarkMap parity_result" where
  "truncate_to_tape_files m count =
     (if unat count > length (map_entries m)
      then Inl (filemark_map_error
        ''prefix tape_file_count {tape_file_count} exceeds map length {}'')
      else FilemarkMap_new (take (unat count) (map_entries m)))"

section \<open>The canonical digest\<close>

definition optional_u64 :: "u64 option \<Rightarrow> CborValue" where
  "optional_u64 v = (case v of None \<Rightarrow> Null | Some w \<Rightarrow> Integer (uint w))"

definition entry_projection :: "TapeFileMapEntry \<Rightarrow> CborValue" where
  "entry_projection e = Array
     [Integer (uint (tape_file_number e)),
      Integer (uint (projection_code (kind e))),
      Integer (uint (block_count e)),
      optional_u64 (first_parity_data_ordinal e),
      optional_u64 (protected_ordinal_start e),
      optional_u64 (protected_ordinal_end_exclusive e),
      optional_u64 (epoch_id e)]"

definition canonical_projection_bytes :: "cbor_writer \<Rightarrow> FilemarkMap \<Rightarrow> bytes parity_result" where
  "canonical_projection_bytes into_writer m =
     map_err (\<lambda>_. filemark_map_error ''canonical CBOR encode failed: {e}'')
       (into_writer (Array (map entry_projection (map_entries m))))"

definition canonical_digest ::
  "cbor_writer \<Rightarrow> (bytes \<Rightarrow> bytes) \<Rightarrow> FilemarkMap \<Rightarrow> bytes parity_result" where
  "canonical_digest into_writer sha256 m =
     rbind (canonical_projection_bytes into_writer m) (\<lambda>bs. Inr (sha256 bs))"

definition FilemarkMap_digest ::
  "cbor_writer \<Rightarrow> (bytes \<Rightarrow> bytes) \<Rightarrow> FilemarkMap \<Rightarrow> bool \<Rightarrow> FilemarkMapDigest parity_result" where
  "FilemarkMap_digest into_writer sha256 m complete =
     rbind (canonical_digest into_writer sha256 m) (\<lambda>digest.
       Inr \<lparr>fmd_map_sha256 = digest, fmd_tape_file_count = map_tape_file_count m,
            fmd_map_total_data_ordinals = total_data_ordinals m,
            fmd_highest_protected_ordinal = max_sidecar_end_exclusive m,
            covers_complete_map = complete\<rparr>)"

definition sole_bot_filemark_map_digest ::
  "cbor_writer \<Rightarrow> (bytes \<Rightarrow> bytes) \<Rightarrow> FilemarkMapDigest parity_result" where
  "sole_bot_filemark_map_digest into_writer sha256 =
     rbind (FilemarkMap_new [entry_bootstrap 0 1]) (\<lambda>m.
       FilemarkMap_digest into_writer sha256 m False)"

section \<open>Lookups\<close>

definition map_entry :: "FilemarkMap \<Rightarrow> u64 \<Rightarrow> TapeFileMapEntry parity_result" where
  "map_entry m number =
     (if unat number < length (map_entries m)
         \<and> tape_file_number (map_entries m ! unat number) = number
      then Inr (map_entries m ! unat number)
      else Inl (filemark_map_error
        ''tape file {tape_file_number} is not described by the filemark map''))"

definition ordinal_at :: "FilemarkMap \<Rightarrow> TapeFilePosition \<Rightarrow> u64 option parity_result" where
  "ordinal_at m pos =
     rbind (map_entry m (pos_tape_file_number pos)) (\<lambda>e.
       if block_within_file pos \<ge> block_count e
       then Inl (filemark_map_error ''block {} is outside tape file {} with block_count {}'')
       else Inr (case (kind e, first_parity_data_ordinal e) of
                   (Object, Some first) \<Rightarrow> Some (first + block_within_file pos)
                 | _ \<Rightarrow> None))"

fun find_ordinal :: "TapeFileMapEntry list \<Rightarrow> u64 \<Rightarrow> TapeFilePosition parity_result" where
  "find_ordinal [] ordinal =
     Inl (filemark_map_error ''ordinal {ordinal} is not described by the filemark map'')"
| "find_ordinal (e # es) ordinal =
     (case first_parity_data_ordinal e of
        None \<Rightarrow> find_ordinal es ordinal
      | Some first \<Rightarrow>
          (case checked_add first (block_count e) of
             None \<Rightarrow> Inl (filemark_map_error ''object tape file {} ordinal range overflows'')
           | Some end_exclusive \<Rightarrow>
               if ordinal \<ge> first \<and> ordinal < end_exclusive
               then Inr \<lparr>pos_tape_file_number = tape_file_number e,
                         block_within_file = ordinal - first\<rparr>
               else find_ordinal es ordinal))"

definition position_for_ordinal :: "FilemarkMap \<Rightarrow> u64 \<Rightarrow> TapeFilePosition parity_result" where
  "position_for_ordinal m ordinal = find_ordinal (map_entries m) ordinal"

text \<open>Adding one tape file and its trailing filemark to an accumulated address.\<close>

definition add_tape_file :: "string \<Rightarrow> u64 \<Rightarrow> TapeFileMapEntry \<Rightarrow> u64 parity_result" where
  "add_tape_file message acc prior =
     ok_or (filemark_map_error message)
       (Option.bind (checked_add acc (block_count prior)) (\<lambda>v. checked_add v 1))"

definition physical_position :: "FilemarkMap \<Rightarrow> TapeFilePosition \<Rightarrow> PhysicalPositionHint parity_result" where
  "physical_position m pos =
     rbind (map_entry m (pos_tape_file_number pos)) (\<lambda>e.
       if block_within_file pos \<ge> block_count e
       then Inl (filemark_map_error ''block {} is outside tape file {} with block_count {}'')
       else
         rbind (try_fold (add_tape_file ''physical position overflows u64'') 0
                 (take (unat (pos_tape_file_number pos)) (map_entries m)))
         (\<lambda>prefix_blocks_and_filemarks.
           rbind (ok_or (filemark_map_error ''physical position overflows u64'')
                   (checked_add prefix_blocks_and_filemarks (block_within_file pos)))
           (\<lambda>lba. Inr (PhysicalPositionHint_new lba))))"

definition physical_run :: "FilemarkMap \<Rightarrow> u64 \<Rightarrow> u64 \<Rightarrow> u64 \<Rightarrow> PhysicalPositionHint parity_result" where
  "physical_run m number first_block count =
     rbind (map_entry m number) (\<lambda>e.
       if count = 0 \<or> (case checked_add first_block count of
                          None \<Rightarrow> True | Some end_exclusive \<Rightarrow> end_exclusive > block_count e)
       then Inl (filemark_map_error
         ''run at block {first_block} with count {count} is outside tape file {tape_file_number} with block_count {}'')
       else rbind (physical_position m
                     \<lparr>pos_tape_file_number = number, block_within_file = first_block\<rparr>)
         (\<lambda>first.
           rbind (ok_or (filemark_map_error ''physical run overflows u64'')
                   (checked_add (pph_lba first) (count - 1)))
           (\<lambda>_. Inr first)))"

definition append_position_after_prefix :: "FilemarkMap \<Rightarrow> PhysicalPositionHint parity_result" where
  "append_position_after_prefix m =
     rbind (try_fold (add_tape_file ''append position overflows u64'') 0 (map_entries m))
       (\<lambda>lba. Inr (PhysicalPositionHint_new lba))"

section \<open>The builder\<close>

text \<open>A push returns the assigned entry and the updated builder; on an error the builder is left
  as it was.\<close>

record FilemarkMapBuilder =
  builder_entries :: "TapeFileMapEntry list"
  base_tape_file_count :: u64
  base_total_data_ordinals :: u64

definition FilemarkMapBuilder_new :: FilemarkMapBuilder where
  "FilemarkMapBuilder_new =
     \<lparr>builder_entries = [], base_tape_file_count = 0, base_total_data_ordinals = 0\<rparr>"

definition from_committed_prefix :: "FilemarkMap \<Rightarrow> FilemarkMapBuilder" where
  "from_committed_prefix prefix =
     \<lparr>builder_entries = map_entries prefix, base_tape_file_count = 0,
      base_total_data_ordinals = 0\<rparr>"

definition from_bounded_prefix :: "u64 \<Rightarrow> u64 \<Rightarrow> FilemarkMapBuilder" where
  "from_bounded_prefix tape_files ordinals =
     \<lparr>builder_entries = [], base_tape_file_count = tape_files,
      base_total_data_ordinals = ordinals\<rparr>"

definition builder_tape_file_count :: "FilemarkMapBuilder \<Rightarrow> u64 parity_result" where
  "builder_tape_file_count b =
     rbind (checked_tape_file_count (length (builder_entries b))) (\<lambda>count.
       ok_or (filemark_map_error ''tape file count overflows u64'')
         (checked_add (base_tape_file_count b) count))"

definition session_entries_from ::
  "FilemarkMapBuilder \<Rightarrow> u64 \<Rightarrow> TapeFileMapEntry list parity_result" where
  "session_entries_from b number =
     rbind (ok_or (filemark_map_error ''requested row precedes bounded session base'')
             (checked_sub number (base_tape_file_count b)))
       (\<lambda>offset.
         if unat offset \<le> length (builder_entries b)
         then Inr (drop (unat offset) (builder_entries b))
         else Inl (filemark_map_error ''session row offset exceeds live rows''))"

definition next_tape_file_number :: "FilemarkMapBuilder \<Rightarrow> u64 parity_result" where
  "next_tape_file_number b = builder_tape_file_count b"

definition add_object_blocks :: "u64 \<Rightarrow> TapeFileMapEntry \<Rightarrow> u64 parity_result" where
  "add_object_blocks acc e =
     (if kind e = Object
      then ok_or (filemark_map_error ''total data ordinals overflow while building map'')
             (checked_add acc (block_count e))
      else Inr acc)"

definition current_total_data_ordinals :: "FilemarkMapBuilder \<Rightarrow> u64 parity_result" where
  "current_total_data_ordinals b =
     try_fold add_object_blocks (base_total_data_ordinals b) (builder_entries b)"

definition require_bot_authority :: "FilemarkMapBuilder \<Rightarrow> unit parity_result" where
  "require_bot_authority b =
     (if base_tape_file_count b > 0 then Inr ()
      else if (case builder_entries b of
                 [] \<Rightarrow> False
               | e # _ \<Rightarrow> tape_file_number e = 0 \<and> kind e = Bootstrap \<and> block_count e = 1)
      then Inr ()
      else Inl (filemark_map_error
        ''schema-major 2 writers must commit the sole tape-file-0 BOT Bootstrap before body files''))"

text \<open>The common end of every push: \<open>entry.validate()?\<close>, then the entry is appended.\<close>

definition push_entry ::
  "FilemarkMapBuilder \<Rightarrow> TapeFileMapEntry \<Rightarrow> (TapeFileMapEntry \<times> FilemarkMapBuilder) parity_result"
where
  "push_entry b e =
     rbind (TapeFileMapEntry_validate e) (\<lambda>_.
       Inr (e, b\<lparr>builder_entries := builder_entries b @ [e]\<rparr>))"

definition push_object ::
  "FilemarkMapBuilder \<Rightarrow> u64 \<Rightarrow> (TapeFileMapEntry \<times> FilemarkMapBuilder) parity_result" where
  "push_object b blocks =
     rbind (require_bot_authority b) (\<lambda>_.
     rbind (next_tape_file_number b) (\<lambda>number.
     rbind (current_total_data_ordinals b) (\<lambda>first_ordinal.
       push_entry b (entry_object number blocks first_ordinal))))"

definition push_parity_sidecar ::
  "FilemarkMapBuilder \<Rightarrow> u64 \<Rightarrow> u64 \<Rightarrow> u64 \<Rightarrow> u64 \<Rightarrow>
     (TapeFileMapEntry \<times> FilemarkMapBuilder) parity_result" where
  "push_parity_sidecar b blocks epoch start end_exclusive =
     rbind (require_bot_authority b) (\<lambda>_.
     rbind (next_tape_file_number b) (\<lambda>number.
       push_entry b (entry_parity_sidecar number blocks epoch start end_exclusive)))"

definition push_bootstrap ::
  "FilemarkMapBuilder \<Rightarrow> (TapeFileMapEntry \<times> FilemarkMapBuilder) parity_result" where
  "push_bootstrap b =
     (if base_tape_file_count b \<noteq> 0 \<or> builder_entries b \<noteq> []
      then Inl (filemark_map_error ''schema-major 2 permits a Bootstrap only as tape file 0'')
      else rbind (next_tape_file_number b) (\<lambda>number. push_entry b (entry_bootstrap number 1)))"

definition push_parity_map ::
  "FilemarkMapBuilder \<Rightarrow> u64 \<Rightarrow> (TapeFileMapEntry \<times> FilemarkMapBuilder) parity_result" where
  "push_parity_map b blocks =
     rbind (require_bot_authority b) (\<lambda>_.
     rbind (next_tape_file_number b) (\<lambda>number. push_entry b (entry_parity_map number blocks)))"

definition push_tape_index_replica ::
  "FilemarkMapBuilder \<Rightarrow> u64 \<Rightarrow> (TapeFileMapEntry \<times> FilemarkMapBuilder) parity_result" where
  "push_tape_index_replica b blocks =
     rbind (require_bot_authority b) (\<lambda>_.
     rbind (next_tape_file_number b) (\<lambda>number.
       push_entry b (entry_tape_index_replica number blocks)))"

definition push_index_separation_extent ::
  "FilemarkMapBuilder \<Rightarrow> u64 \<Rightarrow> (TapeFileMapEntry \<times> FilemarkMapBuilder) parity_result" where
  "push_index_separation_extent b blocks =
     rbind (require_bot_authority b) (\<lambda>_.
     rbind (next_tape_file_number b) (\<lambda>number.
       push_entry b (entry_index_separation_extent number blocks)))"

definition projected_digest ::
  "cbor_writer \<Rightarrow> (bytes \<Rightarrow> bytes) \<Rightarrow> FilemarkMapBuilder \<Rightarrow> TapeFileMapEntry list \<Rightarrow> bool \<Rightarrow>
     FilemarkMapDigest parity_result" where
  "projected_digest into_writer sha256 b provisional_entries complete =
     (if base_tape_file_count b \<noteq> 0
      then Inl (filemark_map_error ''bounded-prefix digest requires journal replay authority'')
      else rbind (FilemarkMap_new (builder_entries b @ provisional_entries)) (\<lambda>m.
        FilemarkMap_digest into_writer sha256 m complete))"

definition builder_build :: "FilemarkMapBuilder \<Rightarrow> FilemarkMap parity_result" where
  "builder_build b = FilemarkMap_new (builder_entries b)"

text \<open>One push of a session: the step relation of the builder.\<close>

inductive builder_step :: "FilemarkMapBuilder \<Rightarrow> FilemarkMapBuilder \<Rightarrow> bool" where
  object: "push_object b blocks = Inr (e, b') \<Longrightarrow> builder_step b b'"
| parity_sidecar: "push_parity_sidecar b blocks epoch start fin = Inr (e, b') \<Longrightarrow> builder_step b b'"
| bootstrap: "push_bootstrap b = Inr (e, b') \<Longrightarrow> builder_step b b'"
| parity_map: "push_parity_map b blocks = Inr (e, b') \<Longrightarrow> builder_step b b'"
| tape_index_replica: "push_tape_index_replica b blocks = Inr (e, b') \<Longrightarrow> builder_step b b'"
| index_separation_extent:
    "push_index_separation_extent b blocks = Inr (e, b') \<Longrightarrow> builder_step b b'"

section \<open>The recovery scope\<close>

datatype MapScope =
    Complete (complete_highest_protected_ordinal: u64)
  | Prefix (prefix_map_total_data_ordinals: u64) (prefix_highest_protected_ordinal: u64)

fun watermark :: "MapScope \<Rightarrow> u64" where
  "watermark (Complete highest) = highest"
| "watermark (Prefix _ highest) = highest"

definition recoverable :: "MapScope \<Rightarrow> u64 \<Rightarrow> unit parity_result" where
  "recoverable s ordinal =
     (case s of
        Prefix ordinals _ \<Rightarrow>
          if ordinal \<ge> ordinals then Inl (OutsideValidatedMapPrefix ordinal ordinals)
          else if ordinal \<ge> watermark s then Inl (UnrecoverablePendingEpoch ordinal (watermark s))
          else Inr ()
      | Complete _ \<Rightarrow>
          if ordinal \<ge> watermark s then Inl (UnrecoverablePendingEpoch ordinal (watermark s))
          else Inr ())"

datatype MapSource = Catalog | TerminalReplica | Walk

record ScopedFilemarkMap =
  scoped_map :: FilemarkMap
  validated_prefix_tape_files :: "u64 option"
  scope :: MapScope
  sidecar_directory :: "SidecarEpochDirectory option"
  map_source :: MapSource

definition from_catalog :: "FilemarkMap \<Rightarrow> u64 \<Rightarrow> ScopedFilemarkMap" where
  "from_catalog m highest =
     \<lparr>scoped_map = m, validated_prefix_tape_files = None, scope = Complete highest,
      sidecar_directory = None, map_source = Catalog\<rparr>"

definition with_sidecar_directory ::
  "ScopedFilemarkMap \<Rightarrow> SidecarEpochDirectory option \<Rightarrow> ScopedFilemarkMap" where
  "with_sidecar_directory s directory = s\<lparr>sidecar_directory := directory\<rparr>"

definition validate_against_digest ::
  "cbor_writer \<Rightarrow> (bytes \<Rightarrow> bytes) \<Rightarrow> FilemarkMap \<Rightarrow> FilemarkMapDigest \<Rightarrow>
     ScopedFilemarkMap parity_result" where
  "validate_against_digest into_writer sha256 full_map digest =
     rbind (if covers_complete_map digest then Inr full_map
            else truncate_to_tape_files full_map (fmd_tape_file_count digest))
     (\<lambda>validated.
       rbind (canonical_digest into_writer sha256 validated) (\<lambda>sha.
         if sha \<noteq> fmd_map_sha256 digest
           \<or> map_tape_file_count validated \<noteq> fmd_tape_file_count digest
           \<or> total_data_ordinals validated \<noteq> fmd_map_total_data_ordinals digest
           \<or> max_sidecar_end_exclusive validated \<noteq> fmd_highest_protected_ordinal digest
         then Inl (FilemarkMapDigestMismatch None)
         else
           let (prefix_tape_files, map_scope) =
                 (if covers_complete_map digest
                  then (None, Complete (fmd_highest_protected_ordinal digest))
                  else (Some (fmd_tape_file_count digest),
                        Prefix (fmd_map_total_data_ordinals digest)
                          (fmd_highest_protected_ordinal digest)))
           in Inr \<lparr>scoped_map = full_map, validated_prefix_tape_files = prefix_tape_files,
                   scope = map_scope, sidecar_directory = None, map_source = Walk\<rparr>))"

definition validate_against_final_parity_map ::
  "cbor_writer \<Rightarrow> (bytes \<Rightarrow> bytes) \<Rightarrow> FilemarkMap \<Rightarrow> DecodedParityMapTapeFile \<Rightarrow>
     ScopedFilemarkMap parity_result" where
  "validate_against_final_parity_map into_writer sha256 m parity_map =
     (let directory = pmp_directory (decoded_payload parity_map)
      in rbind (SidecarEpochDirectory_validate directory) (\<lambda>_.
        let entry = find (\<lambda>e. kind e = ParityMap) (rev (map_entries m))
        in if \<not> is_final_directory directory
             \<or> \<not> (case entry of None \<Rightarrow> False
                  | Some e \<Rightarrow>
                      checked_add (tape_file_number e) 1
                        = Some (directory_scope_tape_file_count directory)
                      \<and> block_count e = pml_total_block_count (decoded_header parity_map))
           then Inl (FilemarkMapDigestMismatch None)
           else
             let digest =
                   \<lparr>fmd_map_sha256 = pmp_canonical_map_digest (decoded_payload parity_map),
                    fmd_tape_file_count = directory_scope_tape_file_count directory,
                    fmd_map_total_data_ordinals = directory_scope_total_data_ordinals directory,
                    fmd_highest_protected_ordinal =
                      directory_scope_highest_protected_ordinal directory,
                    covers_complete_map = False\<rparr>
             in rbind (validate_against_digest into_writer sha256 m digest) (\<lambda>s.
               Inr (with_sidecar_directory s (Some directory)))))"

definition is_validated :: "ScopedFilemarkMap \<Rightarrow> u64 \<Rightarrow> bool" where
  "is_validated s number =
     (case validated_prefix_tape_files s of None \<Rightarrow> True | Some prefix \<Rightarrow> number < prefix)"

section \<open>What validation accepts\<close>

definition data_blocks :: "TapeFileMapEntry \<Rightarrow> nat" where
  "data_blocks e = (if kind e = Object then unat (block_count e) else 0)"

definition data_before :: "TapeFileMapEntry list \<Rightarrow> nat \<Rightarrow> nat" where
  "data_before es i = sum_list (map data_blocks (take i es))"

definition lba_before :: "TapeFileMapEntry list \<Rightarrow> nat \<Rightarrow> nat" where
  "lba_before es i = sum_list (map (\<lambda>e. unat (block_count e) + 1) (take i es))"

definition nth_or_zero :: "('a \<Rightarrow> nat) \<Rightarrow> 'a list \<Rightarrow> nat \<Rightarrow> nat" where
  "nth_or_zero f xs i = (if i < length xs then f (xs ! i) else 0)"

interpretation ordinals: contiguous_layout "data_before es" "nth_or_zero data_blocks es" for es
  by unfold_locales (simp_all add: data_before_def nth_or_zero_def take_Suc_conv_app_nth)

interpretation addresses: contiguous_layout "lba_before es"
  "nth_or_zero (\<lambda>e. unat (block_count e) + 1) es" for es
  by unfold_locales (simp_all add: lba_before_def nth_or_zero_def take_Suc_conv_app_nth)

lemma u64_of_usize_unat [simp]: "u64_of_usize (unat w) = Some w"
  using unsigned_less [of w, where ?'a = int] by (simp add: u64_of_usize_def)

lemma data_before_Cons [simp]: "data_before (e # es) (Suc i) = data_blocks e + data_before es i"
  and lba_before_Cons [simp]:
    "lba_before (e # es) (Suc i) = unat (block_count e) + 1 + lba_before es i"
  by (simp_all add: data_before_def lba_before_def)

lemma data_before_append: "i \<le> length es \<Longrightarrow> data_before (es @ es') i = data_before es i"
  and lba_before_append: "i \<le> length es \<Longrightarrow> lba_before (es @ es') i = lba_before es i"
  by (simp_all add: data_before_def lba_before_def)

lemma data_before_take: "i \<le> n \<Longrightarrow> data_before (take n es) i = data_before es i"
  and lba_before_take: "i \<le> n \<Longrightarrow> lba_before (take n es) i = lba_before es i"
  by (simp_all add: data_before_def lba_before_def min_def)

lemma data_before_le: "data_before es i + min i (length es) \<le> lba_before es i"
proof (induction es arbitrary: i)
  case (Cons e es)
  then show ?case
    by (cases i) (auto simp: data_blocks_def ordinals.start_0 intro: trans_le_add2)
qed (simp add: data_before_def lba_before_def)

definition prefix_end :: "PhysicalPrefix \<Rightarrow> nat" where
  "prefix_end p = (case next_start p of None \<Rightarrow> 2 ^ 64 | Some w \<Rightarrow> unat w)"

lemma prefix_end_le: "prefix_end p \<le> 2 ^ 64"
  using unat_u64_less by (auto simp: prefix_end_def less_imp_le split: option.splits)

lemma next_start_update_eq: "p\<lparr>next_start := x\<rparr> = p' \<longleftrightarrow> next_start p' = x"
  for p p' :: PhysicalPrefix
  by (cases p; cases p') auto

lemma PhysicalPrefix_push_Inr:
  "PhysicalPrefix_push p blocks = Inr p' \<longleftrightarrow> prefix_end p' = prefix_end p + unat blocks + 1"
proof (cases "next_start p")
  case None
  then show ?thesis
    using prefix_end_le [of p'] by (auto simp: PhysicalPrefix_push_def prefix_end_def)
next
  case (Some start)
  show ?thesis
  proof (cases "checked_add start blocks")
    case None
    then have "2 ^ 64 \<le> prefix_end p + unat blocks"
      by (simp add: checked_simps prefix_end_def Some)
    moreover have "PhysicalPrefix_push p blocks = Inl PositionBeyondU64"
      by (simp add: PhysicalPrefix_push_def Some None)
    ultimately show ?thesis
      using prefix_end_le [of p'] by simp
  next
    case (Some filemark)
    then have f: "unat filemark = unat start + unat blocks" by (simp add: checked_simps)
    have "PhysicalPrefix_push p blocks = Inr p' \<longleftrightarrow> next_start p' = checked_add filemark 1"
      by (simp add: PhysicalPrefix_push_def \<open>next_start p = _\<close> Some next_start_update_eq)
    also have "\<dots> \<longleftrightarrow> prefix_end p' = unat filemark + 1"
      using unat_u64_less [of filemark]
      by (cases "next_start p'")
        (auto simp: prefix_end_def eq_commute [of _ "checked_add _ _"] checked_simps)
    finally show ?thesis
      using \<open>next_start p = _\<close> f by (simp add: prefix_end_def)
  qed
qed

text \<open>
  The fields a row carries by kind: every file has blocks and the bootstrap has one, an object and only
  an object has a first data ordinal, a sidecar and only a sidecar has an epoch and a protected range,
  and the range is not empty.
\<close>

definition row_fields :: "TapeFileMapEntry \<Rightarrow> bool" where
  "row_fields e \<longleftrightarrow>
     0 < unat (block_count e) \<and> (kind e = Bootstrap \<longrightarrow> unat (block_count e) = 1) \<and>
     (first_parity_data_ordinal e \<noteq> None \<longleftrightarrow> kind e = Object) \<and>
     (epoch_id e \<noteq> None \<longleftrightarrow> kind e = ParitySidecar) \<and>
     (protected_ordinal_start e \<noteq> None \<longleftrightarrow> kind e = ParitySidecar) \<and>
     (protected_ordinal_end_exclusive e \<noteq> None \<longleftrightarrow> kind e = ParitySidecar) \<and>
     (\<forall>first end_exclusive. protected_ordinal_start e = Some first \<longrightarrow>
        protected_ordinal_end_exclusive e = Some end_exclusive \<longrightarrow> unat first < unat end_exclusive)"

lemma validate_row_fields [simp]: "TapeFileMapEntry_validate e = Inr () \<longleftrightarrow> row_fields e"
proof -
  have w: "0 < unat (block_count e) \<longleftrightarrow> block_count e \<noteq> 0" "unat (block_count e) = 1 \<longleftrightarrow> block_count e = 1"
    "unat a < unat b \<longleftrightarrow> \<not> b \<le> a" for a b :: u64
    by (simp_all add: unat_gt_0 word_unat_eq_iff [of _ 1] word_le_nat_alt not_le)
  show ?thesis
    unfolding TapeFileMapEntry_validate_def row_fields_def w
    by (cases "kind e"; cases "protected_ordinal_start e"; cases "protected_ordinal_end_exclusive e";
        cases "epoch_id e") simp_all
qed

definition entry_ok :: "nat \<Rightarrow> nat \<Rightarrow> TapeFileMapEntry \<Rightarrow> bool" where
  "entry_ok i ordinal e \<longleftrightarrow>
     int i < 2 ^ 64 \<and> tape_file_number e = word_of_nat i \<and> row_fields e \<and>
     (i \<noteq> 0 \<longrightarrow> kind e \<noteq> Bootstrap) \<and>
     (kind e = Object \<longrightarrow> map_option unat (first_parity_data_ordinal e) = Some ordinal)"

lemma validate_entry_at_Inr:
  "validate_entry_at (n, p) (i, e) = Inr (n', p') \<longleftrightarrow>
     entry_ok i (unat n) e \<and> prefix_end p' = prefix_end p + unat (block_count e) + 1 \<and>
     unat n' = unat n + data_blocks e"
  by (auto simp: validate_entry_at_def entry_ok_def u64_of_usize_def PhysicalPrefix_push_Inr
      data_blocks_def checked_simps split: if_splits dest: word_eq_of_unat)

lemma all_less_Suc_split: "(\<forall>i < Suc n. P i) \<longleftrightarrow> P 0 \<and> (\<forall>i < n. P (Suc i))"
  using less_Suc_eq_0_disj by auto

lemma prefix_end_inject: "prefix_end p = prefix_end q \<longleftrightarrow> p = q"
  by (cases p; cases q) (auto simp: prefix_end_def word_unat_eq_iff split: option.splits)

lemma prefix_end_exists: "x \<le> 2 ^ 64 \<Longrightarrow> \<exists>p. prefix_end p = x"
proof -
  assume "x \<le> 2 ^ 64"
  then consider "x = 2 ^ 64" | "x < 2 ^ 64" by linarith
  then show ?thesis
  proof cases
    case 1
    then show ?thesis by (intro exI [of _ "\<lparr>next_start = None\<rparr>"]) (simp add: prefix_end_def)
  next
    case 2
    then show ?thesis
      by (intro exI [of _ "\<lparr>next_start = Some (word_of_nat x)\<rparr>"])
        (simp add: prefix_end_def unsigned_of_nat take_bit_nat_eq_self_iff)
  qed
qed

lemma validate_fold_Inr:
  "try_fold validate_entry_at (n, p) (enumerate k es) = Inr (n', p') \<longleftrightarrow>
     (\<forall>i < length es. entry_ok (k + i) (unat n + data_before es i) (es ! i)) \<and>
     prefix_end p' = prefix_end p + lba_before es (length es) \<and>
     unat n' = unat n + data_before es (length es)"
proof (induction es arbitrary: k n p)
  case Nil
  show ?case
    by (auto simp: ordinals.start_0 addresses.start_0 prefix_end_inject word_unat_eq_iff)
next
  case (Cons e es)
  have all: "(\<forall>i < length (e # es). entry_ok (k + i) (unat n + data_before (e # es) i) ((e # es) ! i))
    \<longleftrightarrow> entry_ok k (unat n) e \<and>
      (\<forall>i < length es. entry_ok (Suc k + i) (unat n + data_blocks e + data_before es i) (es ! i))"
    by (simp add: all_less_Suc_split ordinals.start_0 add.assoc)
  have run: "try_fold validate_entry_at (n, p) (enumerate k (e # es)) = Inr (n', p') \<longleftrightarrow>
      (\<exists>n1 p1. validate_entry_at (n, p) (k, e) = Inr (n1, p1) \<and>
         try_fold validate_entry_at (n1, p1) (enumerate (Suc k) es) = Inr (n', p'))"
    by auto
  have sums: "data_before (e # es) (length (e # es)) = data_blocks e + data_before es (length es)"
    "lba_before (e # es) (length (e # es)) = unat (block_count e) + 1 + lba_before es (length es)"
    by simp_all
  show ?case
    unfolding run all sums validate_entry_at_Inr Cons.IH
  proof (intro iffI conjI; elim exE conjE)
    assume "entry_ok k (unat n) e" then show "entry_ok k (unat n) e" .
  next
    fix n1 p1
    assume "\<forall>i < length es. entry_ok (Suc k + i) (unat n1 + data_before es i) (es ! i)"
      "unat n1 = unat n + data_blocks e"
    then show "\<forall>i < length es.
        entry_ok (Suc k + i) (unat n + data_blocks e + data_before es i) (es ! i)"
      by (simp only: simp_thms)
  next
    fix n1 p1
    assume "prefix_end p' = prefix_end p1 + lba_before es (length es)"
      "prefix_end p1 = prefix_end p + unat (block_count e) + 1"
    then show "prefix_end p' = prefix_end p + (unat (block_count e) + 1 + lba_before es (length es))"
      by linarith
  next
    fix n1 p1
    assume "unat n' = unat n1 + data_before es (length es)" "unat n1 = unat n + data_blocks e"
    then show "unat n' = unat n + (data_blocks e + data_before es (length es))"
      by linarith
  next
    assume ok: "entry_ok k (unat n) e"
      "\<forall>i < length es. entry_ok (Suc k + i) (unat n + data_blocks e + data_before es i) (es ! i)"
      and p: "prefix_end p' = prefix_end p + (unat (block_count e) + 1 + lba_before es (length es))"
      and n: "unat n' = unat n + (data_blocks e + data_before es (length es))"
    have "prefix_end p + unat (block_count e) + 1 \<le> 2 ^ 64" "unat n + data_blocks e < 2 ^ 64"
      using prefix_end_le [of p'] unat_u64_less [of n'] p n by simp_all
    then obtain n1 :: u64 and p1 where p1: "prefix_end p1 = prefix_end p + unat (block_count e) + 1"
      and n1: "unat n1 = unat n + data_blocks e"
      using prefix_end_exists unat_exists by metis
    show "\<exists>(n1 :: u64) p1. (entry_ok k (unat n) e \<and>
        prefix_end p1 = prefix_end p + unat (block_count e) + 1 \<and> unat n1 = unat n + data_blocks e) \<and>
        (\<forall>i < length es. entry_ok (Suc k + i) (unat n1 + data_before es i) (es ! i)) \<and>
        prefix_end p' = prefix_end p1 + lba_before es (length es) \<and>
        unat n' = unat n1 + data_before es (length es)"
      using ok p n by (intro exI [of _ n1] exI [of _ p1] conjI) (simp_all only: p1 n1 add.assoc)
  qed
qed

lemma prefix_end_new: "prefix_end PhysicalPrefix_new = 0"
  by (simp add: prefix_end_def PhysicalPrefix_new_def)

lemma data_before_less:
  assumes "lba_before es (length es) \<le> 2 ^ 64" "es \<noteq> []"
  shows "data_before es (length es) < 2 ^ 64"
proof -
  have "0 < length es" using assms(2) by simp
  then show ?thesis using data_before_le [of es "length es"] assms(1) by linarith
qed

definition valid_entries :: "TapeFileMapEntry list \<Rightarrow> bool" where
  "valid_entries es \<longleftrightarrow> es \<noteq> [] \<and> kind (hd es) = Bootstrap \<and>
     (\<forall>i < length es. entry_ok i (data_before es i) (es ! i)) \<and>
     lba_before es (length es) \<le> 2 ^ 64"

lemma validate_entries_Inr: "validate_entries es = Inr () \<longleftrightarrow> valid_entries es"
proof (cases es)
  case (Cons e rest)
  have run: "(\<exists>r. try_fold validate_entry_at (0, PhysicalPrefix_new) (enumerate 0 es) = Inr r) \<longleftrightarrow>
      (\<forall>i < length es. entry_ok i (data_before es i) (es ! i)) \<and>
      lba_before es (length es) \<le> 2 ^ 64" (is "?run \<longleftrightarrow> ?ok \<and> ?fits")
  proof
    assume ?run
    then obtain n' p' where "try_fold validate_entry_at (0, PhysicalPrefix_new) (enumerate 0 es)
        = Inr (n', p')" by auto
    then show "?ok \<and> ?fits"
      using prefix_end_le [of p'] by (simp add: validate_fold_Inr prefix_end_new)
  next
    assume spec: "?ok \<and> ?fits"
    then obtain n' :: u64 and p' where "prefix_end p' = lba_before es (length es)"
      "unat n' = data_before es (length es)"
      using prefix_end_exists unat_exists data_before_less [of es] Cons by blast
    with spec have "try_fold validate_entry_at (0, PhysicalPrefix_new) (enumerate 0 es) = Inr (n', p')"
      by (simp add: validate_fold_Inr prefix_end_new)
    then show ?run ..
  qed
  have head: "tape_file_number e = 0 \<and> block_count e = 1"
    if "entry_ok 0 d e" "kind e = Bootstrap" for d
    using that by (auto simp: entry_ok_def row_fields_def word_unat_eq_iff)
  have "validate_entries es = Inr () \<longleftrightarrow>
      (tape_file_number e = 0 \<and> kind e = Bootstrap \<and> block_count e = 1) \<and>
      (\<exists>r. try_fold validate_entry_at (0, PhysicalPrefix_new) (enumerate 0 es) = Inr r)"
    by (simp only: Cons validate_entries.simps guard_Inr rbind_eq_Inr de_Morgan_disj not_not simp_thms)
  also have "\<dots> \<longleftrightarrow> valid_entries es"
    unfolding run using head [of "data_before es 0"] by (auto simp: valid_entries_def Cons)
  finally show ?thesis .
qed (simp add: valid_entries_def)

lemma entry_ok_block_count: "entry_ok i d e \<Longrightarrow> 0 < unat (block_count e)"
  by (simp add: entry_ok_def row_fields_def)

lemma valid_entries_length: "valid_entries es \<Longrightarrow> length es < 2 ^ 64"
proof (cases es)
  case (Cons e rest)
  assume v: "valid_entries es"
  then have "0 < unat (block_count e)"
    by (intro entry_ok_block_count) (auto simp: valid_entries_def Cons)
  moreover have "length rest \<le> lba_before rest (length rest)"
    using data_before_le [of rest "length rest"] by simp
  moreover have "lba_before es (length es) \<le> 2 ^ 64"
    using v by (simp add: valid_entries_def)
  ultimately show ?thesis by (simp add: Cons)
qed simp

lemma FilemarkMap_new_Inr:
  "FilemarkMap_new es = Inr m \<longleftrightarrow>
     valid_entries es \<and> m = \<lparr>map_entries = es, map_tape_file_count = word_of_nat (length es)\<rparr>"
  using valid_entries_length [of es]
  by (auto simp: FilemarkMap_new_def checked_tape_file_count_def u64_of_usize_def
      validate_entries_Inr [symmetric] split: if_splits)

text \<open>The entries of a valid map, read by index.\<close>

definition valid_map :: "FilemarkMap \<Rightarrow> bool" where
  "valid_map m \<longleftrightarrow> FilemarkMap_new (map_entries m) = Inr m"

lemma FilemarkMap_new_valid: "FilemarkMap_new es = Inr m \<Longrightarrow> valid_map m \<and> map_entries m = es"
  by (auto simp: valid_map_def FilemarkMap_new_Inr)

lemma valid_map_iff:
  "valid_map m \<longleftrightarrow> valid_entries (map_entries m) \<and>
     map_tape_file_count m = word_of_nat (length (map_entries m))"
  by (cases m) (auto simp: valid_map_def FilemarkMap_new_Inr)

lemma valid_entry:
  assumes "valid_map m" "i < length (map_entries m)"
  shows "entry_ok i (data_before (map_entries m) i) (map_entries m ! i)"
    and "unat (tape_file_number (map_entries m ! i)) = i"
    and "lba_before (map_entries m) (Suc i) \<le> 2 ^ 64"
    and "kind (map_entries m ! i) = Object \<Longrightarrow>
      map_option unat (first_parity_data_ordinal (map_entries m ! i))
        = Some (data_before (map_entries m) i)"
    and "kind (map_entries m ! i) \<noteq> Object \<Longrightarrow> first_parity_data_ordinal (map_entries m ! i) = None"
proof -
  let ?es = "map_entries m"
  from assms show ok: "entry_ok i (data_before ?es i) (?es ! i)"
    by (simp add: valid_map_iff valid_entries_def)
  have "i < 2 ^ 64"
    using assms valid_entries_length [of ?es] by (simp add: valid_map_iff)
  with ok show "unat (tape_file_number (?es ! i)) = i"
    by (simp add: entry_ok_def unat_word_of_nat)
  show "lba_before ?es (Suc i) \<le> 2 ^ 64"
    using assms addresses.start_mono [of "Suc i" "length ?es" ?es]
    by (simp add: valid_map_iff valid_entries_def)
  show "kind (?es ! i) = Object \<Longrightarrow>
      map_option unat (first_parity_data_ordinal (?es ! i)) = Some (data_before ?es i)"
    using ok by (simp add: entry_ok_def)
  show "kind (?es ! i) \<noteq> Object \<Longrightarrow> first_parity_data_ordinal (?es ! i) = None"
    using ok by (auto simp: entry_ok_def row_fields_def)
qed

lemma map_entry_Inr:
  assumes "valid_map m"
  shows "map_entry m number = Inr e \<longleftrightarrow>
    unat number < length (map_entries m) \<and> e = map_entries m ! unat number"
  using valid_entry(2) [OF assms, of "unat number"]
  by (auto simp: map_entry_def word_unat_eq_iff)

section \<open>Ordinals\<close>

lemma valid_data_bound: "valid_map m \<Longrightarrow> data_before (map_entries m) i < 2 ^ 64"
proof -
  let ?es = "map_entries m"
  assume "valid_map m"
  then have "data_before ?es (length ?es) < 2 ^ 64"
    by (intro data_before_less) (simp_all add: valid_map_iff valid_entries_def)
  moreover have "data_before ?es i \<le> data_before ?es (length ?es)"
  proof (cases "i \<le> length ?es")
    case True
    then show ?thesis by (rule ordinals.start_mono)
  qed (simp add: data_before_def)
  ultimately show ?thesis by linarith
qed

lemma data_before_Suc:
  "i < length es \<Longrightarrow> data_before es (Suc i) = data_before es i + data_blocks (es ! i)"
  by (simp add: ordinals.start_Suc nth_or_zero_def)

lemma valid_object:
  assumes "valid_map m" "i < length (map_entries m)" "kind (map_entries m ! i) = Object"
  obtains first where "first_parity_data_ordinal (map_entries m ! i) = Some first"
    "unat first = data_before (map_entries m) i"
    "unat first + unat (block_count (map_entries m ! i)) = data_before (map_entries m) (Suc i)"
  using valid_entry(4) [OF assms] assms(2,3)
  by (auto simp: data_before_Suc data_blocks_def)

lemma object_end:
  assumes "valid_map m" "i < length (map_entries m)"
  shows "map_option unat (object_ordinal_end_exclusive (map_entries m ! i)) =
    (if kind (map_entries m ! i) = Object then Some (data_before (map_entries m) (Suc i)) else None)"
proof (cases "kind (map_entries m ! i) = Object")
  case True
  with assms obtain first where f: "first_parity_data_ordinal (map_entries m ! i) = Some first"
    "unat first + unat (block_count (map_entries m ! i)) = data_before (map_entries m) (Suc i)"
    by (rule valid_object)
  moreover obtain w :: u64 where "unat w = data_before (map_entries m) (Suc i)"
    using unat_exists [OF valid_data_bound [OF assms(1)]] by blast
  ultimately have "checked_add first (block_count (map_entries m ! i)) = Some w"
    by (simp add: checked_simps)
  with f True \<open>unat w = _\<close> show ?thesis by (simp add: object_ordinal_end_exclusive_def)
next
  case False
  then show ?thesis
    using valid_entry(5) [OF assms] by (simp add: object_ordinal_end_exclusive_def)
qed

lemma max_or_zero_snoc: "max_or_zero (xs @ [x]) = max (max_or_zero xs) x"
  by (cases xs) (simp_all add: max.commute)

lemma total_data_ordinals_eq:
  assumes "valid_map m"
  shows "unat (total_data_ordinals m) = data_before (map_entries m) (length (map_entries m))"
proof -
  let ?es = "map_entries m"
  have "unat (max_or_zero (List.map_filter object_ordinal_end_exclusive (take n ?es))) = data_before ?es n"
    if "n \<le> length ?es" for n
    using that
  proof (induction n)
    case 0
    then show ?case by (simp add: ordinals.start_0 map_filter_simps)
  next
    case (Suc n)
    then have n: "n < length ?es" by simp
    have "data_before ?es n \<le> data_before ?es (Suc n)"
      by (rule ordinals.start_mono) simp
    with object_end [OF assms n] Suc show ?case
      by (auto simp: take_Suc_conv_app_nth n map_filter_def max_or_zero_snoc data_before_Suc
          data_blocks_def max_def word_le_nat_alt split: if_splits)
  qed
  from this [of "length ?es"] show ?thesis by (simp add: total_data_ordinals_def)
qed

lemma ordinal_at_Inr:
  assumes "valid_map m"
  shows "ordinal_at m pos = Inr (Some ordinal) \<longleftrightarrow>
    (\<exists>i < length (map_entries m). i = unat (pos_tape_file_number pos) \<and>
       kind (map_entries m ! i) = Object \<and>
       unat (block_within_file pos) < unat (block_count (map_entries m ! i)) \<and>
       unat ordinal = data_before (map_entries m) i + unat (block_within_file pos))"
proof -
  let ?i = "unat (pos_tape_file_number pos)" and ?es = "map_entries m"
  have "ordinal_at m pos = Inr (Some ordinal) \<longleftrightarrow> ?i < length ?es \<and>
      unat (block_within_file pos) < unat (block_count (?es ! ?i)) \<and>
      (\<exists>first. kind (?es ! ?i) = Object \<and> first_parity_data_ordinal (?es ! ?i) = Some first \<and>
         ordinal = first + block_within_file pos)"
    by (auto simp: ordinal_at_def map_entry_Inr [OF assms] not_le word_less_nat_alt
        split: option.splits TapeFileKind.splits)
  also have "\<dots> \<longleftrightarrow> ?i < length ?es \<and> kind (?es ! ?i) = Object \<and>
      unat (block_within_file pos) < unat (block_count (?es ! ?i)) \<and>
      unat ordinal = data_before ?es ?i + unat (block_within_file pos)"
  proof (cases "?i < length ?es \<and> kind (?es ! ?i) = Object \<and>
      unat (block_within_file pos) < unat (block_count (?es ! ?i))")
    case True
    then obtain first where f: "first_parity_data_ordinal (?es ! ?i) = Some first"
      "unat first = data_before ?es ?i"
      "unat first + unat (block_count (?es ! ?i)) = data_before ?es (Suc ?i)"
      using valid_object [OF assms] by metis
    then have "unat first + unat (block_within_file pos) < 2 ^ LENGTH(64)"
      using True valid_data_bound [OF assms, of "Suc ?i"] by simp
    then have "unat (first + block_within_file pos) = unat first + unat (block_within_file pos)"
      by (rule unat_plus_exact)
    then have "ordinal = first + block_within_file pos \<longleftrightarrow>
        unat ordinal = data_before ?es ?i + unat (block_within_file pos)"
      by (simp add: word_unat_eq_iff f(2))
    with True f(1) show ?thesis by simp
  qed auto
  finally show ?thesis by auto
qed

lemma find_ordinal_Inr:
  assumes "\<And>e first. e \<in> set es \<Longrightarrow> first_parity_data_ordinal e = Some first \<Longrightarrow>
      unat first + unat (block_count e) < 2 ^ 64"
  shows "find_ordinal es ordinal = Inr pos \<Longrightarrow> \<exists>e \<in> set es. \<exists>first.
      first_parity_data_ordinal e = Some first \<and> unat first \<le> unat ordinal \<and>
      unat ordinal < unat first + unat (block_count e) \<and>
      pos_tape_file_number pos = tape_file_number e \<and>
      unat (block_within_file pos) = unat ordinal - unat first"
    and "e \<in> set es \<Longrightarrow> first_parity_data_ordinal e = Some first \<Longrightarrow> unat first \<le> unat ordinal \<Longrightarrow>
      unat ordinal < unat first + unat (block_count e) \<Longrightarrow> \<exists>pos. find_ordinal es ordinal = Inr pos"
  using assms
proof (induction es)
  case (Cons x es)
  { case 1
    then show ?case
      using Cons.IH(1) by (auto simp: checked_simps word_le_nat_alt
          word_less_nat_alt unat_minus_exact split: option.splits if_splits) }
  { case 2
    show ?case
    proof (cases "first_parity_data_ordinal x")
      case None
      with 2 Cons.IH(2) show ?thesis by auto
    next
      case (Some f)
      with 2(5) [of x f] have "checked_add f (block_count x) \<noteq> None" by (simp add: checked_simps)
      then obtain fin where fin: "checked_add f (block_count x) = Some fin" by blast
      then have "unat fin = unat f + unat (block_count x)" by (simp add: checked_simps)
      with 2 Cons.IH(2) Some fin show ?thesis by (auto simp: word_le_nat_alt word_less_nat_alt)
    qed }
qed simp_all

text \<open>The object that holds an ordinal.\<close>

definition holds_ordinal :: "FilemarkMap \<Rightarrow> u64 \<Rightarrow> nat \<Rightarrow> bool" where
  "holds_ordinal m ordinal i \<longleftrightarrow> i < length (map_entries m) \<and> kind (map_entries m ! i) = Object \<and>
     data_before (map_entries m) i \<le> unat ordinal \<and>
     unat ordinal < data_before (map_entries m) (Suc i)"

lemma holds_ordinal_unique:
  assumes "holds_ordinal m ordinal i" "holds_ordinal m ordinal j"
  shows "i = j"
proof -
  let ?es = "map_entries m"
  have "unat ordinal - data_before ?es k < nth_or_zero data_blocks ?es k"
    if "holds_ordinal m ordinal k" for k
    using that by (auto simp: holds_ordinal_def nth_or_zero_def data_before_Suc)
  with assms show ?thesis
    using ordinals.address_eq_iff [of "unat ordinal - data_before ?es i" ?es i
        "unat ordinal - data_before ?es j" j] by (simp add: holds_ordinal_def)
qed

lemma holds_ordinal_exists:
  assumes "valid_map m"
  shows "(\<exists>i. holds_ordinal m ordinal i) \<longleftrightarrow> ordinal < total_data_ordinals m"
proof -
  let ?es = "map_entries m"
  have "(\<exists>i. holds_ordinal m ordinal i) \<longleftrightarrow> unat ordinal < data_before ?es (length ?es)"
  proof
    assume "unat ordinal < data_before ?es (length ?es)"
    then obtain i where "i < length ?es" "data_before ?es i \<le> unat ordinal"
      "unat ordinal < data_before ?es i + nth_or_zero data_blocks ?es i"
      using ordinals.address_exists by blast
    then show "\<exists>i. holds_ordinal m ordinal i"
      by (intro exI [of _ i]) (auto simp: holds_ordinal_def data_before_Suc nth_or_zero_def
          data_blocks_def split: if_splits)
  next
    assume "\<exists>i. holds_ordinal m ordinal i"
    then show "unat ordinal < data_before ?es (length ?es)"
      using ordinals.start_mono [of _ "length ?es" ?es]
      by (auto simp: holds_ordinal_def intro: order_less_le_trans)
  qed
  then show ?thesis by (simp add: word_less_nat_alt total_data_ordinals_eq [OF assms])
qed

lemma entry_with_ordinal:
  assumes "valid_map m" "e \<in> set (map_entries m)" "first_parity_data_ordinal e = Some first"
  obtains i where "i < length (map_entries m)" "e = map_entries m ! i" "kind e = Object"
    "unat (tape_file_number e) = i" "unat first = data_before (map_entries m) i"
    "unat first + unat (block_count e) = data_before (map_entries m) (Suc i)"
proof -
  from assms(2) obtain i where i: "i < length (map_entries m)" "e = map_entries m ! i"
    by (auto simp: in_set_conv_nth)
  then have k: "kind e = Object" using valid_entry(5) [OF assms(1), of i] assms(3) by fastforce
  with i valid_object [OF assms(1) i(1)] assms(3)
  have "unat first = data_before (map_entries m) i"
    "unat first + unat (block_count e) = data_before (map_entries m) (Suc i)"
    by (metis option.inject)+
  with that i k valid_entry(2) [OF assms(1) i(1)] show thesis by simp
qed

lemma valid_ordinal_fits:
  "valid_map m \<Longrightarrow> e \<in> set (map_entries m) \<Longrightarrow> first_parity_data_ordinal e = Some first \<Longrightarrow>
    unat first + unat (block_count e) < 2 ^ 64"
  using entry_with_ordinal valid_data_bound by metis

lemma position_for_ordinal_holds:
  assumes "valid_map m"
  shows "position_for_ordinal m ordinal = Inr pos \<Longrightarrow>
      holds_ordinal m ordinal (unat (pos_tape_file_number pos)) \<and>
      unat ordinal = data_before (map_entries m) (unat (pos_tape_file_number pos))
        + unat (block_within_file pos)"
    and "holds_ordinal m ordinal i \<Longrightarrow> \<exists>pos. position_for_ordinal m ordinal = Inr pos"
proof -
  note fits = valid_ordinal_fits [OF assms]
  assume "position_for_ordinal m ordinal = Inr pos"
  then have "find_ordinal (map_entries m) ordinal = Inr pos"
    by (simp add: position_for_ordinal_def)
  from find_ordinal_Inr(1) [OF fits this] obtain e first where e: "e \<in> set (map_entries m)"
    "first_parity_data_ordinal e = Some first" "unat first \<le> unat ordinal"
    "unat ordinal < unat first + unat (block_count e)"
    "pos_tape_file_number pos = tape_file_number e"
    "unat (block_within_file pos) = unat ordinal - unat first" by blast
  from entry_with_ordinal [OF assms e(1,2)] obtain i where "i < length (map_entries m)"
    "e = map_entries m ! i" "kind e = Object" "unat (tape_file_number e) = i"
    "unat first = data_before (map_entries m) i"
    "unat first + unat (block_count e) = data_before (map_entries m) (Suc i)" .
  with e show "holds_ordinal m ordinal (unat (pos_tape_file_number pos)) \<and>
      unat ordinal = data_before (map_entries m) (unat (pos_tape_file_number pos))
        + unat (block_within_file pos)"
    by (auto simp: holds_ordinal_def)
next
  note fits = valid_ordinal_fits [OF assms]
  show "\<exists>pos. position_for_ordinal m ordinal = Inr pos" if "holds_ordinal m ordinal i"
  proof -
    from that obtain first where "first_parity_data_ordinal (map_entries m ! i) = Some first"
      "unat first = data_before (map_entries m) i"
      "unat first + unat (block_count (map_entries m ! i)) = data_before (map_entries m) (Suc i)"
      using valid_object [OF assms, of i] by (metis holds_ordinal_def)
    with that show ?thesis
      using find_ordinal_Inr(2) [OF fits, of "map_entries m" "map_entries m ! i" first ordinal]
      by (simp add: holds_ordinal_def position_for_ordinal_def)
  qed
qed

lemma ordinal_at_holds:
  "valid_map m \<Longrightarrow> ordinal_at m pos = Inr (Some ordinal) \<longleftrightarrow>
    holds_ordinal m ordinal (unat (pos_tape_file_number pos)) \<and>
    unat ordinal = data_before (map_entries m) (unat (pos_tape_file_number pos))
      + unat (block_within_file pos)"
  by (auto simp: ordinal_at_Inr holds_ordinal_def data_before_Suc data_blocks_def)

lemma position_for_ordinal_Inr:
  assumes "valid_map m"
  shows "position_for_ordinal m ordinal = Inr pos \<longleftrightarrow> ordinal_at m pos = Inr (Some ordinal)"
proof
  assume at: "ordinal_at m pos = Inr (Some ordinal)"
  then obtain pos' where pos': "position_for_ordinal m ordinal = Inr pos'"
    using position_for_ordinal_holds(2) [OF assms] by (auto simp: ordinal_at_holds [OF assms])
  note hold = position_for_ordinal_holds(1) [OF assms pos'] at [unfolded ordinal_at_holds [OF assms]]
  then have "unat (pos_tape_file_number pos') = unat (pos_tape_file_number pos)"
    using holds_ordinal_unique by blast
  with hold have "pos' = pos"
    by (cases pos; cases pos') (simp add: word_unat_eq_iff)
  with pos' show "position_for_ordinal m ordinal = Inr pos" by simp
qed (use position_for_ordinal_holds(1) [OF assms] ordinal_at_holds [OF assms] in blast)

section \<open>Physical positions\<close>

lemma add_tape_file_Inr:
  "add_tape_file msg acc e = Inr r \<longleftrightarrow> unat r = unat acc + (unat (block_count e) + 1)"
proof -
  have "add_tape_file msg acc e = Inr r \<longleftrightarrow>
      (\<exists>v :: u64. unat v = unat acc + unat (block_count e) \<and> unat v + 1 = unat r)"
    by (simp add: add_tape_file_def bind_eq_Some_conv checked_simps eq_commute [of _ "unat _"])
  also have "\<dots> \<longleftrightarrow> unat r = unat acc + (unat (block_count e) + 1)"
    unfolding ex_u64 [where P = "\<lambda>x. x + 1 = unat r"] using unat_u64_less [of r] by auto
  finally show ?thesis .
qed

lemma add_tape_files_Inr:
  "try_fold (add_tape_file msg) acc es = Inr r \<longleftrightarrow> unat r = unat acc + lba_before es (length es)"
proof (induction es arbitrary: acc)
  case Nil
  show ?case by (auto simp: addresses.start_0 word_unat_eq_iff)
next
  case (Cons e es)
  have "try_fold (add_tape_file msg) acc (e # es) = Inr r \<longleftrightarrow>
      (\<exists>v :: u64. unat v = unat acc + (unat (block_count e) + 1) \<and>
         unat r = unat v + lba_before es (length es))"
    by (simp add: add_tape_file_Inr Cons.IH)
  also have "\<dots> \<longleftrightarrow> unat r = unat acc + lba_before (e # es) (length (e # es))"
    unfolding ex_u64 [where P = "\<lambda>x. unat r = x + lba_before es (length es)"]
    using unat_u64_less [of r] by auto
  finally show ?case .
qed

definition in_tape_file :: "FilemarkMap \<Rightarrow> TapeFilePosition \<Rightarrow> bool" where
  "in_tape_file m pos \<longleftrightarrow> unat (pos_tape_file_number pos) < length (map_entries m) \<and>
     block_within_file pos < block_count (map_entries m ! unat (pos_tape_file_number pos))"

definition lba_of :: "FilemarkMap \<Rightarrow> TapeFilePosition \<Rightarrow> nat" where
  "lba_of m pos = lba_before (map_entries m) (unat (pos_tape_file_number pos))
     + unat (block_within_file pos)"

lemma in_tape_file_address:
  "in_tape_file m pos \<Longrightarrow> unat (block_within_file pos) <
     nth_or_zero (\<lambda>e. unat (block_count e) + 1) (map_entries m) (unat (pos_tape_file_number pos))"
  by (simp add: in_tape_file_def nth_or_zero_def word_less_nat_alt)

lemma lba_of_less:
  assumes "valid_map m" "in_tape_file m pos"
  shows "lba_of m pos < 2 ^ 64"
proof -
  let ?i = "unat (pos_tape_file_number pos)"
  have "?i < length (map_entries m)" using assms(2) by (simp add: in_tape_file_def)
  from valid_entry(3) [OF assms(1) this] show ?thesis
    using in_tape_file_address [OF assms(2)] by (simp add: lba_of_def addresses.start_Suc)
qed

lemma physical_position_Inr:
  assumes "valid_map m"
  shows "physical_position m pos = Inr h \<longleftrightarrow>
    in_tape_file m pos \<and> pph_partition h = 0 \<and> unat (pph_lba h) = lba_of m pos"
proof -
  let ?i = "unat (pos_tape_file_number pos)"
  have fold: "try_fold (add_tape_file msg) 0 (take ?i (map_entries m)) = Inr v \<longleftrightarrow>
      unat v = lba_before (map_entries m) ?i" for msg v
    by (simp add: add_tape_files_Inr) (simp add: lba_before_def min_def)
  have "physical_position m pos = Inr h \<longleftrightarrow> in_tape_file m pos \<and>
      (\<exists>v :: u64. unat v = lba_before (map_entries m) ?i \<and>
         (\<exists>lba. unat v + unat (block_within_file pos) = unat lba \<and> PhysicalPositionHint_new lba = h))"
    unfolding physical_position_def in_tape_file_def rbind_eq_Inr map_entry_Inr [OF assms] guard_Inr
      fold ok_or_eq_Inr checked_simps sum.inject not_le by blast
  also have "\<dots> \<longleftrightarrow> in_tape_file m pos \<and>
      (\<exists>lba. lba_of m pos = unat lba \<and> PhysicalPositionHint_new lba = h)"
    unfolding ex_u64 [where P = "\<lambda>x. \<exists>lba. x + unat (block_within_file pos) = unat lba \<and>
        PhysicalPositionHint_new lba = h"]
    using lba_of_less [OF assms, of pos] by (auto simp: lba_of_def)
  also have "\<dots> \<longleftrightarrow> in_tape_file m pos \<and> pph_partition h = 0 \<and> unat (pph_lba h) = lba_of m pos"
    by (cases h) (auto simp: PhysicalPositionHint_new_def)
  finally show ?thesis .
qed

lemma lba_of_less_iff:
  "in_tape_file m p \<Longrightarrow> in_tape_file m q \<Longrightarrow> lba_of m p < lba_of m q \<longleftrightarrow>
    pos_tape_file_number p < pos_tape_file_number q \<or>
    pos_tape_file_number p = pos_tape_file_number q \<and> block_within_file p < block_within_file q"
  using addresses.address_less_iff [OF in_tape_file_address in_tape_file_address]
  by (simp add: lba_of_def word_less_nat_alt word_unat_eq_iff)

lemma physical_run_Inr:
  assumes "valid_map m"
  shows "physical_run m number first_block count = Inr h \<longleftrightarrow>
    unat number < length (map_entries m) \<and> 0 < unat count \<and>
    unat first_block + unat count \<le> unat (block_count (map_entries m ! unat number)) \<and>
    physical_position m \<lparr>pos_tape_file_number = number, block_within_file = first_block\<rparr> = Inr h"
  (is "_ \<longleftrightarrow> ?in \<and> 0 < unat count \<and> ?fits \<and> physical_position m ?pos = Inr h")
proof -
  have fits: "(case checked_add first_block count of
      None \<Rightarrow> True | Some v \<Rightarrow> v > block_count (map_entries m ! unat number)) \<longleftrightarrow> \<not> ?fits"
    using unat_u64_less [of "block_count (map_entries m ! unat number)"]
    by (auto simp: checked_simps word_less_nat_alt split: option.splits)
  have last: "checked_add (pph_lba h) (count - 1) \<noteq> None"
    if "physical_position m ?pos = Inr h" "0 < unat count" ?in ?fits
  proof -
    let ?last = "\<lparr>pos_tape_file_number = number, block_within_file = first_block + (count - 1)\<rparr>"
    have c: "unat (count - 1) = unat count - 1"
      using that(2) by (intro unat_minus_one) auto
    then have b: "unat (first_block + (count - 1)) = unat first_block + (unat count - 1)"
      using that(2,4) unat_u64_less [of "block_count (map_entries m ! unat number)"]
      by (subst unat_plus_exact) simp_all
    then have "in_tape_file m ?last"
      using that by (simp add: in_tape_file_def word_less_nat_alt)
    from lba_of_less [OF assms this] show ?thesis
      using that(1) b c by (simp add: physical_position_Inr [OF assms] lba_of_def checked_simps)
  qed
  then show ?thesis
    unfolding physical_run_def rbind_eq_Inr map_entry_Inr [OF assms]
    by (auto simp: fits unat_gt_0 ok_or_def split: option.splits)
qed

lemma append_position_Inr:
  "append_position_after_prefix m = Inr h \<longleftrightarrow>
    pph_partition h = 0 \<and> unat (pph_lba h) = lba_before (map_entries m) (length (map_entries m))"
  by (cases h) (auto simp: append_position_after_prefix_def add_tape_files_Inr
      PhysicalPositionHint_new_def)

section \<open>Prefixes and row order\<close>

lemma valid_entries_take:
  assumes "valid_entries es" "0 < n"
  shows "valid_entries (take n es)"
proof -
  have "lba_before (take n es) (length (take n es)) \<le> lba_before es (length es)"
  proof (cases "n \<le> length es")
    case True
    then show ?thesis
      using addresses.start_mono [OF True, of es] by (simp add: lba_before_take)
  qed simp
  with assms show ?thesis
    by (auto simp: valid_entries_def data_before_take hd_take)
qed

lemma truncate_Inr:
  assumes "valid_map m"
  shows "truncate_to_tape_files m count = Inr m' \<longleftrightarrow>
    0 < unat count \<and> unat count \<le> length (map_entries m) \<and>
    m' = \<lparr>map_entries = take (unat count) (map_entries m), map_tape_file_count = count\<rparr>"
proof -
  have "valid_entries (take (unat count) (map_entries m)) \<longleftrightarrow> 0 < unat count"
    if "unat count \<le> length (map_entries m)"
    using assms valid_entries_take [of "map_entries m" "unat count"] that
    by (auto simp: valid_map_iff valid_entries_def)
  moreover have "(word_of_nat (min (length (map_entries m)) (unat count)) :: u64) = count"
    if "unat count \<le> length (map_entries m)"
    using that by (simp add: min_absorb2)
  ultimately show ?thesis
    by (auto simp: truncate_to_tape_files_def FilemarkMap_new_Inr)
qed

lemma from_unordered_permutation:
  assumes "FilemarkMap_new es = Inr m" "distinct rows" "set rows = set es"
  shows "from_unordered_entries rows = Inr m"
proof -
  let ?sorted = "sort_key tape_file_number rows"
  have v: "valid_map m" "map_entries m = es" using FilemarkMap_new_valid [OF assms(1)] by auto
  note number = valid_entry(2) [OF v(1), unfolded v(2)]
  have "sorted (map tape_file_number es)"
    using number by (auto simp: sorted_iff_nth_mono word_le_nat_alt)
  moreover have inj: "inj_on tape_file_number (set es)"
    using number by (auto simp: inj_on_def in_set_conv_nth) metis
  moreover have "distinct es"
    using number by (metis distinct_conv_nth)
  ultimately have "map tape_file_number ?sorted = map tape_file_number es"
    using assms(2,3) by (intro sorted_distinct_set_unique) (simp_all add: distinct_map)
  then have "?sorted = es"
    using inj assms(3) by (auto intro: map_inj_on)
  with assms(1) show ?thesis by (simp add: from_unordered_entries_def)
qed

section \<open>The builder\<close>

definition builder_inv :: "FilemarkMapBuilder \<Rightarrow> bool" where
  "builder_inv b \<longleftrightarrow> base_tape_file_count b = 0 \<and> base_total_data_ordinals b = 0 \<and>
     (builder_entries b \<noteq> [] \<longrightarrow> kind (hd (builder_entries b)) = Bootstrap) \<and>
     (\<forall>i < length (builder_entries b).
        entry_ok i (data_before (builder_entries b) i) (builder_entries b ! i))"

lemma builder_inv_initial:
  "builder_inv FilemarkMapBuilder_new" "valid_map m \<Longrightarrow> builder_inv (from_committed_prefix m)"
  by (simp_all add: builder_inv_def FilemarkMapBuilder_new_def from_committed_prefix_def
      valid_map_iff valid_entries_def)

lemma add_object_blocks_Inr:
  "try_fold add_object_blocks acc es = Inr r \<longleftrightarrow> unat r = unat acc + data_before es (length es)"
proof (induction es arbitrary: acc)
  case Nil
  show ?case by (auto simp: ordinals.start_0 word_unat_eq_iff)
next
  case (Cons e es)
  have step: "add_object_blocks acc e = Inr v \<longleftrightarrow> unat v = unat acc + data_blocks e" for v
    by (auto simp: add_object_blocks_def data_blocks_def checked_simps word_unat_eq_iff)
  have "try_fold add_object_blocks acc (e # es) = Inr r \<longleftrightarrow>
      (\<exists>v :: u64. unat v = unat acc + data_blocks e \<and>
         unat r = unat v + data_before es (length es))"
    by (simp add: step Cons.IH)
  also have "\<dots> \<longleftrightarrow> unat r = unat acc + data_before (e # es) (length (e # es))"
    unfolding ex_u64 [where P = "\<lambda>x. unat r = x + data_before es (length es)"]
    using unat_u64_less [of r] by auto
  finally show ?case .
qed

lemma builder_inv_append:
  assumes "builder_inv b" "entry_ok (length (builder_entries b))
      (data_before (builder_entries b) (length (builder_entries b))) e"
    "builder_entries b = [] \<Longrightarrow> kind e = Bootstrap"
  shows "builder_inv (b\<lparr>builder_entries := builder_entries b @ [e]\<rparr>)"
  using assms
  by (auto simp: builder_inv_def nth_append data_before_append less_Suc_eq hd_append)

lemma next_tape_file_number_Inr:
  "builder_inv b \<Longrightarrow> next_tape_file_number b = Inr number \<longleftrightarrow>
    int (length (builder_entries b)) < 2 ^ 64 \<and> number = word_of_nat (length (builder_entries b))"
  by (auto simp: next_tape_file_number_def builder_tape_file_count_def builder_inv_def
      checked_tape_file_count_def u64_of_usize_def checked_simps word_unat_eq_iff)

lemma require_bot_authority_Inr:
  "builder_inv b \<Longrightarrow> require_bot_authority b = Inr () \<Longrightarrow> builder_entries b \<noteq> []"
  by (auto simp: require_bot_authority_def builder_inv_def split: list.splits)

lemmas push_defs = push_object_def push_parity_sidecar_def push_bootstrap_def push_parity_map_def
  push_tape_index_replica_def push_index_separation_extent_def push_entry_def

lemmas entry_defs = entry_object_def entry_parity_sidecar_def entry_bootstrap_def
  entry_parity_map_def entry_tape_index_replica_def entry_index_separation_extent_def
  structural_control_def

lemma builder_step_inv:
  assumes "builder_step b b'" "builder_inv b"
  shows "builder_inv b'"
  using assms
proof cases
  case (bootstrap e)
  then have "builder_entries b = []" by (simp add: push_bootstrap_def)
  with bootstrap assms(2) show ?thesis
    by (auto simp: push_defs next_tape_file_number_Inr entry_ok_def entry_defs builder_inv_def)
qed (use assms(2) require_bot_authority_Inr [OF assms(2)] in
     \<open>auto simp: push_defs next_tape_file_number_Inr entry_ok_def entry_defs
        current_total_data_ordinals_def add_object_blocks_Inr builder_inv_def [of b]
        intro!: builder_inv_append\<close>)

lemma builder_reachable_inv: "builder_step\<^sup>*\<^sup>* b b' \<Longrightarrow> builder_inv b \<Longrightarrow> builder_inv b'"
  by (induction rule: rtranclp_induct) (auto intro: builder_step_inv)

lemma builder_inv_build:
  assumes "builder_inv b" "builder_entries b \<noteq> []"
  shows "(\<exists>m. builder_build b = Inr m) \<longleftrightarrow>
    lba_before (builder_entries b) (length (builder_entries b)) \<le> 2 ^ 64"
  using assms by (auto simp: builder_build_def FilemarkMap_new_Inr builder_inv_def valid_entries_def)

section \<open>The digest and the recovery scope\<close>

lemma optional_u64_inject: "optional_u64 v = optional_u64 w \<longleftrightarrow> v = w"
  by (auto simp: optional_u64_def word_uint_eq_iff split: option.splits)

lemma projection_code_inject: "projection_code k = projection_code k' \<longleftrightarrow> k = k'"
  by (cases k; cases k') simp_all

lemma entry_projection_inject: "entry_projection e = entry_projection e' \<longleftrightarrow> e = e'"
  by (cases e; cases e') (simp add: entry_projection_def optional_u64_inject
      projection_code_inject word_uint_eq_iff [symmetric])

lemma entry_projection_wf:
  "cbor_wf (entry_projection e)" "cbor_depth_within (Suc d) (entry_projection e)"
proof -
  have "- (2 ^ 64) \<le> uint w" "uint w < 2 ^ 64" for w :: u64
    using uint_lt2p [of w] by (simp_all add: order_trans [OF _ uint_ge_0])
  then show "cbor_wf (entry_projection e)"
    by (auto simp: entry_projection_def optional_u64_def split: option.splits)
  show "cbor_depth_within (Suc d) (entry_projection e)"
    by (auto simp: entry_projection_def optional_u64_def split: option.splits)
qed

lemma map_projection_wf:
  "valid_map m \<Longrightarrow> cbor_wf (Array (map entry_projection (map_entries m)))"
  "cbor_depth_within 2 (Array (map entry_projection (map_entries m)))"
  using valid_entries_length [of "map_entries m"]
  by (simp add: list_all_iff entry_projection_wf valid_map_iff)
    (simp add: list_all_iff entry_projection_wf numeral_2_eq_2)

lemma canonical_digest_Inr:
  assumes "ciborium W R" "valid_map m"
  shows "canonical_digest W sha256 m =
    Inr (sha256 (cbor_encode (Array (map entry_projection (map_entries m)))))"
  using ciborium.into_writer_deterministic [OF assms(1) map_projection_wf(1) [OF assms(2)]]
  by (simp add: canonical_digest_def canonical_projection_bytes_def)

definition projection_collision :: "(bytes \<Rightarrow> bytes) \<Rightarrow> FilemarkMap \<Rightarrow> FilemarkMap \<Rightarrow> bool" where
  "projection_collision sha256 m m' \<longleftrightarrow>
     (let x = cbor_encode (Array (map entry_projection (map_entries m)));
          y = cbor_encode (Array (map entry_projection (map_entries m')))
      in x \<noteq> y \<and> sha256 x = sha256 y)"

lemma canonical_digest_collision:
  assumes "ciborium W R" "valid_map m" "valid_map m'"
    and "canonical_digest W sha256 m = canonical_digest W sha256 m'"
  shows "m = m' \<or> projection_collision sha256 m m'"
proof (cases "map_entries m = map_entries m'")
  case True
  then show ?thesis using assms(2,3) by (auto simp: valid_map_def)
next
  case False
  moreover have "inj entry_projection"
    by (simp add: inj_def entry_projection_inject)
  ultimately have "map entry_projection (map_entries m) \<noteq> map entry_projection (map_entries m')"
    by simp
  then have "cbor_encode (Array (map entry_projection (map_entries m))) \<noteq>
      cbor_encode (Array (map entry_projection (map_entries m')))"
    using cbor_encode_inject [OF map_projection_wf(1) [OF assms(2)] map_projection_wf(1) [OF assms(3)]
        map_projection_wf(2) map_projection_wf(2)] by simp
  then show ?thesis
    using assms(4) canonical_digest_Inr [OF assms(1)] assms(2,3)
    by (simp add: projection_collision_def)
qed

text \<open>The part of a map that a digest covers.\<close>

definition covered_part :: "FilemarkMap \<Rightarrow> FilemarkMapDigest \<Rightarrow> FilemarkMap parity_result" where
  "covered_part m digest =
     (if covers_complete_map digest then Inr m
      else truncate_to_tape_files m (fmd_tape_file_count digest))"

lemma validate_against_digest_Inr:
  "validate_against_digest W sha256 m digest = Inr s \<longleftrightarrow>
    (\<exists>v. covered_part m digest = Inr v \<and>
       FilemarkMap_digest W sha256 v (covers_complete_map digest) = Inr digest) \<and>
    s = \<lparr>scoped_map = m,
         validated_prefix_tape_files =
           (if covers_complete_map digest then None else Some (fmd_tape_file_count digest)),
         scope =
           (if covers_complete_map digest then Complete (fmd_highest_protected_ordinal digest)
            else Prefix (fmd_map_total_data_ordinals digest) (fmd_highest_protected_ordinal digest)),
         sidecar_directory = None, map_source = Walk\<rparr>"
  by (cases digest)
    (auto simp: validate_against_digest_def covered_part_def FilemarkMap_digest_def Let_def)

lemma recoverable_Inr:
  "recoverable sc ordinal = Inr () \<longleftrightarrow> ordinal < watermark sc \<and>
    (case sc of Complete _ \<Rightarrow> True | Prefix ordinals _ \<Rightarrow> ordinal < ordinals)"
  by (cases sc) (auto simp: recoverable_def not_le)

lemma covered_part_valid:
  assumes "valid_map m" "covered_part m digest = Inr v"
  shows "valid_map v" "\<exists>n. map_entries v = take n (map_entries m)"
    "unat (map_tape_file_count v) = length (map_entries v)"
proof -
  show v: "valid_map v"
    using assms by (auto simp: covered_part_def truncate_to_tape_files_def
        dest: FilemarkMap_new_valid split: if_splits)
  show "\<exists>n. map_entries v = take n (map_entries m)"
    using assms by (auto simp: covered_part_def truncate_Inr split: if_splits
        intro: exI [of _ "length (map_entries m)"])
  show "unat (map_tape_file_count v) = length (map_entries v)"
    using v valid_entries_length [of "map_entries v"]
    by (simp add: valid_map_iff unat_word_of_nat)
qed

section \<open>Correctness of the filemark map\<close>

text \<open>A small tape for the witnesses: bootstrap, object, sidecar, object, parity map.\<close>

definition sample_entries :: "TapeFileMapEntry list" where
  "sample_entries =
     [entry_bootstrap 0 1, entry_object 1 5 0, entry_parity_sidecar 2 4 0 0 5,
      entry_object 3 2 5, entry_parity_map 4 3]"

definition sample_map :: FilemarkMap where
  "sample_map = \<lparr>map_entries = sample_entries, map_tape_file_count = 5\<rparr>"

lemma sample_map_new: "FilemarkMap_new sample_entries = Inr sample_map"
  by code_simp

lemma sample_map_valid: "valid_map sample_map"
  using FilemarkMap_new_valid [OF sample_map_new] by simp

text \<open>C18: A filemark map is accepted exactly when it starts with the bootstrap, its tape files are
  numbered densely from zero and have the fields of their kind, no later file is a bootstrap,
  each object starts at the ordinal where the data before it ends, and every record and filemark
  position fits in 64 bits. The accepted map carries the rows unchanged.\<close>

theorem FilemarkMap_new_exact:
  "FilemarkMap_new es = Inr m \<longleftrightarrow>
     es \<noteq> [] \<and> kind (hd es) = Bootstrap \<and>
     (\<forall>i < length es. entry_ok i (data_before es i) (es ! i)) \<and>
     lba_before es (length es) \<le> 2 ^ 64 \<and>
     m = \<lparr>map_entries = es, map_tape_file_count = word_of_nat (length es)\<rparr>"
  by (auto simp: FilemarkMap_new_Inr valid_entries_def)

theorem FilemarkMap_new_exact_witness:
  "lba_before sample_entries 5 \<le> 2 ^ 64 \<and> entry_ok 3 (data_before sample_entries 3) (sample_entries ! 3)"
proof -
  have "length sample_entries = 5" by code_simp
  with FilemarkMap_new_exact [of sample_entries sample_map] sample_map_new show ?thesis by simp
qed

text \<open>C13: The two lookups of a valid map are inverse: the position found for an ordinal is the
  one position whose ordinal it is, and an ordinal has a position exactly when it is below the
  total number of data ordinals.\<close>

theorem ordinal_position_roundtrip:
  assumes "FilemarkMap_new es = Inr m"
  shows "(position_for_ordinal m ordinal = Inr pos \<longleftrightarrow> ordinal_at m pos = Inr (Some ordinal)) \<and>
    ((\<exists>pos'. position_for_ordinal m ordinal = Inr pos') \<longleftrightarrow> ordinal < total_data_ordinals m)"
proof -
  have v: "valid_map m" using FilemarkMap_new_valid [OF assms] by simp
  have "(\<exists>pos'. position_for_ordinal m ordinal = Inr pos') \<longleftrightarrow> (\<exists>i. holds_ordinal m ordinal i)"
    using position_for_ordinal_holds [OF v] by blast
  with position_for_ordinal_Inr [OF v] holds_ordinal_exists [OF v] show ?thesis by simp
qed

theorem ordinal_position_roundtrip_witness:
  "position_for_ordinal sample_map 6 = Inr \<lparr>pos_tape_file_number = 3, block_within_file = 1\<rparr>"
proof -
  have "ordinal_at sample_map \<lparr>pos_tape_file_number = 3, block_within_file = 1\<rparr> = Inr (Some 6)"
    by code_simp
  with ordinal_position_roundtrip [OF sample_map_new] show ?thesis by blast
qed

text \<open>C17: Every block a valid map describes has a physical position, computed without overflow;
  the address is the number of records and filemarks before the block, so the addresses of two
  blocks are ordered as their tape files and, within a file, as the blocks are.\<close>

theorem physical_positions_in_tape_order:
  assumes "FilemarkMap_new es = Inr m" "in_tape_file m p" "in_tape_file m q"
  shows "\<exists>lba_p lba_q. physical_position m p = Inr (PhysicalPositionHint_new lba_p) \<and>
    physical_position m q = Inr (PhysicalPositionHint_new lba_q) \<and>
    unat lba_p = lba_before es (unat (pos_tape_file_number p)) + unat (block_within_file p) \<and>
    (lba_p < lba_q \<longleftrightarrow> pos_tape_file_number p < pos_tape_file_number q \<or>
       pos_tape_file_number p = pos_tape_file_number q \<and> block_within_file p < block_within_file q)"
proof -
  have v: "valid_map m" "map_entries m = es" using FilemarkMap_new_valid [OF assms(1)] by auto
  obtain lba_p lba_q :: u64 where "unat lba_p = lba_of m p" "unat lba_q = lba_of m q"
    using unat_exists lba_of_less [OF v(1)] assms(2,3) by metis
  with assms(2,3) v(2) lba_of_less_iff [OF assms(2,3)] show ?thesis
    by (intro exI [of _ lba_p] exI [of _ lba_q])
      (simp add: physical_position_Inr [OF v(1)] PhysicalPositionHint_new_def word_less_nat_alt
        lba_of_def)
qed

theorem physical_positions_in_tape_order_witness:
  "\<exists>lba. physical_position sample_map \<lparr>pos_tape_file_number = 3, block_within_file = 1\<rparr>
     = Inr (PhysicalPositionHint_new lba) \<and> unat lba = lba_before sample_entries 3 + 1"
proof -
  have "in_tape_file sample_map \<lparr>pos_tape_file_number = 3, block_within_file = 1\<rparr>" by code_simp
  from physical_positions_in_tape_order [OF sample_map_new this this] show ?thesis by auto
qed

text \<open>C15: However a writer's session interleaves its pushes, from an empty builder or from a
  committed prefix, the rows it accumulates are those of a valid map: once there is a row, building
  succeeds exactly when the physical positions fit in 64 bits, the one condition that no push
  checks.\<close>

theorem builder_sessions_build:
  assumes "b = FilemarkMapBuilder_new \<or> (\<exists>es m. FilemarkMap_new es = Inr m \<and> b = from_committed_prefix m)"
    and "builder_step\<^sup>*\<^sup>* b b'" "builder_entries b' \<noteq> []"
  shows "(\<exists>m. builder_build b' = Inr m) \<longleftrightarrow>
    lba_before (builder_entries b') (length (builder_entries b')) \<le> 2 ^ 64"
proof -
  have "builder_inv b"
    using assms(1) builder_inv_initial(1) builder_inv_initial(2) [OF FilemarkMap_new_valid [THEN conjunct1]]
    by auto
  then have "builder_inv b'"
    by (rule builder_reachable_inv [OF assms(2)])
  then show ?thesis
    using assms(3) by (rule builder_inv_build)
qed

theorem builder_sessions_build_witness:
  "\<exists>b'. builder_step\<^sup>*\<^sup>* (from_committed_prefix sample_map) b' \<and> (\<exists>m. builder_build b' = Inr m)"
proof -
  let ?b = "from_committed_prefix sample_map"
  let ?e = "entry_object 5 9 7"
  let ?b' = "?b\<lparr>builder_entries := builder_entries ?b @ [?e]\<rparr>"
  have "push_object ?b 9 = Inr (?e, ?b')" by code_simp
  then have "builder_step\<^sup>*\<^sup>* ?b ?b'" by (blast intro: builder_step.object)
  moreover have "builder_entries ?b' \<noteq> []" by simp
  moreover have "lba_before (builder_entries ?b') (length (builder_entries ?b')) = 30" by code_simp
  moreover have "?b = FilemarkMapBuilder_new \<or>
      (\<exists>es m. FilemarkMap_new es = Inr m \<and> ?b = from_committed_prefix m)"
    using sample_map_new by (intro disjI2 exI conjI) (assumption, rule refl)
  ultimately show ?thesis
    using builder_sessions_build [of ?b ?b'] by (intro exI [of _ ?b']) simp
qed

lemma digest_same_length:
  assumes "valid_map v" "valid_map m0"
    and "FilemarkMap_digest W sha256 v c = Inr digest" "FilemarkMap_digest W sha256 m0 c' = Inr digest"
  shows "length (map_entries v) = length (map_entries m0)" "c = c'"
    "canonical_digest W sha256 v = canonical_digest W sha256 m0"
proof -
  have "map_tape_file_count v = map_tape_file_count m0"
    using assms(3,4) by (auto simp: FilemarkMap_digest_def)
  moreover have "unat (map_tape_file_count x) = length (map_entries x)" if "valid_map x" for x
    using that valid_entries_length [of "map_entries x"] by (simp add: valid_map_iff unat_word_of_nat)
  ultimately show "length (map_entries v) = length (map_entries m0)"
    using assms(1,2) by metis
  show "c = c'" "canonical_digest W sha256 v = canonical_digest W sha256 m0"
    using assms(3,4) by (auto simp: FilemarkMap_digest_def)
qed

lemma covered_part_take:
  assumes "valid_map m" "covered_part m digest = Inr v"
  shows "map_entries v = take (length (map_entries v)) (map_entries m)"
  using covered_part_valid(2) [OF assms] by (metis append_eq_conv_conj append_take_drop_id)

text \<open>C14: A digest authenticates the rows: if a map passes validation against the digest of
  another map, the rows that the digest covers are the rows of that map, all of them when the
  digest covers the complete map, or the two projections are a collision of the hash.\<close>

theorem digest_authenticates_rows:
  assumes "ciborium W R" "FilemarkMap_new es0 = Inr m0"
    and "FilemarkMap_digest W sha256 m0 complete = Inr digest"
    and "FilemarkMap_new es = Inr m" "validate_against_digest W sha256 m digest = Inr s"
  shows "(take (length es0) es = es0 \<and> (complete \<longrightarrow> es = es0)) \<or>
    (\<exists>v. map_entries v = take (length es0) es \<and> projection_collision sha256 v m0)"
proof -
  have m0: "valid_map m0" "map_entries m0 = es0" and m: "valid_map m" "map_entries m = es"
    using FilemarkMap_new_valid assms(2,4) by auto
  from assms(5) obtain v where v: "covered_part m digest = Inr v"
    "FilemarkMap_digest W sha256 v (covers_complete_map digest) = Inr digest"
    by (auto simp: validate_against_digest_Inr)
  note valid = covered_part_valid(1) [OF m(1) v(1)]
  note same = digest_same_length [OF valid m0(1) v(2) assms(3)]
  have rows: "map_entries v = take (length es0) es"
    using covered_part_take [OF m(1) v(1)] same(1) m0(2) m(2) by simp
  have "v = m" if complete
    using v(1) that same(2) by (simp add: covered_part_def)
  with canonical_digest_collision [OF assms(1) valid m0(1) same(3)] rows m0(2) m(2)
  show ?thesis by auto
qed

theorem digest_authenticates_rows_witness:
  "\<exists>s. validate_against_digest reference_writer rev sample_map
     \<lparr>fmd_map_sha256 = rev (cbor_encode (Array (map entry_projection [entry_bootstrap 0 1]))),
      fmd_tape_file_count = 1, fmd_map_total_data_ordinals = 0, fmd_highest_protected_ordinal = 0,
      covers_complete_map = False\<rparr> = Inr s \<and>
     take 1 sample_entries = [entry_bootstrap 0 1]"
proof -
  let ?d = "\<lparr>fmd_map_sha256 = rev (cbor_encode (Array (map entry_projection [entry_bootstrap 0 1]))),
      fmd_tape_file_count = 1, fmd_map_total_data_ordinals = 0, fmd_highest_protected_ordinal = 0,
      covers_complete_map = False\<rparr>"
  let ?m0 = "\<lparr>map_entries = [entry_bootstrap 0 1], map_tape_file_count = 1\<rparr>"
  let ?s = "\<lparr>scoped_map = sample_map, validated_prefix_tape_files = Some 1, scope = Prefix 0 0,
      sidecar_directory = None, map_source = Walk\<rparr>"
  have new: "FilemarkMap_new [entry_bootstrap 0 1] = Inr ?m0" by code_simp
  have dig: "FilemarkMap_digest reference_writer rev ?m0 False = Inr ?d" by code_simp
  have val: "validate_against_digest reference_writer rev sample_map ?d = Inr ?s" by code_simp
  have "\<not> projection_collision rev v ?m0" for v
    by (simp only: projection_collision_def Let_def rev_is_rev_conv not_True_eq_False simp_thms)
  with digest_authenticates_rows [OF rfc8949.ciborium_axioms new dig sample_map_new val]
  have "take (length [entry_bootstrap 0 1]) sample_entries = [entry_bootstrap 0 1]" by blast
  with val show ?thesis by (simp only: length_Cons list.size One_nat_def add_0 simp_thms) blast
qed

lemma holds_ordinal_take:
  assumes "holds_ordinal v ordinal i" "map_entries v = take n (map_entries m)"
  shows "holds_ordinal m ordinal i" "i < n"
  using assms by (auto simp: holds_ordinal_def data_before_take)

text \<open>C16: An ordinal that the scope of a validated prefix allows to be recovered is described by
  the map, lies in a tape file inside the validated prefix, and is below the highest ordinal that
  a sidecar of the prefix protects.\<close>

theorem recoverable_ordinal_is_validated:
  assumes "FilemarkMap_new es = Inr m" "validate_against_digest W sha256 m digest = Inr s"
    and "\<not> covers_complete_map digest" "recoverable (scope s) ordinal = Inr ()"
  shows "\<exists>pos v. position_for_ordinal (scoped_map s) ordinal = Inr pos \<and>
    is_validated s (pos_tape_file_number pos) \<and>
    truncate_to_tape_files m (fmd_tape_file_count digest) = Inr v \<and>
    ordinal < max_sidecar_end_exclusive v"
proof -
  have m: "valid_map m" using FilemarkMap_new_valid [OF assms(1)] by simp
  from assms(2,3) obtain v where v: "covered_part m digest = Inr v"
    "FilemarkMap_digest W sha256 v False = Inr digest"
    and s: "scoped_map s = m" "validated_prefix_tape_files s = Some (fmd_tape_file_count digest)"
      "scope s = Prefix (fmd_map_total_data_ordinals digest) (fmd_highest_protected_ordinal digest)"
    by (auto simp: validate_against_digest_Inr)
  from v(2) have totals: "total_data_ordinals v = fmd_map_total_data_ordinals digest"
    "max_sidecar_end_exclusive v = fmd_highest_protected_ordinal digest"
    by (auto simp: FilemarkMap_digest_def)
  have trunc: "truncate_to_tape_files m (fmd_tape_file_count digest) = Inr v"
    using v(1) assms(3) by (simp add: covered_part_def)
  then have rows: "map_entries v = take (unat (fmd_tape_file_count digest)) (map_entries m)"
    by (simp add: truncate_Inr [OF m])
  have ord: "ordinal < total_data_ordinals v" "ordinal < max_sidecar_end_exclusive v"
    using assms(4) by (simp_all add: s recoverable_Inr totals)
  then obtain i where "holds_ordinal v ordinal i"
    using holds_ordinal_exists [OF covered_part_valid(1) [OF m v(1)]] by blast
  note i = holds_ordinal_take [OF this rows]
  obtain pos where pos: "position_for_ordinal m ordinal = Inr pos"
    using position_for_ordinal_holds(2) [OF m i(1)] by blast
  have "unat (pos_tape_file_number pos) = i"
    using position_for_ordinal_holds(1) [OF m pos] holds_ordinal_unique i(1) by blast
  with i(2) have "is_validated s (pos_tape_file_number pos)"
    by (simp add: is_validated_def s(2) word_less_nat_alt)
  with pos trunc ord(2) s(1) show ?thesis by blast
qed

theorem recoverable_ordinal_is_validated_witness:
  "\<exists>s pos. validate_against_digest reference_writer rev sample_map
     \<lparr>fmd_map_sha256 = rev (cbor_encode (Array (map entry_projection (take 3 sample_entries)))),
      fmd_tape_file_count = 3, fmd_map_total_data_ordinals = 5, fmd_highest_protected_ordinal = 5,
      covers_complete_map = False\<rparr> = Inr s \<and>
     position_for_ordinal (scoped_map s) 4 = Inr pos \<and> is_validated s (pos_tape_file_number pos)"
proof -
  let ?d = "\<lparr>fmd_map_sha256 = rev (cbor_encode (Array (map entry_projection (take 3 sample_entries)))),
      fmd_tape_file_count = 3, fmd_map_total_data_ordinals = 5, fmd_highest_protected_ordinal = 5,
      covers_complete_map = False\<rparr>"
  let ?s = "\<lparr>scoped_map = sample_map, validated_prefix_tape_files = Some 3, scope = Prefix 5 5,
      sidecar_directory = None, map_source = Walk\<rparr>"
  have v: "validate_against_digest reference_writer rev sample_map ?d = Inr ?s" by code_simp
  have r: "recoverable (scope ?s) 4 = Inr ()" by code_simp
  have "\<not> covers_complete_map ?d" by simp
  from recoverable_ordinal_is_validated [OF sample_map_new v this r] v show ?thesis by blast
qed

end
