(* ===== verification/ControlLayout.thy ===== *)
theory ControlLayout
  imports ParityModel
begin

text \<open>
  The geometry of replicated control tape files, from
  \<open>crates/remanence-parity/src/replicated_control.rs\<close>: a primary copy, a tail copy of the same
  number of blocks, and one footer block, computed with the overflow checks of the source.
\<close>

record ReplicatedControlLayout =
  rcl_copy_block_count :: u64
  rcl_total_block_count :: u64
  rcl_primary_copy_start_block :: u64
  rcl_tail_copy_start_block :: u64
  rcl_footer_block_index :: u64

abbreviation layout_error :: "string \<Rightarrow> string \<Rightarrow> ParityError" where
  "layout_error \<equiv> ParityError.ReplicatedControlLayout"

definition u64_of_u128 :: "u128 \<Rightarrow> u64 option" where
  "u64_of_u128 w = (if uint w < 2 ^ 64 then Some (ucast w) else None)"

definition checked_replicated_control_layout ::
  "u64 \<Rightarrow> u64 \<Rightarrow> u64 \<Rightarrow> string \<Rightarrow> ReplicatedControlLayout parity_result" where
  "checked_replicated_control_layout block_size header_len payload_len structure =
     (if block_size = 0 then Inl (layout_error structure ''block size must be non-zero'')
      else if header_len > block_size
      then Inl (layout_error structure ''fixed header does not fit in one tape block'')
      else
        rbind (ok_or (layout_error structure ''copy block count overflows u64'')
          (u64_of_u128 (div_ceil (ucast header_len + ucast payload_len) (ucast block_size))))
        (\<lambda>copy_block_count.
        let tail_copy_start_block = copy_block_count in
        rbind (ok_or (layout_error structure ''footer block index overflows u64'')
          (checked_mul copy_block_count 2))
        (\<lambda>footer_block_index.
        rbind (ok_or (layout_error structure ''total block count overflows u64'')
          (checked_add footer_block_index 1))
        (\<lambda>total_block_count.
          Inr \<lparr>rcl_copy_block_count = copy_block_count, rcl_total_block_count = total_block_count,
               rcl_primary_copy_start_block = 0,
               rcl_tail_copy_start_block = tail_copy_start_block,
               rcl_footer_block_index = footer_block_index\<rparr>))))"

definition validate_replicated_control_layout ::
  "u64 \<Rightarrow> u64 \<Rightarrow> u64 \<Rightarrow> u64 \<Rightarrow> u64 \<Rightarrow> u64 \<Rightarrow> u64 \<Rightarrow> u64 \<Rightarrow> string \<Rightarrow> unit parity_result" where
  "validate_replicated_control_layout block_size header_len payload_len copy_block_count
     total_block_count primary_copy_start_block tail_copy_start_block footer_block_index structure =
     rbind (checked_replicated_control_layout block_size header_len payload_len structure)
     (\<lambda>expected.
       if copy_block_count \<noteq> rcl_copy_block_count expected
         \<or> total_block_count \<noteq> rcl_total_block_count expected
         \<or> primary_copy_start_block \<noteq> rcl_primary_copy_start_block expected
         \<or> tail_copy_start_block \<noteq> rcl_tail_copy_start_block expected
         \<or> footer_block_index \<noteq> rcl_footer_block_index expected
       then Inl (layout_error structure
         ''locator geometry does not match 2M+1 layout: got copy={copy_block_count}, total={total_block_count}, primary={primary_copy_start_block}, tail={tail_copy_start_block}, footer={footer_block_index}; expected copy={}, total={}, primary={}, tail={}, footer={}'')
       else Inr ())"

section \<open>The layout is the exact one\<close>

definition copy_blocks_needed :: "nat \<Rightarrow> nat \<Rightarrow> nat \<Rightarrow> nat" where
  "copy_blocks_needed block_size header_len payload_len =
     (header_len + payload_len + block_size - 1) div block_size"

lemma copy_blocks_capacity:
  assumes "0 < b"
  shows "h + p \<le> copy_blocks_needed b h p * b"
    and "copy_blocks_needed b h p * b < h + p + b"
proof -
  have "(h + p + b - 1) mod b < b" using assms by simp
  moreover have "copy_blocks_needed b h p * b + (h + p + b - 1) mod b = h + p + b - 1"
    by (simp add: copy_blocks_needed_def)
  ultimately show "h + p \<le> copy_blocks_needed b h p * b" "copy_blocks_needed b h p * b < h + p + b"
    using assms by linarith+
qed

lemma u64_of_u128_Some: "u64_of_u128 w = Some v \<longleftrightarrow> unat w = unat v"
proof -
  have "uint w < 2 ^ 64 \<longleftrightarrow> unat w < 2 ^ 64"
    by (simp only: uint_nat of_nat_less_iff [symmetric, where 'a = int] of_nat_power of_nat_numeral)
  then show ?thesis
    using unat_u64_less [of v]
    by (auto simp: u64_of_u128_def unat_ucast_down word_unat_eq_iff)
qed

lemma replicated_layout_Inr:
  "checked_replicated_control_layout b h p s = Inr l \<longleftrightarrow>
    0 < unat b \<and> unat h \<le> unat b \<and>
    unat (rcl_copy_block_count l) = copy_blocks_needed (unat b) (unat h) (unat p) \<and>
    rcl_primary_copy_start_block l = 0 \<and>
    rcl_tail_copy_start_block l = rcl_copy_block_count l \<and>
    unat (rcl_footer_block_index l) = 2 * unat (rcl_copy_block_count l) \<and>
    unat (rcl_total_block_count l) = 2 * unat (rcl_copy_block_count l) + 1"
proof -
  have sum: "unat (ucast h + ucast p :: u128) = unat h + unat p"
    using unat_u64_less [of h] unat_u64_less [of p] by (subst unat_plus_exact) simp_all
  have m: "u64_of_u128 (div_ceil (ucast h + ucast p) (ucast b)) = Some m \<longleftrightarrow>
      unat m = copy_blocks_needed (unat b) (unat h) (unat p)" if "0 < unat b" for m
  proof -
    have "(ucast b :: u128) \<noteq> 0" using that by (auto simp: word_unat_eq_iff)
    then show ?thesis
      by (auto simp: u64_of_u128_Some unat_div_ceil sum copy_blocks_needed_def)
  qed
  have guards: "b \<noteq> 0 \<longleftrightarrow> 0 < unat b" "\<not> h > b \<longleftrightarrow> unat h \<le> unat b"
    by (simp_all add: unat_gt_0 not_less word_le_nat_alt)
  have "checked_replicated_control_layout b h p s = Inr l \<longleftrightarrow> 0 < unat b \<and> unat h \<le> unat b \<and>
      (\<exists>m f t. unat m = copy_blocks_needed (unat b) (unat h) (unat p) \<and>
         unat m * 2 = unat f \<and> unat f + 1 = unat t \<and>
         \<lparr>rcl_copy_block_count = m, rcl_total_block_count = t, rcl_primary_copy_start_block = 0,
          rcl_tail_copy_start_block = m, rcl_footer_block_index = f\<rparr> = l)"
    unfolding checked_replicated_control_layout_def guard_Inr guards Let_def rbind_eq_Inr ok_or_eq_Inr
    using m by (auto simp: checked_simps)
  then show ?thesis
    by (cases l) auto
qed

text \<open>C21: A replicated control file is laid out with the exact number of blocks per copy, the
  quotient of header plus payload by the block size rounded up, even when that sum exceeds 64
  bits. The layout exists exactly when the block size is nonzero, the header fits one block and
  $2M + 1$ fits in 64 bits; then the primary copy, the tail copy and the footer tile the file, and
  a copy holds header and payload with less than one block to spare.\<close>

theorem replicated_layout_exact:
  "((\<exists>l. checked_replicated_control_layout b h p s = Inr l) \<longleftrightarrow>
      0 < unat b \<and> unat h \<le> unat b \<and>
      2 * copy_blocks_needed (unat b) (unat h) (unat p) + 1 < 2 ^ 64) \<and>
   (checked_replicated_control_layout b h p s = Inr l \<longrightarrow>
      rcl_primary_copy_start_block l = 0 \<and>
      unat (rcl_tail_copy_start_block l) = unat (rcl_copy_block_count l) \<and>
      unat (rcl_footer_block_index l) = 2 * unat (rcl_copy_block_count l) \<and>
      unat (rcl_total_block_count l) = unat (rcl_footer_block_index l) + 1 \<and>
      unat h + unat p \<le> unat (rcl_copy_block_count l) * unat b \<and>
      unat (rcl_copy_block_count l) * unat b < unat h + unat p + unat b)"
  (is "?exists \<and> ?tiles")
proof
  let ?M = "copy_blocks_needed (unat b) (unat h) (unat p)"
  show ?exists
  proof
    assume "\<exists>l. checked_replicated_control_layout b h p s = Inr l"
    then obtain l where l: "checked_replicated_control_layout b h p s = Inr l" ..
    from l show "0 < unat b \<and> unat h \<le> unat b \<and> 2 * ?M + 1 < 2 ^ 64"
      using unat_u64_less [of "rcl_total_block_count l"] by (simp add: replicated_layout_Inr)
  next
    assume R: "0 < unat b \<and> unat h \<le> unat b \<and> 2 * ?M + 1 < 2 ^ 64"
    then obtain m f t :: u64 where "unat m = ?M" "unat f = 2 * ?M" "unat t = 2 * ?M + 1"
      using unat_exists [of ?M] unat_exists [of "2 * ?M"] unat_exists [of "2 * ?M + 1"] by auto
    with R have "checked_replicated_control_layout b h p s =
        Inr \<lparr>rcl_copy_block_count = m, rcl_total_block_count = t, rcl_primary_copy_start_block = 0,
             rcl_tail_copy_start_block = m, rcl_footer_block_index = f\<rparr>"
      by (simp add: replicated_layout_Inr)
    then show "\<exists>l. checked_replicated_control_layout b h p s = Inr l" ..
  qed
  show ?tiles
    using copy_blocks_capacity [of "unat b" "unat h" "unat p"] by (simp add: replicated_layout_Inr)
qed

theorem replicated_layout_exact_witness:
  "\<exists>l. checked_replicated_control_layout 512 512 0xFFFFFFFFFFFFFFFF ''test'' = Inr l \<and>
     unat (rcl_total_block_count l) = unat (rcl_footer_block_index l) + 1"
proof -
  have "2 * copy_blocks_needed (unat (512 :: u64)) (unat (512 :: u64)) (unat (0xFFFFFFFFFFFFFFFF :: u64))
      + 1 < 2 ^ 64"
    by (simp add: copy_blocks_needed_def)
  moreover have "0 < unat (512 :: u64)" by simp
  ultimately show ?thesis
    using replicated_layout_exact [of 512 512 "0xFFFFFFFFFFFFFFFF" "''test''"] by blast
qed

end
