(* ===== verification/ParityMapPayload.thy ===== *)
theory ParityMapPayload
  imports SidecarDirectory Cbor
begin

text \<open>
  The CBOR payload of a \<open>parity_map\<close> tape file, from \<open>crates/remanence-parity/src/parity_map.rs\<close>,
  with the checks of the writer-supplied texts from \<open>diagnostic_text.rs\<close>: encoding and decoding of
  the sidecar directory and of the payload. The local variables of a decoding loop are a record of
  options. The CBOR reader and writer and the RFC 3339 parser of the time crate are arguments; the
  warnings that a decoder logs for an ignored text are left out.
\<close>

section \<open>Diagnostic texts\<close>

definition WRITER_VERSION_MAX_BYTES :: nat where
  "WRITER_VERSION_MAX_BYTES = 128"

definition WRITE_TIMESTAMP_MAX_BYTES :: nat where
  "WRITE_TIMESTAMP_MAX_BYTES = 64"

definition validate_writer_version :: "string \<Rightarrow> string + unit" where
  "validate_writer_version v =
     (if length v > WRITER_VERSION_MAX_BYTES then Inl ''maximum 128-byte length''
      else if \<not> list_all (\<lambda>c. 0x20 \<le> (of_char c :: nat) \<and> of_char c \<le> (0x7e :: nat)) v
      then Inl ''printable US-ASCII''
      else Inr ())"

text \<open>\<open>rfc3339\<close> tells whether \<open>OffsetDateTime::parse\<close> accepts a text.\<close>

definition validate_write_timestamp :: "(string \<Rightarrow> bool) \<Rightarrow> string \<Rightarrow> string + unit" where
  "validate_write_timestamp rfc3339 v =
     (if length v > WRITE_TIMESTAMP_MAX_BYTES then Inl ''maximum 64-byte length''
      else if \<not> (10 < length v \<and> (v ! 10 = CHR ''T'' \<or> v ! 10 = CHR ''t'')) \<or> \<not> rfc3339 v
      then Inl ''RFC3339 date-time''
      else Inr ())"

section \<open>Decoding helpers\<close>

definition cbor_int_to_u64 :: "int \<Rightarrow> u64 parity_result" where
  "cbor_int_to_u64 i =
     (if 0 \<le> i \<and> i < 2 ^ 64 then Inr (word_of_int i)
      else Inl (ParityMapParse ''{field}: value {value} out of u64 range''))"

definition cbor_int_to_u32 :: "int \<Rightarrow> u32 parity_result" where
  "cbor_int_to_u32 i =
     (if 0 \<le> i \<and> i < 2 ^ 32 then Inr (word_of_int i)
      else Inl (ParityMapParse ''{field}: value {value} out of u32 range''))"

definition bytes_to_16 :: "bytes \<Rightarrow> bytes parity_result" where
  "bytes_to_16 bs =
     (if length bs = 16 then Inr bs
      else Inl (ParityMapParse ''{field} has length {}, expected 16''))"

definition bytes_to_32 :: "bytes \<Rightarrow> bytes parity_result" where
  "bytes_to_32 bs =
     (if length bs = 32 then Inr bs
      else Inl (ParityMapParse ''{field} has length {}, expected 32''))"

text \<open>The loop of every decoder over the entries of a map: the tracker checks each key, then the
  body handles the key and its value.\<close>

definition map_field_step ::
  "('s \<Rightarrow> int \<times> CborValue \<Rightarrow> 's parity_result) \<Rightarrow> IntegerMapKeyTracker \<times> 's \<Rightarrow>
     CborValue \<times> CborValue \<Rightarrow> (IntegerMapKeyTracker \<times> 's) parity_result" where
  "map_field_step body = (\<lambda>(key_order, locals) (key, v).
     rbind (map_err ParityMapParse (IntegerMapKeyTracker_next key_order key)) (\<lambda>(key_i, key_order').
       rbind (body locals (key_i, v)) (\<lambda>locals'. Inr (key_order', locals'))))"

definition decode_map_fields ::
  "('s \<Rightarrow> int \<times> CborValue \<Rightarrow> 's parity_result) \<Rightarrow> 's \<Rightarrow> (CborValue \<times> CborValue) list \<Rightarrow>
     's parity_result" where
  "decode_map_fields body locals entries =
     rbind (try_fold (map_field_step body) (IntegerMapKeyTracker_default, locals) entries)
       (\<lambda>(_, locals'). Inr locals')"

text \<open>A map with integer keys, as the encoders write it.\<close>

definition int_map :: "(int \<times> CborValue) list \<Rightarrow> CborValue" where
  "int_map kvs = Map (map (\<lambda>(k, v). (Integer k, v)) kvs)"

section \<open>Directory entries\<close>

definition encode_sidecar_epoch_directory_entry_cbor :: "SidecarEpochDirectoryEntry \<Rightarrow> CborValue" where
  "encode_sidecar_epoch_directory_entry_cbor e = int_map
     [(1, Integer (uint (sde_tape_file_number e))),
      (2, Integer (uint (sde_epoch_id e))),
      (3, Integer (uint (sde_protected_ordinal_start e))),
      (4, Integer (uint (sde_protected_ordinal_end_exclusive e))),
      (5, Integer (uint (sde_sidecar_total_block_count e))),
      (6, Integer (uint (sde_sidecar_header_block_count e))),
      (7, Integer (uint (sde_parity_shard_block_count e))),
      (8, Bytes (sde_canonical_metadata_hash e)),
      (9, Integer (uint (sde_flags e)))]"

record entry_fields =
  ef_tape_file_number :: "u64 option"
  ef_epoch_id :: "u64 option"
  ef_protected_ordinal_start :: "u64 option"
  ef_protected_ordinal_end_exclusive :: "u64 option"
  ef_sidecar_total_block_count :: "u64 option"
  ef_sidecar_header_block_count :: "u64 option"
  ef_parity_shard_block_count :: "u64 option"
  ef_canonical_metadata_hash :: "bytes option"
  ef_flags :: "u32 option"

definition no_entry_fields :: entry_fields where
  "no_entry_fields =
     \<lparr>ef_tape_file_number = None, ef_epoch_id = None, ef_protected_ordinal_start = None,
      ef_protected_ordinal_end_exclusive = None, ef_sidecar_total_block_count = None,
      ef_sidecar_header_block_count = None, ef_parity_shard_block_count = None,
      ef_canonical_metadata_hash = None, ef_flags = None\<rparr>"

definition decode_entry_field :: "entry_fields \<Rightarrow> int \<times> CborValue \<Rightarrow> entry_fields parity_result" where
  "decode_entry_field f = (\<lambda>(key_i, v).
     case v of
       Integer i \<Rightarrow>
         if key_i = 1
         then rbind (cbor_int_to_u64 i) (\<lambda>x. Inr (f\<lparr>ef_tape_file_number := Some x\<rparr>))
         else if key_i = 2
         then rbind (cbor_int_to_u64 i) (\<lambda>x. Inr (f\<lparr>ef_epoch_id := Some x\<rparr>))
         else if key_i = 3
         then rbind (cbor_int_to_u64 i) (\<lambda>x. Inr (f\<lparr>ef_protected_ordinal_start := Some x\<rparr>))
         else if key_i = 4
         then rbind (cbor_int_to_u64 i)
                (\<lambda>x. Inr (f\<lparr>ef_protected_ordinal_end_exclusive := Some x\<rparr>))
         else if key_i = 5
         then rbind (cbor_int_to_u64 i) (\<lambda>x. Inr (f\<lparr>ef_sidecar_total_block_count := Some x\<rparr>))
         else if key_i = 6
         then rbind (cbor_int_to_u64 i) (\<lambda>x. Inr (f\<lparr>ef_sidecar_header_block_count := Some x\<rparr>))
         else if key_i = 7
         then rbind (cbor_int_to_u64 i) (\<lambda>x. Inr (f\<lparr>ef_parity_shard_block_count := Some x\<rparr>))
         else if key_i = 9
         then rbind (cbor_int_to_u32 i) (\<lambda>x. Inr (f\<lparr>ef_flags := Some x\<rparr>))
         else Inr f
     | Bytes bs \<Rightarrow>
         if key_i = 8
         then rbind (bytes_to_32 bs) (\<lambda>x. Inr (f\<lparr>ef_canonical_metadata_hash := Some x\<rparr>))
         else Inr f
     | _ \<Rightarrow> Inr f)"

abbreviation missing :: "string \<Rightarrow> 'a option \<Rightarrow> 'a parity_result" where
  "missing message \<equiv> ok_or (ParityMapParse message)"

definition decode_sidecar_epoch_directory_entry_cbor ::
  "CborValue \<Rightarrow> SidecarEpochDirectoryEntry parity_result" where
  "decode_sidecar_epoch_directory_entry_cbor v =
     (case v of
        Map entries \<Rightarrow>
          rbind (decode_map_fields decode_entry_field no_entry_fields entries) (\<lambda>f.
          rbind (missing ''directory entry missing tape_file_number'' (ef_tape_file_number f)) (\<lambda>number.
          rbind (missing ''directory entry missing epoch_id'' (ef_epoch_id f)) (\<lambda>epoch.
          rbind (missing ''directory entry missing protected_ordinal_start''
            (ef_protected_ordinal_start f)) (\<lambda>start.
          rbind (missing ''directory entry missing protected_ordinal_end_exclusive''
            (ef_protected_ordinal_end_exclusive f)) (\<lambda>end_exclusive.
          rbind (missing ''directory entry missing sidecar_total_block_count''
            (ef_sidecar_total_block_count f)) (\<lambda>total_blocks.
          rbind (missing ''directory entry missing sidecar_header_block_count''
            (ef_sidecar_header_block_count f)) (\<lambda>header_blocks.
          rbind (missing ''directory entry missing parity_shard_block_count''
            (ef_parity_shard_block_count f)) (\<lambda>shard_blocks.
          rbind (missing ''directory entry missing canonical_metadata_hash''
            (ef_canonical_metadata_hash f)) (\<lambda>hash.
          rbind (missing ''directory entry missing flags'' (ef_flags f)) (\<lambda>flags.
          Inr \<lparr>sde_tape_file_number = number, sde_epoch_id = epoch,
               sde_protected_ordinal_start = start,
               sde_protected_ordinal_end_exclusive = end_exclusive,
               sde_sidecar_total_block_count = total_blocks,
               sde_sidecar_header_block_count = header_blocks,
               sde_parity_shard_block_count = shard_blocks,
               sde_canonical_metadata_hash = hash, sde_flags = flags\<rparr>))))))))))
      | _ \<Rightarrow> Inl (ParityMapParse ''sidecar directory entry is not a map''))"

section \<open>Directories\<close>

definition encode_sidecar_epoch_directory_cbor :: "SidecarEpochDirectory \<Rightarrow> CborValue parity_result" where
  "encode_sidecar_epoch_directory_cbor d =
     rbind (SidecarEpochDirectory_validate d) (\<lambda>_. Inr (int_map
       [(1, Integer (uint (directory_scope_tape_file_count d))),
        (2, Integer (uint (directory_scope_total_data_ordinals d))),
        (3, Integer (uint (directory_scope_highest_protected_ordinal d))),
        (4, Bool (is_final_directory d)),
        (5, Array (map encode_sidecar_epoch_directory_entry_cbor (directory_entries d)))]))"

definition encoded_len :: "cbor_writer \<Rightarrow> SidecarEpochDirectory \<Rightarrow> nat parity_result" where
  "encoded_len into_writer d =
     rbind (encode_sidecar_epoch_directory_cbor d) (\<lambda>v.
       rbind (map_err (\<lambda>_. ParityMapParse ''directory CBOR encode failed: {err}'') (into_writer v))
         (\<lambda>bs. Inr (length bs)))"

record directory_fields =
  df_scope_tape_file_count :: "u64 option"
  df_scope_total_data_ordinals :: "u64 option"
  df_scope_highest_protected_ordinal :: "u64 option"
  df_is_final_directory :: "bool option"
  df_entries :: "SidecarEpochDirectoryEntry list option"

definition no_directory_fields :: directory_fields where
  "no_directory_fields =
     \<lparr>df_scope_tape_file_count = None, df_scope_total_data_ordinals = None,
      df_scope_highest_protected_ordinal = None, df_is_final_directory = None,
      df_entries = None\<rparr>"

definition decode_directory_field ::
  "directory_fields \<Rightarrow> int \<times> CborValue \<Rightarrow> directory_fields parity_result" where
  "decode_directory_field f = (\<lambda>(key_i, v).
     case v of
       Integer i \<Rightarrow>
         if key_i = 1
         then rbind (cbor_int_to_u64 i) (\<lambda>x. Inr (f\<lparr>df_scope_tape_file_count := Some x\<rparr>))
         else if key_i = 2
         then rbind (cbor_int_to_u64 i) (\<lambda>x. Inr (f\<lparr>df_scope_total_data_ordinals := Some x\<rparr>))
         else if key_i = 3
         then rbind (cbor_int_to_u64 i)
                (\<lambda>x. Inr (f\<lparr>df_scope_highest_protected_ordinal := Some x\<rparr>))
         else Inr f
     | Bool b \<Rightarrow> if key_i = 4 then Inr (f\<lparr>df_is_final_directory := Some b\<rparr>) else Inr f
     | Array vs \<Rightarrow>
         if key_i = 5
         then rbind (try_map decode_sidecar_epoch_directory_entry_cbor vs)
                (\<lambda>decoded. Inr (f\<lparr>df_entries := Some decoded\<rparr>))
         else Inr f
     | _ \<Rightarrow> Inr f)"

definition decode_sidecar_epoch_directory_cbor :: "CborValue \<Rightarrow> SidecarEpochDirectory parity_result" where
  "decode_sidecar_epoch_directory_cbor v =
     (case v of
        Map entries \<Rightarrow>
          rbind (decode_map_fields decode_directory_field no_directory_fields entries) (\<lambda>f.
          rbind (missing ''sidecar epoch directory missing scope tape-file count''
            (df_scope_tape_file_count f)) (\<lambda>tape_files.
          rbind (missing ''sidecar epoch directory missing total data ordinals''
            (df_scope_total_data_ordinals f)) (\<lambda>ordinals.
          rbind (missing ''sidecar epoch directory missing highest protected ordinal''
            (df_scope_highest_protected_ordinal f)) (\<lambda>highest.
          rbind (missing ''sidecar epoch directory missing final flag''
            (df_is_final_directory f)) (\<lambda>final.
          rbind (missing ''sidecar epoch directory missing entries'' (df_entries f)) (\<lambda>rows.
          let directory =
            \<lparr>directory_scope_tape_file_count = tape_files,
             directory_scope_total_data_ordinals = ordinals,
             directory_scope_highest_protected_ordinal = highest,
             is_final_directory = final, directory_entries = rows\<rparr>
          in rbind (SidecarEpochDirectory_validate directory) (\<lambda>_. Inr directory)))))))
      | _ \<Rightarrow> Inl (ParityMapParse ''sidecar epoch directory is not a map''))"

section \<open>Payloads\<close>

definition PARITY_MAP_FORMAT_ID :: string where
  "PARITY_MAP_FORMAT_ID = ''rem-parity-map-v1''"

definition encode_parity_map_payload ::
  "cbor_writer \<Rightarrow> (string \<Rightarrow> bool) \<Rightarrow> ParityMapPayload \<Rightarrow> bytes parity_result" where
  "encode_parity_map_payload into_writer rfc3339 payload =
     rbind (encode_sidecar_epoch_directory_cbor (pmp_directory payload)) (\<lambda>directory.
     let entries =
       [(1, Text PARITY_MAP_FORMAT_ID), (2, Bytes (pmp_tape_uuid payload)),
        (3, Integer (uint (pmp_sequence payload))), (4, directory),
        (5, Bytes (pmp_canonical_map_digest payload))]
     in rbind (case pmp_writer_version payload of
                 None \<Rightarrow> Inr entries
               | Some version \<Rightarrow>
                   rbind (map_err (\<lambda>_. ParityMapParse
                           ''parity-map payload key 6 violates {violated_bound}'')
                           (validate_writer_version version))
                     (\<lambda>_. Inr (entries @ [(6, Text version)])))
     (\<lambda>entries.
     rbind (case pmp_write_timestamp payload of
              None \<Rightarrow> Inr entries
            | Some timestamp \<Rightarrow>
                rbind (map_err (\<lambda>_. ParityMapParse
                        ''parity-map payload key 7 violates {violated_bound}'')
                        (validate_write_timestamp rfc3339 timestamp))
                  (\<lambda>_. Inr (entries @ [(7, Text timestamp)])))
     (\<lambda>entries.
       map_err (\<lambda>_. ParityMapParse ''parity-map payload CBOR encode failed: {err}'')
         (into_writer (int_map entries)))))"

record payload_fields =
  pf_format_id :: "string option"
  pf_tape_uuid :: "bytes option"
  pf_sequence :: "u64 option"
  pf_directory :: "SidecarEpochDirectory option"
  pf_canonical_map_digest :: "bytes option"
  pf_writer_version :: "string option"
  pf_write_timestamp :: "string option"

definition no_payload_fields :: payload_fields where
  "no_payload_fields =
     \<lparr>pf_format_id = None, pf_tape_uuid = None, pf_sequence = None, pf_directory = None,
      pf_canonical_map_digest = None, pf_writer_version = None, pf_write_timestamp = None\<rparr>"

definition decode_payload_field ::
  "(string \<Rightarrow> bool) \<Rightarrow> payload_fields \<Rightarrow> int \<times> CborValue \<Rightarrow> payload_fields parity_result" where
  "decode_payload_field rfc3339 f = (\<lambda>(key_i, v).
     if key_i = 4
     then rbind (decode_sidecar_epoch_directory_cbor v) (\<lambda>d. Inr (f\<lparr>pf_directory := Some d\<rparr>))
     else case v of
       Text s \<Rightarrow>
         if key_i = 1 then Inr (f\<lparr>pf_format_id := Some s\<rparr>)
         else if key_i = 6
         then (case validate_writer_version s of
                 Inr _ \<Rightarrow> Inr (f\<lparr>pf_writer_version := Some s\<rparr>) | Inl _ \<Rightarrow> Inr f)
         else if key_i = 7
         then (case validate_write_timestamp rfc3339 s of
                 Inr _ \<Rightarrow> Inr (f\<lparr>pf_write_timestamp := Some s\<rparr>) | Inl _ \<Rightarrow> Inr f)
         else Inr f
     | Bytes bs \<Rightarrow>
         if key_i = 2 then rbind (bytes_to_16 bs) (\<lambda>x. Inr (f\<lparr>pf_tape_uuid := Some x\<rparr>))
         else if key_i = 5
         then rbind (bytes_to_32 bs) (\<lambda>x. Inr (f\<lparr>pf_canonical_map_digest := Some x\<rparr>))
         else Inr f
     | Integer i \<Rightarrow>
         if key_i = 3 then rbind (cbor_int_to_u64 i) (\<lambda>x. Inr (f\<lparr>pf_sequence := Some x\<rparr>))
         else Inr f
     | _ \<Rightarrow> Inr f)"

definition decode_parity_map_payload ::
  "cbor_writer \<Rightarrow> cbor_reader \<Rightarrow> (string \<Rightarrow> bool) \<Rightarrow> bytes \<Rightarrow> ParityMapPayload parity_result" where
  "decode_parity_map_payload into_writer from_reader rfc3339 bs =
     rbind (map_err ParityMapParse (decode_canonical_cbor_value into_writer from_reader bs)) (\<lambda>v.
     case v of
       Map entries \<Rightarrow>
         rbind (decode_map_fields (decode_payload_field rfc3339) no_payload_fields entries) (\<lambda>f.
         rbind (missing ''parity-map payload missing format_id'' (pf_format_id f)) (\<lambda>format_id.
         if format_id \<noteq> PARITY_MAP_FORMAT_ID
         then Inl (ParityMapParse ''unsupported parity-map payload format_id {format_id:?}'')
         else
         rbind (missing ''parity-map payload missing tape_uuid'' (pf_tape_uuid f)) (\<lambda>uuid.
         rbind (missing ''parity-map payload missing sequence'' (pf_sequence f)) (\<lambda>sequence.
         rbind (missing ''parity-map payload missing sidecar directory'' (pf_directory f)) (\<lambda>directory.
         rbind (missing ''parity-map payload missing map digest'' (pf_canonical_map_digest f)) (\<lambda>digest.
         Inr \<lparr>pmp_tape_uuid = uuid, pmp_sequence = sequence, pmp_directory = directory,
              pmp_canonical_map_digest = digest, pmp_writer_version = pf_writer_version f,
              pmp_write_timestamp = pf_write_timestamp f\<rparr>))))))
     | _ \<Rightarrow> Inl (ParityMapParse ''parity-map payload root is not a map''))"

section \<open>Maps with ascending keys\<close>

definition ascending :: "(int \<times> CborValue) list \<Rightarrow> bool" where
  "ascending kvs \<longleftrightarrow> sorted_wrt (<) (map fst kvs) \<and> list_all (\<lambda>k. 0 \<le> k \<and> k < 2 ^ 64) (map fst kvs)"

lemma ascending_ranks: "ascending kvs \<Longrightarrow> sorted_wrt (\<lambda>a b. key_rank a < key_rank b) (map fst kvs)"
proof -
  assume a: "ascending kvs"
  then have r: "\<forall>k \<in> set (map fst kvs). 0 \<le> k \<and> k < 2 ^ 64"
    unfolding ascending_def list_all_iff by blast
  have "sorted_wrt (\<lambda>a b. key_rank a < key_rank b) (map fst kvs) \<longleftrightarrow> sorted_wrt (<) (map fst kvs)"
    by (intro sorted_wrt_cong key_rank_less_iff) (use r in blast)+
  with a show ?thesis by (simp add: ascending_def)
qed

lemma map_fields_fold:
  "tracker_ok t \<Longrightarrow> sorted_wrt (\<lambda>a b. key_rank a < key_rank b) (map fst kvs) \<Longrightarrow>
   list_all (tracker_bound t) (map fst kvs) \<Longrightarrow>
   rbind (try_fold (map_field_step body) (t, s) (map (\<lambda>(k, v). (Integer k, v)) kvs))
     (\<lambda>(_, s'). Inr s') = try_fold body s kvs"
proof (induction kvs arbitrary: t s)
  case (Cons kv kvs)
  obtain k v where kv: "kv = (k, v)" by (cases kv)
  let ?t = "\<lparr>previous = Some (k, deterministic_integer_encoding k), seen = insert k (seen t)\<rparr>"
  have step: "IntegerMapKeyTracker_next t (Integer k) = Inr (k, ?t)"
    using Cons.prems by (simp add: tracker_next_Inr kv del: IntegerMapKeyTracker_next.simps)
  note t = tracker_next_ok [OF Cons.prems(1) step]
  have "list_all (tracker_bound ?t) (map fst kvs)"
    using Cons.prems(2) by (simp add: kv list_all_iff t(2) del: tracker_bound.simps)
  from Cons.IH [OF t(1) _ this] Cons.prems(2) show ?case
    by (cases "body s (k, v)")
      (simp_all add: kv map_field_step_def step del: IntegerMapKeyTracker_next.simps)
qed simp

lemma decode_int_map:
  "ascending kvs \<Longrightarrow> decode_map_fields body s (map (\<lambda>(k, v). (Integer k, v)) kvs) = try_fold body s kvs"
  unfolding decode_map_fields_def
  by (intro map_fields_fold tracker_ok_default ascending_ranks)
    (simp_all add: list_all_iff tracker_bound_default del: tracker_bound.simps)

lemma int_map_shape:
  assumes "ascending kvs"
  shows "validate_canonical_cbor_shape (int_map kvs) = Inr () \<longleftrightarrow>
    list_all (\<lambda>(k, v). validate_canonical_cbor_shape v = Inr ()) kvs"
proof -
  have "map fst (map (\<lambda>(k, v). (Integer k, v)) kvs) = map Integer (map fst kvs)"
    "map snd (map (\<lambda>(k, v). (Integer k, v)) kvs) = map snd kvs"
    by (auto simp: case_prod_beta)
  moreover have "\<exists>ks. map Integer (map fst kvs) = map Integer ks \<and>
      sorted_wrt (\<lambda>a b. key_rank a < key_rank b) ks"
    using ascending_ranks [OF assms] by blast
  ultimately show ?thesis
    unfolding int_map_def validate_shape_Map_Inr by (simp only: simp_thms) (auto simp: list_all_iff)
qed

lemma int_map_wf:
  assumes "ascending kvs" "int (length kvs) < 2 ^ 64"
  shows "cbor_wf (int_map kvs) \<longleftrightarrow> list_all (\<lambda>(k, v). cbor_wf v) kvs"
    and "cbor_depth_within (Suc d) (int_map kvs) \<longleftrightarrow> list_all (\<lambda>(k, v). cbor_depth_within d v) kvs"
  using assms by (auto simp: int_map_def ascending_def list_all_iff)

lemma uint_u64_range: "- 18446744073709551616 \<le> uint w" "uint w < 18446744073709551616" for w :: u64
  using uint_lt2p [of w] by (simp_all add: order_trans [OF _ uint_ge_0])

lemma cbor_int_to_u64_uint [simp]: "cbor_int_to_u64 (uint w) = Inr w"
  using uint_u64_range [of w] by (simp add: cbor_int_to_u64_def)

lemma cbor_int_to_u32_uint [simp]: "cbor_int_to_u32 (uint w) = Inr w"
  using uint_lt2p [of w] by (simp add: cbor_int_to_u32_def)

section \<open>Round trips\<close>

definition entry_wf :: "SidecarEpochDirectoryEntry \<Rightarrow> bool" where
  "entry_wf e \<longleftrightarrow> length (sde_canonical_metadata_hash e) = 32"

lemma decode_encode_entry:
  assumes "entry_wf e"
  shows "decode_sidecar_epoch_directory_entry_cbor (encode_sidecar_epoch_directory_entry_cbor e) = Inr e"
proof -
  define kvs where "kvs =
     [(1, Integer (uint (sde_tape_file_number e))),
      (2, Integer (uint (sde_epoch_id e))),
      (3, Integer (uint (sde_protected_ordinal_start e))),
      (4, Integer (uint (sde_protected_ordinal_end_exclusive e))),
      (5, Integer (uint (sde_sidecar_total_block_count e))),
      (6, Integer (uint (sde_sidecar_header_block_count e))),
      (7, Integer (uint (sde_parity_shard_block_count e))),
      (8, Bytes (sde_canonical_metadata_hash e)),
      (9 :: int, Integer (uint (sde_flags e)))]"
  have "ascending kvs" by (simp add: ascending_def kvs_def)
  have "encode_sidecar_epoch_directory_entry_cbor e = Map (map (\<lambda>(k, v). (Integer k, v)) kvs)"
    by (simp add: encode_sidecar_epoch_directory_entry_cbor_def int_map_def kvs_def)
  moreover have "try_fold decode_entry_field no_entry_fields kvs = Inr
     \<lparr>ef_tape_file_number = Some (sde_tape_file_number e), ef_epoch_id = Some (sde_epoch_id e),
      ef_protected_ordinal_start = Some (sde_protected_ordinal_start e),
      ef_protected_ordinal_end_exclusive = Some (sde_protected_ordinal_end_exclusive e),
      ef_sidecar_total_block_count = Some (sde_sidecar_total_block_count e),
      ef_sidecar_header_block_count = Some (sde_sidecar_header_block_count e),
      ef_parity_shard_block_count = Some (sde_parity_shard_block_count e),
      ef_canonical_metadata_hash = Some (sde_canonical_metadata_hash e),
      ef_flags = Some (sde_flags e)\<rparr>"
    using assms
    by (simp add: kvs_def decode_entry_field_def no_entry_fields_def bytes_to_32_def entry_wf_def)
  ultimately show ?thesis
    by (simp add: decode_sidecar_epoch_directory_entry_cbor_def
        decode_int_map [OF \<open>ascending kvs\<close>])
qed

lemma try_map_inverse:
  "(\<And>x. x \<in> set xs \<Longrightarrow> f (g x) = Inr x) \<Longrightarrow> try_map f (map g xs) = Inr xs"
  by (induction xs) simp_all

lemma encode_entry_value:
  assumes "entry_wf e"
  shows "validate_canonical_cbor_shape (encode_sidecar_epoch_directory_entry_cbor e) = Inr ()"
    and "cbor_wf (encode_sidecar_epoch_directory_entry_cbor e)"
    and "cbor_depth_within (Suc d) (encode_sidecar_epoch_directory_entry_cbor e)"
proof -
  have flags: "uint (sde_flags e) < 18446744073709551616" "- 18446744073709551616 \<le> uint (sde_flags e)"
    using uint_lt2p [of "sde_flags e"] by (simp_all add: order_trans [OF _ uint_ge_0])
  show "validate_canonical_cbor_shape (encode_sidecar_epoch_directory_entry_cbor e) = Inr ()"
    unfolding encode_sidecar_epoch_directory_entry_cbor_def
    by (subst int_map_shape) (simp_all add: ascending_def)
  show "cbor_wf (encode_sidecar_epoch_directory_entry_cbor e)"
    unfolding encode_sidecar_epoch_directory_entry_cbor_def using assms flags
    by (subst int_map_wf) (simp_all add: ascending_def uint_u64_range entry_wf_def)
  show "cbor_depth_within (Suc d) (encode_sidecar_epoch_directory_entry_cbor e)"
    unfolding encode_sidecar_epoch_directory_entry_cbor_def
    by (subst int_map_wf) (simp_all add: ascending_def)
qed

definition directory_wf :: "SidecarEpochDirectory \<Rightarrow> bool" where
  "directory_wf d \<longleftrightarrow> list_all entry_wf (directory_entries d) \<and> int (length (directory_entries d)) < 2 ^ 64"

lemma shape_Array_Inr:
  "validate_canonical_cbor_shape (Array vs) = Inr () \<longleftrightarrow>
    list_all (\<lambda>v. validate_canonical_cbor_shape v = Inr ()) vs"
  by (simp, induction vs) auto

lemma encode_directory_value:
  assumes "directory_wf d" "encode_sidecar_epoch_directory_cbor d = Inr v"
  shows "validate_canonical_cbor_shape v = Inr ()" "cbor_wf v"
    "cbor_depth_within (Suc (Suc (Suc n))) v"
    "decode_sidecar_epoch_directory_cbor v = Inr d"
proof -
  let ?rows = "map encode_sidecar_epoch_directory_entry_cbor (directory_entries d)"
  define kvs where "kvs =
       [(1, Integer (uint (directory_scope_tape_file_count d))),
        (2, Integer (uint (directory_scope_total_data_ordinals d))),
        (3, Integer (uint (directory_scope_highest_protected_ordinal d))),
        (4, Bool (is_final_directory d)),
        (5 :: int, Array ?rows)]"
  have asc: "ascending kvs" by (simp add: ascending_def kvs_def)
  from assms(2) have v: "v = int_map kvs" and valid: "SidecarEpochDirectory_validate d = Inr ()"
    by (auto simp: encode_sidecar_epoch_directory_cbor_def kvs_def)
  have rows: "list_all (\<lambda>v. validate_canonical_cbor_shape v = Inr ()) ?rows"
    "list_all cbor_wf ?rows" "list_all (cbor_depth_within (Suc n)) ?rows"
    "try_map decode_sidecar_epoch_directory_entry_cbor ?rows = Inr (directory_entries d)"
    using assms(1) encode_entry_value
    by (auto simp: directory_wf_def list_all_iff intro!: try_map_inverse decode_encode_entry)
  show "validate_canonical_cbor_shape v = Inr ()"
    unfolding v int_map_shape [OF asc] using rows(1)
    by (simp add: kvs_def shape_Array_Inr del: validate_canonical_cbor_shape.simps(1))
  show "cbor_wf v" "cbor_depth_within (Suc (Suc (Suc n))) v"
    unfolding v using rows assms(1)
    by (subst int_map_wf [OF asc]; simp add: kvs_def uint_u64_range directory_wf_def)+
  have "try_fold decode_directory_field no_directory_fields kvs = Inr
     \<lparr>df_scope_tape_file_count = Some (directory_scope_tape_file_count d),
      df_scope_total_data_ordinals = Some (directory_scope_total_data_ordinals d),
      df_scope_highest_protected_ordinal = Some (directory_scope_highest_protected_ordinal d),
      df_is_final_directory = Some (is_final_directory d),
      df_entries = Some (directory_entries d)\<rparr>"
    using rows(4) by (simp add: kvs_def decode_directory_field_def no_directory_fields_def)
  moreover have "SidecarEpochDirectory_validate
     \<lparr>directory_scope_tape_file_count = directory_scope_tape_file_count d,
      directory_scope_total_data_ordinals = directory_scope_total_data_ordinals d,
      directory_scope_highest_protected_ordinal = directory_scope_highest_protected_ordinal d,
      is_final_directory = is_final_directory d, directory_entries = directory_entries d\<rparr> = Inr ()"
    using valid by (cases d) simp
  ultimately show "decode_sidecar_epoch_directory_cbor v = Inr d"
    by (simp add: v int_map_def decode_sidecar_epoch_directory_cbor_def
        decode_int_map [OF asc] Let_def)
qed

definition payload_wf :: "ParityMapPayload \<Rightarrow> bool" where
  "payload_wf p \<longleftrightarrow> length (pmp_tape_uuid p) = 16 \<and> length (pmp_canonical_map_digest p) = 32 \<and>
     directory_wf (pmp_directory p)"

text \<open>The grammar of RFC 3339 has only ASCII characters.\<close>

definition rfc3339_ascii :: "(string \<Rightarrow> bool) \<Rightarrow> bool" where
  "rfc3339_ascii rfc3339 \<longleftrightarrow> (\<forall>s. rfc3339 s \<longrightarrow> list_all (\<lambda>c. of_char c < (128 :: nat)) s)"

text \<open>The entries of an encoded payload.\<close>

definition payload_entries :: "ParityMapPayload \<Rightarrow> CborValue \<Rightarrow> (int \<times> CborValue) list" where
  "payload_entries p directory =
     [(1, Text PARITY_MAP_FORMAT_ID), (2, Bytes (pmp_tape_uuid p)),
      (3, Integer (uint (pmp_sequence p))), (4, directory),
      (5, Bytes (pmp_canonical_map_digest p))]
     @ (case pmp_writer_version p of None \<Rightarrow> [] | Some v \<Rightarrow> [(6, Text v)])
     @ (case pmp_write_timestamp p of None \<Rightarrow> [] | Some t \<Rightarrow> [(7, Text t)])"

lemma encode_payload_Inr:
  "encode_parity_map_payload W rfc3339 p = Inr bs \<longleftrightarrow>
    (\<exists>directory. encode_sidecar_epoch_directory_cbor (pmp_directory p) = Inr directory \<and>
       W (int_map (payload_entries p directory)) = Inr bs) \<and>
    (\<forall>v. pmp_writer_version p = Some v \<longrightarrow> validate_writer_version v = Inr ()) \<and>
    (\<forall>t. pmp_write_timestamp p = Some t \<longrightarrow> validate_write_timestamp rfc3339 t = Inr ())"
  by (cases "pmp_writer_version p"; cases "pmp_write_timestamp p")
    (auto simp: encode_parity_map_payload_def payload_entries_def Let_def)

lemma ascending_payload: "ascending (payload_entries p directory)"
  by (simp add: ascending_def payload_entries_def split: option.splits)

lemma valid_texts:
  "validate_writer_version v = Inr () \<Longrightarrow> length v \<le> 128 \<and> cbor_wf (Text v)"
  "rfc3339_ascii rfc3339 \<Longrightarrow> validate_write_timestamp rfc3339 t = Inr () \<Longrightarrow>
    length t \<le> 64 \<and> cbor_wf (Text t)"
  by (fastforce simp: validate_writer_version_def validate_write_timestamp_def rfc3339_ascii_def
      WRITER_VERSION_MAX_BYTES_def WRITE_TIMESTAMP_MAX_BYTES_def list_all_iff split: if_splits)+

lemma payload_value:
  assumes "payload_wf p" "rfc3339_ascii rfc3339"
    and "encode_sidecar_epoch_directory_cbor (pmp_directory p) = Inr directory"
    and "\<forall>v. pmp_writer_version p = Some v \<longrightarrow> validate_writer_version v = Inr ()"
    and "\<forall>t. pmp_write_timestamp p = Some t \<longrightarrow> validate_write_timestamp rfc3339 t = Inr ()"
  shows "validate_canonical_cbor_shape (int_map (payload_entries p directory)) = Inr ()"
    and "cbor_wf (int_map (payload_entries p directory))"
    and "cbor_depth_within cbor_nesting (int_map (payload_entries p directory))"
proof -
  note d = encode_directory_value [OF _ assms(3)]
  have wf: "directory_wf (pmp_directory p)" using assms(1) by (simp add: payload_wf_def)
  show "validate_canonical_cbor_shape (int_map (payload_entries p directory)) = Inr ()"
    unfolding int_map_shape [OF ascending_payload] using d(1) [OF wf]
    by (simp add: payload_entries_def split: option.splits)
  have short: "int (length (payload_entries p directory)) < 2 ^ 64"
    by (simp add: payload_entries_def split: option.splits)
  show "cbor_wf (int_map (payload_entries p directory))"
    unfolding int_map_wf(1) [OF ascending_payload short]
    using d(2) [OF wf] assms valid_texts
    by (auto simp: payload_entries_def payload_wf_def uint_u64_range PARITY_MAP_FORMAT_ID_def
        split: option.splits)
  have nesting: "cbor_nesting = Suc (Suc (Suc (Suc 124)))" by simp
  show "cbor_depth_within cbor_nesting (int_map (payload_entries p directory))"
    unfolding nesting int_map_wf(2) [OF ascending_payload short] using d(3) [OF wf, of 124]
    by (simp add: payload_entries_def split: option.splits)
qed

lemma decode_payload_entries:
  assumes "payload_wf p" "encode_sidecar_epoch_directory_cbor (pmp_directory p) = Inr directory"
    and "\<forall>v. pmp_writer_version p = Some v \<longrightarrow> validate_writer_version v = Inr ()"
    and "\<forall>t. pmp_write_timestamp p = Some t \<longrightarrow> validate_write_timestamp rfc3339 t = Inr ()"
  shows "try_fold (decode_payload_field rfc3339) no_payload_fields (payload_entries p directory) =
    Inr \<lparr>pf_format_id = Some PARITY_MAP_FORMAT_ID, pf_tape_uuid = Some (pmp_tape_uuid p),
         pf_sequence = Some (pmp_sequence p), pf_directory = Some (pmp_directory p),
         pf_canonical_map_digest = Some (pmp_canonical_map_digest p),
         pf_writer_version = pmp_writer_version p, pf_write_timestamp = pmp_write_timestamp p\<rparr>"
proof -
  have "decode_sidecar_epoch_directory_cbor directory = Inr (pmp_directory p)"
    using encode_directory_value(4) [OF _ assms(2)] assms(1) by (simp add: payload_wf_def)
  with assms show ?thesis
    by (cases "pmp_writer_version p"; cases "pmp_write_timestamp p")
      (simp_all add: payload_entries_def decode_payload_field_def no_payload_fields_def
        bytes_to_16_def bytes_to_32_def payload_wf_def)
qed

lemma decode_encode_payload:
  assumes "ciborium W R" "rfc3339_ascii rfc3339" "payload_wf p"
    and "encode_parity_map_payload W rfc3339 p = Inr bs"
  shows "decode_parity_map_payload W R rfc3339 bs = Inr p"
    and "\<exists>directory. encode_sidecar_epoch_directory_cbor (pmp_directory p) = Inr directory \<and>
      bs = cbor_encode (int_map (payload_entries p directory))"
proof -
  from assms(4) obtain directory
    where d: "encode_sidecar_epoch_directory_cbor (pmp_directory p) = Inr directory"
      and w: "W (int_map (payload_entries p directory)) = Inr bs"
      and texts: "\<forall>v. pmp_writer_version p = Some v \<longrightarrow> validate_writer_version v = Inr ()"
        "\<forall>t. pmp_write_timestamp p = Some t \<longrightarrow> validate_write_timestamp rfc3339 t = Inr ()"
    by (auto simp: encode_payload_Inr)
  note v = payload_value [OF assms(3,2) d texts]
  have bs: "bs = cbor_encode (int_map (payload_entries p directory))"
    using w ciborium.into_writer_deterministic [OF assms(1) v(2)] by simp
  with d show "\<exists>directory. encode_sidecar_epoch_directory_cbor (pmp_directory p) = Inr directory \<and>
      bs = cbor_encode (int_map (payload_entries p directory))" by blast
  have "decode_canonical_cbor_value W R bs = Inr (int_map (payload_entries p directory))"
    using ciborium.decode_canonical_encode [OF assms(1) v(2,3)] v(1) bs by simp
  then show "decode_parity_map_payload W R rfc3339 bs = Inr p"
    using decode_payload_entries [OF assms(3) d texts]
    by (simp add: decode_parity_map_payload_def int_map_def decode_int_map [OF ascending_payload])
qed

section \<open>The byte bounds\<close>

lemma cbor_head_length:
  "length (cbor_head m a) \<le> 9" "a < 24 \<Longrightarrow> length (cbor_head m a) = 1"
  "a < 256 \<Longrightarrow> length (cbor_head m a) \<le> 2"
  by (auto simp: cbor_head_def Let_def)

lemma integer_length: "length (cbor_encode (Integer i)) \<le> 9"
  using cbor_head_length(1) by simp

lemma key_length: "0 \<le> k \<Longrightarrow> k < 24 \<Longrightarrow> length (cbor_encode (Integer k)) = 1"
  by (simp add: cbor_head_length word_less_def uint_word_of_int)

lemma small_head_length: "n < 24 \<Longrightarrow> length (cbor_head m (word_of_nat n)) = 1"
  by (intro cbor_head_length(2)) (simp add: word_less_nat_alt unat_word_of_nat)

lemma short_head_length: "n < 256 \<Longrightarrow> length (cbor_head m (word_of_nat n)) \<le> 2"
  by (intro cbor_head_length(3)) (simp add: word_less_nat_alt unat_word_of_nat)

lemma int_map_length:
  assumes "length kvs < 24" "list_all (\<lambda>(k, v). 0 \<le> k \<and> k < 24) kvs"
  shows "length (cbor_encode (int_map kvs)) =
    1 + length kvs + sum_list (map (\<lambda>(k, v). length (cbor_encode v)) kvs)"
proof -
  have "sum_list (map (\<lambda>(k, v). length (cbor_encode (Integer k)) + length (cbor_encode v)) kvs)
      = length kvs + sum_list (map (\<lambda>(k, v). length (cbor_encode v)) kvs)"
    using assms(2) by (induction kvs) (auto simp: key_length simp del: cbor_encode.simps)
  then show ?thesis
    using small_head_length [OF assms(1)]
    by (simp add: int_map_def length_concat comp_def case_prod_unfold del: cbor_encode.simps(1))
qed

lemma sum_list_bound: "(\<And>x. x \<in> set xs \<Longrightarrow> f x \<le> c) \<Longrightarrow> sum_list (map f xs) \<le> c * length xs" for c :: nat
  by (induction xs) (auto simp: add_le_mono)

lemma bytes_length: "length bs < 256 \<Longrightarrow> length (cbor_encode (Bytes bs)) \<le> 2 + length bs"
  and text_length: "length t < 256 \<Longrightarrow> length (cbor_encode (Text t)) \<le> 2 + length t"
  using short_head_length [of "length bs" 2] short_head_length [of "length t" 3] by simp_all

lemma encode_entry_length:
  "entry_wf e \<Longrightarrow> length (cbor_encode (encode_sidecar_epoch_directory_entry_cbor e)) \<le> 116"
  unfolding encode_sidecar_epoch_directory_entry_cbor_def
  using bytes_length [of "sde_canonical_metadata_hash e"]
    integer_length [of "uint (sde_tape_file_number e)"] integer_length [of "uint (sde_epoch_id e)"]
    integer_length [of "uint (sde_protected_ordinal_start e)"]
    integer_length [of "uint (sde_protected_ordinal_end_exclusive e)"]
    integer_length [of "uint (sde_sidecar_total_block_count e)"]
    integer_length [of "uint (sde_sidecar_header_block_count e)"]
    integer_length [of "uint (sde_parity_shard_block_count e)"]
    integer_length [of "uint (sde_flags e)"]
  by (subst int_map_length) (simp_all add: entry_wf_def del: cbor_encode.simps)

lemma encode_directory_length:
  assumes "directory_wf d" "encode_sidecar_epoch_directory_cbor d = Inr v"
  shows "length (cbor_encode v) \<le> 43 + 116 * length (directory_entries d)"
proof -
  let ?rows = "map encode_sidecar_epoch_directory_entry_cbor (directory_entries d)"
  have "sum_list (map (\<lambda>e. length (cbor_encode (encode_sidecar_epoch_directory_entry_cbor e)))
      (directory_entries d)) \<le> 116 * length (directory_entries d)"
    using assms(1) by (intro sum_list_bound encode_entry_length) (auto simp: directory_wf_def list_all_iff)
  then have rows: "length (cbor_encode (Array ?rows)) \<le> 9 + 116 * length (directory_entries d)"
    using cbor_head_length(1) [of 4 "word_of_nat (length (directory_entries d))"]
    by (simp add: length_concat comp_def)
  show ?thesis
    using assms(2) rows integer_length [of "uint (directory_scope_tape_file_count d)"]
      integer_length [of "uint (directory_scope_total_data_ordinals d)"]
      integer_length [of "uint (directory_scope_highest_protected_ordinal d)"]
    by (auto simp: encode_sidecar_epoch_directory_cbor_def int_map_length
        simp del: cbor_encode.simps(1-6))
qed

lemma payload_entries_length:
  assumes "payload_wf p" "encode_sidecar_epoch_directory_cbor (pmp_directory p) = Inr directory"
    and "\<forall>v. pmp_writer_version p = Some v \<longrightarrow> length v \<le> 128"
    and "\<forall>t. pmp_write_timestamp p = Some t \<longrightarrow> length t \<le> 64"
  shows "length (cbor_encode (int_map (payload_entries p directory))) \<le>
    325 + 116 * length (directory_entries (pmp_directory p))"
proof -
  have d: "length (cbor_encode directory) \<le> 43 + 116 * length (directory_entries (pmp_directory p))"
    using encode_directory_length [OF _ assms(2)] assms(1) by (simp add: payload_wf_def)
  have fmt: "length (cbor_encode (Text PARITY_MAP_FORMAT_ID)) = 18"
    using small_head_length [of 17 3] by (simp add: PARITY_MAP_FORMAT_ID_def)
  have uuid: "length (cbor_encode (Bytes (pmp_tape_uuid p))) = 17"
    using assms(1) small_head_length [of 16 2] by (simp add: payload_wf_def)
  have digest: "length (cbor_encode (Bytes (pmp_canonical_map_digest p))) \<le> 34"
    using assms(1) bytes_length [of "pmp_canonical_map_digest p"] by (simp add: payload_wf_def)
  have version: "length (cbor_encode (Text v)) \<le> 130" if "pmp_writer_version p = Some v" for v
    using that assms(3) text_length [of v] by (simp del: cbor_encode.simps)
  have timestamp: "length (cbor_encode (Text t)) \<le> 66" if "pmp_write_timestamp p = Some t" for t
    using that assms(4) text_length [of t] by (simp del: cbor_encode.simps)
  have "length (cbor_encode (int_map (payload_entries p directory))) =
      1 + length (payload_entries p directory) +
      sum_list (map (\<lambda>(k, v). length (cbor_encode v)) (payload_entries p directory))"
    by (rule int_map_length) (simp_all add: payload_entries_def split: option.splits)
  then show ?thesis
    using d fmt uuid digest integer_length [of "uint (pmp_sequence p)"]
      version timestamp
    by (cases "pmp_writer_version p"; cases "pmp_write_timestamp p")
      (simp_all add: payload_entries_def del: cbor_encode.simps)
qed

lemma payload_bound_Inr:
  "parity_map_payload_len_upper_bound n = Inr bound \<longleftrightarrow> unat bound = 325 + 116 * unat n"
proof -
  have "parity_map_payload_len_upper_bound n = Inr bound \<longleftrightarrow>
      (\<exists>rows :: u64. unat rows = 116 * unat n \<and> 325 + unat rows = unat bound)"
    by (simp add: parity_map_payload_len_upper_bound_def checked_simps mult.commute
        PARITY_MAP_CBOR_DIRECTORY_ENTRY_UPPER_BOUND_BYTES_def
        PARITY_MAP_CBOR_FIXED_UPPER_BOUND_BYTES_def eq_commute [of _ "unat n * 116"])
  also have "\<dots> \<longleftrightarrow> unat bound = 325 + 116 * unat n"
    unfolding ex_u64 [where P = "\<lambda>x. 325 + x = unat bound"]
    using unat_u64_less [of bound] by auto
  finally show ?thesis .
qed

definition two_epoch_payload :: ParityMapPayload where
  "two_epoch_payload =
     \<lparr>pmp_tape_uuid = replicate 16 9, pmp_sequence = 3, pmp_directory = two_epoch_directory,
      pmp_canonical_map_digest = replicate 32 5, pmp_writer_version = Some ''rem 1.0'',
      pmp_write_timestamp = Some ''2026-01-02T03:04:05Z''\<rparr>"

definition sample_rfc3339 :: "string \<Rightarrow> bool" where
  "sample_rfc3339 s \<longleftrightarrow> s = ''2026-01-02T03:04:05Z''"

lemma sample_rfc3339_ascii: "rfc3339_ascii sample_rfc3339"
  by (simp add: rfc3339_ascii_def sample_rfc3339_def)

lemma two_epoch_payload_wf: "payload_wf two_epoch_payload"
  by code_simp

text \<open>C22: The allocation-free bound on the size of a parity-map payload is sound: whenever the
  payload is encoded and the bound for its number of directory rows exists, the encoded bytes fit
  the bound.\<close>

theorem payload_fits_upper_bound:
  assumes "ciborium W R" "rfc3339_ascii rfc3339" "payload_wf p"
    and "encode_parity_map_payload W rfc3339 p = Inr bs"
    and "parity_map_payload_len_upper_bound
      (word_of_nat (length (directory_entries (pmp_directory p)))) = Inr bound"
  shows "length bs \<le> unat bound"
proof -
  from decode_encode_payload(2) [OF assms(1-4)] obtain directory
    where d: "encode_sidecar_epoch_directory_cbor (pmp_directory p) = Inr directory"
      and bs: "bs = cbor_encode (int_map (payload_entries p directory))" by blast
  have "\<forall>v. pmp_writer_version p = Some v \<longrightarrow> length v \<le> 128"
    "\<forall>t. pmp_write_timestamp p = Some t \<longrightarrow> length t \<le> 64"
    using assms(4) valid_texts(1) valid_texts(2) [OF assms(2)] by (auto simp: encode_payload_Inr)
  from payload_entries_length [OF assms(3) d this]
  have "length bs \<le> 325 + 116 * length (directory_entries (pmp_directory p))"
    by (simp only: bs)
  moreover have "unat bound = 325 + 116 * length (directory_entries (pmp_directory p))"
    using assms(3,5) by (simp add: payload_bound_Inr unat_word_of_nat payload_wf_def directory_wf_def)
  ultimately show ?thesis by simp
qed

theorem payload_fits_upper_bound_witness:
  "\<exists>bs. encode_parity_map_payload reference_writer sample_rfc3339 two_epoch_payload = Inr bs \<and>
     length bs \<le> unat (557 :: u64)"
proof -
  have "case encode_parity_map_payload reference_writer sample_rfc3339 two_epoch_payload of
      Inr bs \<Rightarrow> True | Inl _ \<Rightarrow> False" by code_simp
  then obtain bs
    where bs: "encode_parity_map_payload reference_writer sample_rfc3339 two_epoch_payload = Inr bs"
    by (auto split: sum.splits)
  moreover have "parity_map_payload_len_upper_bound
      (word_of_nat (length (directory_entries (pmp_directory two_epoch_payload)))) = Inr 557"
    by code_simp
  ultimately show ?thesis
    using payload_fits_upper_bound [OF rfc8949.ciborium_axioms sample_rfc3339_ascii
        two_epoch_payload_wf bs] by blast
qed

end
