(* ===== verification/BlockBuffer.thy ===== *)
theory BlockBuffer
  imports ByteBlocks ParityModel
begin

text \<open>
  Byte ranges that run across fixed-size tape blocks, from
  \<open>crates/remanence-parity/src/parity_map.rs\<close>: the loops that write a byte string into a list of
  blocks, read one back, and check that the rest is zero. Each loop is a recursive function with a
  termination proof, and each is shown to do on the blocks what a single operation does on the
  concatenated buffer. A division by a zero block size and an index outside the blocks, which
  panic in the source, are the error \<open>Invariant\<close>.
\<close>

section \<open>The loops\<close>

function write_bytes_loop :: "nat \<Rightarrow> bytes list \<Rightarrow> nat \<Rightarrow> bytes \<Rightarrow> bytes list parity_result" where
  "write_bytes_loop block_size blocks offset data =
     (if data = [] then Inr blocks
      else if block_size = 0 then Inl (Invariant ''attempt to divide by zero'')
      else
        let block_index = offset div block_size;
            within = offset mod block_size
        in if block_index < length blocks
           then
             let n = min (length data) (block_size - within)
             in write_bytes_loop block_size
                  (blocks[block_index := copy_at within (take n data) (blocks ! block_index)])
                  (offset + n) (drop n data)
           else Inl (ParityMapParse ''parity-map write offset exceeds copy blocks''))"
  by pat_completeness auto
termination
  by (relation "measure (\<lambda>(_, _, _, data). length data)") auto

definition write_bytes_at :: "bytes list \<Rightarrow> nat \<Rightarrow> bytes \<Rightarrow> bytes list parity_result" where
  "write_bytes_at blocks offset data =
     (case blocks of
        [] \<Rightarrow> Inl (ParityMapParse ''parity-map copy has no blocks'')
      | first # _ \<Rightarrow> write_bytes_loop (length first) blocks offset data)"

function read_bytes_loop :: "nat \<Rightarrow> bytes list \<Rightarrow> nat \<Rightarrow> nat \<Rightarrow> bytes \<Rightarrow> bytes parity_result" where
  "read_bytes_loop block_size blocks offset remaining payload =
     (if remaining = 0 then Inr payload
      else if block_size = 0 then Inl (Invariant ''attempt to divide by zero'')
      else
        let block_index = offset div block_size;
            within = offset mod block_size;
            n = min remaining (block_size - within)
        in if block_index < length blocks
           then read_bytes_loop block_size blocks (offset + n) (remaining - n)
                  (payload @ slice within n (blocks ! block_index))
           else Inl (Invariant ''index out of bounds''))"
  by pat_completeness auto
termination
  by (relation "measure (\<lambda>(_, _, _, remaining, _). remaining)") auto

definition ensure_zero_filled :: "bytes \<Rightarrow> string \<Rightarrow> unit parity_result" where
  "ensure_zero_filled bs label =
     (if list_ex (\<lambda>b. b \<noteq> 0) bs
      then Inl (ParityMapParse (label @ '' non-zero at offset {index}: 0x{byte:02x}''))
      else Inr ())"

function ensure_zero_loop :: "nat \<Rightarrow> bytes list \<Rightarrow> nat \<Rightarrow> nat \<Rightarrow> unit parity_result" where
  "ensure_zero_loop block_size blocks copy_capacity offset =
     (if offset \<ge> copy_capacity then Inr ()
      else if block_size = 0 then Inl (Invariant ''attempt to divide by zero'')
      else
        let block_index = offset div block_size;
            within = offset mod block_size;
            n = min (copy_capacity - offset) (block_size - within)
        in if block_index < length blocks
           then rbind (ensure_zero_filled (slice within n (blocks ! block_index))
                        ''parity-map copy padding'')
                  (\<lambda>_. ensure_zero_loop block_size blocks copy_capacity (offset + n))
           else Inl (Invariant ''index out of bounds''))"
  by pat_completeness auto
termination
  by (relation "measure (\<lambda>(_, _, copy_capacity, offset). copy_capacity - offset)")
    (auto intro!: diff_less_mono2)

definition ensure_zero_tail :: "bytes list \<Rightarrow> nat \<Rightarrow> nat \<Rightarrow> nat \<Rightarrow> unit parity_result" where
  "ensure_zero_tail blocks payload_end copy_capacity block_size =
     (if payload_end \<ge> copy_capacity then Inr ()
      else ensure_zero_loop block_size blocks copy_capacity payload_end)"

declare write_bytes_loop.simps [simp del] read_bytes_loop.simps [simp del]
  ensure_zero_loop.simps [simp del]

section \<open>Uniform blocks and the flat buffer\<close>

definition uniform :: "nat \<Rightarrow> 'a list list \<Rightarrow> bool" where
  "uniform b blocks \<longleftrightarrow> 0 < b \<and> list_all (\<lambda>x. length x = b) blocks"

lemma uniform_nth: "uniform b blocks \<Longrightarrow> i < length blocks \<Longrightarrow> length (blocks ! i) = b"
  by (simp add: uniform_def list_all_length)

lemma length_concat_uniform: "uniform b blocks \<Longrightarrow> length (concat blocks) = length blocks * b"
  by (induction blocks) (auto simp: uniform_def)

lemma concat_uniform_nth:
  "uniform b blocks \<Longrightarrow> k < length blocks * b \<Longrightarrow>
    concat blocks ! k = blocks ! (k div b) ! (k mod b)"
proof (induction blocks arbitrary: k)
  case (Cons x blocks)
  then have b: "0 < b" "length x = b" "uniform b blocks" by (auto simp: uniform_def)
  show ?case
  proof (cases "k < b")
    case True
    then show ?thesis using b by (simp add: nth_append)
  next
    case False
    then have "k div b = Suc ((k - b) div b)" "k mod b = (k - b) mod b"
      using b(1) by (simp_all add: le_div_geq le_mod_geq)
    moreover have "k - b < length blocks * b" using Cons.prems(2) False by simp
    ultimately show ?thesis
      using Cons.IH [OF b(3)] False b by (simp add: nth_append)
  qed
qed simp

lemma uniform_update: "uniform b blocks \<Longrightarrow> length x = b \<Longrightarrow> uniform b (blocks[i := x])"
  by (auto simp: uniform_def list_all_iff dest!: subsetD [OF set_update_subset_insert])

lemma slice_block:
  assumes "uniform b blocks" "i < length blocks" "w + n \<le> b"
  shows "slice w n (blocks ! i) = slice (i * b + w) n (concat blocks)"
proof (rule nth_equalityI)
  have fits: "i * b + b \<le> length blocks * b"
    using assms(2) mult_le_mono1 [of "Suc i" "length blocks" b] by simp
  then show "length (slice w n (blocks ! i)) = length (slice (i * b + w) n (concat blocks))"
    using assms by (simp add: uniform_nth length_concat_uniform)
  fix j
  assume j: "j < length (slice w n (blocks ! i))"
  then have "j < n" by simp
  then have wj: "w + j < b" using assms(3) by simp
  then have "(i * b + w + j) div b = i" "(i * b + w + j) mod b = w + j"
    by (simp_all add: add.assoc)
  then show "slice w n (blocks ! i) ! j = slice (i * b + w) n (concat blocks) ! j"
    using assms fits \<open>j < n\<close> wj concat_uniform_nth [OF assms(1), of "i * b + w + j"]
    by (simp add: nth_of_slice uniform_nth length_concat_uniform add.assoc)
qed

lemma concat_update_block:
  assumes "uniform b blocks" "i < length blocks" "w + length d \<le> b"
  shows "concat (blocks[i := copy_at w d (blocks ! i)]) = copy_at (i * b + w) d (concat blocks)"
proof (rule nth_equalityI)
  let ?blocks = "blocks[i := copy_at w d (blocks ! i)]"
  have fits: "i * b + b \<le> length blocks * b"
    using assms(2) mult_le_mono1 [of "Suc i" "length blocks" b] by simp
  have u: "uniform b ?blocks"
    using assms by (intro uniform_update) (simp_all add: uniform_nth)
  then show len: "length (concat ?blocks) = length (copy_at (i * b + w) d (concat blocks))"
    using assms fits by (simp add: length_concat_uniform)
  fix k
  assume "k < length (concat ?blocks)"
  then have k: "k < length blocks * b" using u by (simp add: length_concat_uniform)
  have b: "0 < b" using assms(1) by (simp add: uniform_def)
  have split: "k = k div b * b + k mod b" "k mod b < b" using b by simp_all
  have "concat ?blocks ! k = ?blocks ! (k div b) ! (k mod b)"
    using concat_uniform_nth [OF u] k by simp
  also have "\<dots> = (if k div b = i \<and> w \<le> k mod b \<and> k mod b < w + length d
      then d ! (k mod b - w) else blocks ! (k div b) ! (k mod b))"
    using assms split(2) k b
    by (auto simp: nth_list_update nth_copy_at uniform_nth less_mult_imp_div_less)
  also have "\<dots> = (if i * b + w \<le> k \<and> k < i * b + w + length d
      then d ! (k - (i * b + w)) else concat blocks ! k)"
  proof (cases "k div b = i")
    case True
    define r where "r = k mod b"
    have kr: "k = i * b + r" using split(1) True by (simp add: r_def)
    have "i * b + w \<le> k \<and> k < i * b + w + length d \<longleftrightarrow> w \<le> r \<and> r < w + length d"
      "k - (i * b + w) = r - w"
      using kr by linarith+
    then show ?thesis
      using True concat_uniform_nth [OF assms(1) k] by (simp only: r_def [symmetric] simp_thms)
  next
    case False
    have "\<not> (i * b \<le> k \<and> k < i * b + b)"
      using False div_nat_eqI [of b i k] by (auto simp: mult.commute)
    then have "\<not> (i * b + w \<le> k \<and> k < i * b + w + length d)" using assms(3) by linarith
    then show ?thesis using False concat_uniform_nth [OF assms(1) k] by auto
  qed
  also have "\<dots> = copy_at (i * b + w) d (concat blocks) ! k"
    using assms fits k by (simp add: nth_copy_at length_concat_uniform)
  finally show "concat ?blocks ! k = copy_at (i * b + w) d (concat blocks) ! k" .
qed

lemma copy_at_split:
  "off + length d \<le> length buf \<Longrightarrow> n \<le> length d \<Longrightarrow>
    copy_at (off + n) (drop n d) (copy_at off (take n d) buf) = copy_at off d buf"
  by (rule nth_equalityI) (auto simp: nth_copy_at)

lemma slice_split: "slice off n buf @ slice (off + n) m buf = slice off (n + m) buf"
  by (simp add: slice_def take_add add.commute [of n off])

section \<open>The loops refine flat operations\<close>

lemma offset_in_blocks:
  fixes b offset m :: nat
  assumes "0 < b" "offset < m * b"
  shows "offset div b < m" "offset div b * b + offset mod b = offset" "offset mod b < b"
  using less_mult_imp_div_less [OF assms(2)] assms(1) by simp_all

lemma write_bytes_loop_flat:
  "uniform b blocks \<Longrightarrow> offset + length data \<le> length blocks * b \<Longrightarrow>
   \<exists>blocks'. write_bytes_loop b blocks offset data = Inr blocks' \<and> uniform b blocks' \<and>
     length blocks' = length blocks \<and> concat blocks' = copy_at offset data (concat blocks)"
proof (induction b blocks offset data rule: write_bytes_loop.induct)
  case (1 b blocks offset data)
  show ?case
  proof (cases "data = []")
    case True
    then show ?thesis
      using 1(2) by (simp add: write_bytes_loop.simps copy_at_def)
  next
    case False
    define i w n where "i = offset div b" and "w = offset mod b" and "n = min (length data) (b - w)"
    let ?blocks = "blocks[i := copy_at w (take n data) (blocks ! i)]"
    have b: "0 < b" using 1(2) by (simp add: uniform_def)
    have "offset < length blocks * b" using 1(3) False by (cases data) auto
    note o = offset_in_blocks [OF b this, folded i_def w_def]
    have n: "n \<le> length data" "w + n \<le> b" using o(3) by (simp_all add: n_def)
    have u: "uniform b ?blocks"
      using 1(2) o(1) n by (intro uniform_update) (simp_all add: uniform_nth)
    have flat: "concat ?blocks = copy_at offset (take n data) (concat blocks)"
      using concat_update_block [OF 1(2) o(1), of w "take n data"] n o(2) by simp
    have step: "write_bytes_loop b blocks offset data =
        write_bytes_loop b ?blocks (offset + n) (drop n data)"
      using False b o(1) by (subst write_bytes_loop.simps) (simp add: Let_def i_def w_def n_def)
    have "\<exists>blocks'. write_bytes_loop b ?blocks (offset + n) (drop n data) = Inr blocks' \<and>
        uniform b blocks' \<and> length blocks' = length ?blocks \<and>
        concat blocks' = copy_at (offset + n) (drop n data) (concat ?blocks)"
      using 1(1) [OF False _ i_def w_def _ n_def u] b o(1) 1(3) n by simp
    then show ?thesis
      unfolding step flat using 1(2,3) n
      by (simp add: copy_at_split length_concat_uniform)
  qed
qed

lemma read_bytes_loop_flat:
  "uniform b blocks \<Longrightarrow> offset + remaining \<le> length blocks * b \<Longrightarrow>
   read_bytes_loop b blocks offset remaining acc = Inr (acc @ slice offset remaining (concat blocks))"
proof (induction b blocks offset remaining acc rule: read_bytes_loop.induct)
  case (1 b blocks offset remaining acc)
  show ?case
  proof (cases "remaining = 0")
    case True
    then show ?thesis by (simp add: read_bytes_loop.simps slice_def)
  next
    case False
    define i w n where "i = offset div b" and "w = offset mod b" and "n = min remaining (b - w)"
    have b: "0 < b" using 1(2) by (simp add: uniform_def)
    have "offset < length blocks * b" using 1(3) False by simp
    note o = offset_in_blocks [OF b this, folded i_def w_def]
    have n: "n \<le> remaining" "w + n \<le> b" using o(3) by (simp_all add: n_def)
    have "read_bytes_loop b blocks offset remaining acc =
        read_bytes_loop b blocks (offset + n) (remaining - n) (acc @ slice w n (blocks ! i))"
      using False b o(1) by (subst read_bytes_loop.simps) (simp add: Let_def i_def w_def n_def)
    also have "\<dots> = Inr ((acc @ slice w n (blocks ! i)) @ slice (offset + n) (remaining - n) (concat blocks))"
      using 1(1) [OF False _ i_def w_def n_def] b o(1) 1(2,3) n by simp
    also have "slice w n (blocks ! i) = slice offset n (concat blocks)"
      using slice_block [OF 1(2) o(1) n(2)] o(2) by simp
    finally show ?thesis
      using slice_split [of offset n "concat blocks" "remaining - n"] n by simp
  qed
qed

lemma ensure_zero_filled_Inr [simp]:
  "ensure_zero_filled bs label = Inr () \<longleftrightarrow> list_all (\<lambda>b. b = 0) bs"
  by (auto simp: ensure_zero_filled_def list_ex_iff list_all_iff)

lemma ensure_zero_loop_flat:
  "uniform b blocks \<Longrightarrow> capacity = length blocks * b \<Longrightarrow>
   ensure_zero_loop b blocks capacity offset = Inr () \<longleftrightarrow>
     list_all (\<lambda>x. x = 0) (drop offset (concat blocks))"
proof (induction b blocks capacity offset rule: ensure_zero_loop.induct)
  case (1 b blocks capacity offset)
  show ?case
  proof (cases "offset \<ge> capacity")
    case True
    then show ?thesis
      using 1(2,3) by (subst ensure_zero_loop.simps) (simp add: length_concat_uniform)
  next
    case False
    define i w n where "i = offset div b" and "w = offset mod b"
      and "n = min (capacity - offset) (b - w)"
    have b: "0 < b" using 1(2) by (simp add: uniform_def)
    have "offset < length blocks * b" using 1(3) False by simp
    note o = offset_in_blocks [OF b this, folded i_def w_def]
    have n: "w + n \<le> b" using o(3) by (simp add: n_def)
    have "ensure_zero_loop b blocks capacity offset = Inr () \<longleftrightarrow>
        list_all (\<lambda>x. x = 0) (slice w n (blocks ! i)) \<and>
        ensure_zero_loop b blocks capacity (offset + n) = Inr ()"
      using False b o(1) by (subst ensure_zero_loop.simps) (simp add: Let_def i_def w_def n_def)
    also have "slice w n (blocks ! i) = slice offset n (concat blocks)"
      using slice_block [OF 1(2) o(1) n] o(2) by simp
    also have "ensure_zero_loop b blocks capacity (offset + n) = Inr () \<longleftrightarrow>
        list_all (\<lambda>x. x = 0) (drop (offset + n) (concat blocks))"
      using 1(1) [OF False _ i_def w_def n_def] b o(1) 1(2,3) by simp
    also have "list_all (\<lambda>x. x = 0) (slice offset n (concat blocks)) \<and>
        list_all (\<lambda>x. x = 0) (drop (offset + n) (concat blocks)) \<longleftrightarrow>
        list_all (\<lambda>x. x = 0) (slice offset n (concat blocks) @ drop (offset + n) (concat blocks))"
      by simp
    also have "slice offset n (concat blocks) @ drop (offset + n) (concat blocks) =
        drop offset (concat blocks)"
      by (simp add: slice_def add.commute [of offset] flip: drop_drop)
    finally show ?thesis .
  qed
qed

lemma write_bytes_loop_overrun:
  "uniform b blocks \<Longrightarrow> data \<noteq> [] \<Longrightarrow> length blocks * b < offset + length data \<Longrightarrow>
   write_bytes_loop b blocks offset data =
     Inl (ParityMapParse ''parity-map write offset exceeds copy blocks'')"
proof (induction b blocks offset data rule: write_bytes_loop.induct)
  case (1 b blocks offset data)
  define i w n where "i = offset div b" and "w = offset mod b" and "n = min (length data) (b - w)"
  have b: "0 < b" using 1(2) by (simp add: uniform_def)
  show ?case
  proof (cases "offset < length blocks * b")
    case False
    then have "\<not> i < length blocks"
      using b by (simp add: i_def not_less less_eq_div_iff_mult_less_eq)
    then show ?thesis
      using 1(3) b by (subst write_bytes_loop.simps) (simp add: Let_def i_def)
  next
    case True
    let ?blocks = "blocks[i := copy_at w (take n data) (blocks ! i)]"
    note o = offset_in_blocks [OF b True, folded i_def w_def]
    have "i * b + b \<le> length blocks * b"
      using o(1) mult_le_mono1 [of "Suc i" "length blocks" b] by simp
    then have "offset + (b - w) \<le> length blocks * b" using o(2,3) by linarith
    then have n: "n = b - w" "n < length data" using 1(4) by (auto simp: n_def)
    have u: "uniform b ?blocks"
      using 1(2) o(1,3) n by (intro uniform_update) (simp_all add: uniform_nth)
    have "write_bytes_loop b blocks offset data =
        write_bytes_loop b ?blocks (offset + n) (drop n data)"
      using 1(3) b o(1) by (subst write_bytes_loop.simps) (simp add: Let_def i_def w_def n_def)
    then show ?thesis
      using 1(1) [OF 1(3) _ i_def w_def _ n_def u] b o(1) 1(4) n by simp
  qed
qed

lemma write_bytes_at_uniform:
  "uniform b blocks \<Longrightarrow> blocks \<noteq> [] \<Longrightarrow> write_bytes_at blocks offset data = write_bytes_loop b blocks offset data"
  by (cases blocks) (auto simp: write_bytes_at_def uniform_def)

text \<open>C26: Writing a byte string across blocks implements one copy into the concatenated buffer: it
  returns exactly when the bytes fit, changes neither the number nor the size of the blocks, and
  leaves the flat buffer with the bytes copied in at the offset; reading the same range back across
  the blocks returns the bytes.\<close>

theorem block_writes_refine_flat_copy:
  assumes "uniform b blocks" "blocks \<noteq> []" "data \<noteq> []"
  shows "((\<exists>blocks'. write_bytes_at blocks offset data = Inr blocks') \<longleftrightarrow>
            offset + length data \<le> length (concat blocks)) \<and>
    (write_bytes_at blocks offset data = Inr blocks' \<longrightarrow>
       uniform b blocks' \<and> length blocks' = length blocks \<and>
       concat blocks' = copy_at offset data (concat blocks) \<and>
       read_bytes_loop b blocks' offset (length data) [] = Inr data)"
proof (cases "offset + length data \<le> length blocks * b")
  case True
  then obtain blocks1 where w: "write_bytes_at blocks offset data = Inr blocks1" "uniform b blocks1"
    "length blocks1 = length blocks" "concat blocks1 = copy_at offset data (concat blocks)"
    using write_bytes_loop_flat [OF assms(1)] write_bytes_at_uniform [OF assms(1,2)] by metis
  moreover have "read_bytes_loop b blocks1 offset (length data) [] = Inr data"
    using read_bytes_loop_flat [OF w(2), of offset "length data" "[]"] w(3,4) True assms(1)
    by (simp add: slice_copy_same length_concat_uniform)
  ultimately show ?thesis
    using True assms(1) by (auto simp: length_concat_uniform)
next
  case False
  then show ?thesis
    using write_bytes_loop_overrun [OF assms(1,3), of offset] write_bytes_at_uniform [OF assms(1,2)]
      assms(1) by (simp add: length_concat_uniform)
qed

theorem block_writes_refine_flat_copy_witness:
  "\<exists>blocks'. write_bytes_at [[0, 0, 0], [0, 0, 0]] 2 [7, 8, 9] = Inr blocks' \<and>
     read_bytes_loop 3 blocks' 2 3 [] = Inr [7, 8, 9]"
proof -
  have "uniform 3 [[0, 0, 0], [0, 0, 0 :: u8]]" by (simp add: uniform_def)
  note t = block_writes_refine_flat_copy [OF this, of "[7, 8, 9]" 2]
  have "\<exists>blocks'. write_bytes_at [[0, 0, 0], [0, 0, 0]] 2 [7, 8, 9] = Inr blocks'"
    using t by simp
  then obtain blocks' where w: "write_bytes_at [[0, 0, 0], [0, 0, 0]] 2 [7, 8, 9] = Inr blocks'" ..
  then have "read_bytes_loop 3 blocks' 2 (length [7, 8, 9 :: u8]) [] = Inr [7, 8, 9]"
    using t by blast
  with w show ?thesis by (intro exI [of _ blocks']) (simp add: numeral_3_eq_3)
qed

end
