(* ===== verification/ParityMapFile.thy ===== *)
theory ParityMapFile
  imports Crc64 FilemarkMap ControlLayout ParityMapPayload BlockBuffer
begin

text \<open>
  The replicated \<open>parity_map\<close> tape file, from \<open>crates/remanence-parity/src/parity_map.rs\<close>: the fixed
  header and footer layouts, packing of the two copies into tape blocks, and the parsers, with and
  without unreadable blocks. Code of other crates that the codec calls (the CBOR reader and writer,
  the RFC 3339 parser, SHA-256 and HMAC-SHA-256) is bundled in the record \<open>external\<close>, an argument
  of the definitions. Headers and footers share their locator fields, which are written and parsed
  by common functions; the two prefixes of the error messages in which the parsers differ are
  arguments.
\<close>

section \<open>External code\<close>

record external =
  ext_into_writer :: cbor_writer
  ext_from_reader :: cbor_reader
  ext_rfc3339 :: "string \<Rightarrow> bool"
  ext_sha256 :: "bytes \<Rightarrow> bytes"
  ext_hmac_sha256 :: "bytes \<Rightarrow> bytes \<Rightarrow> bytes"

text \<open>What the codec relies on: the contract of the CBOR crate, ASCII timestamps, and the 32-byte
  results of the hash functions.\<close>

definition external_ok :: "external \<Rightarrow> bool" where
  "external_ok x \<longleftrightarrow> ciborium (ext_into_writer x) (ext_from_reader x) \<and> rfc3339_ascii (ext_rfc3339 x) \<and>
     (\<forall>bs. length (ext_sha256 x bs) = 32) \<and> (\<forall>k bs. length (ext_hmac_sha256 x k bs) = 32)"

section \<open>Constants and magic\<close>

definition PARITY_MAP_SCHEMA_VERSION :: u16 where
  "PARITY_MAP_SCHEMA_VERSION = 2"

definition PARITY_MAP_FOOTER_VERSION :: u16 where
  "PARITY_MAP_FOOTER_VERSION = 2"

definition PARITY_MAP_HEADER_LEN :: nat where
  "PARITY_MAP_HEADER_LEN = 0xC8"

definition PARITY_MAP_HEADER_CRC_OFFSET :: nat where
  "PARITY_MAP_HEADER_CRC_OFFSET = 0xC0"

definition PARITY_MAP_FOOTER_LEN :: nat where
  "PARITY_MAP_FOOTER_LEN = 0xC8"

definition PARITY_MAP_FOOTER_CRC_OFFSET :: nat where
  "PARITY_MAP_FOOTER_CRC_OFFSET = 0xC0"

definition PARITY_MAP_MAGIC_MESSAGE :: bytes where
  "PARITY_MAP_MAGIC_MESSAGE = [0x52, 0x45, 0x4D, 0x00, 0x50, 0x4D, 0x41, 0x50, 0x01]"

definition derive_parity_map_magic :: "external \<Rightarrow> bytes \<Rightarrow> bytes" where
  "derive_parity_map_magic x tape_uuid =
     take 8 (ext_hmac_sha256 x tape_uuid PARITY_MAP_MAGIC_MESSAGE)"

definition read_u16_le :: "bytes \<Rightarrow> nat \<Rightarrow> u16" where
  "read_u16_le buf offset = le_word (slice offset 2 buf)"

definition read_u32_le :: "bytes \<Rightarrow> nat \<Rightarrow> u32" where
  "read_u32_le buf offset = le_word (slice offset 4 buf)"

definition read_u64_le :: "bytes \<Rightarrow> nat \<Rightarrow> u64" where
  "read_u64_le buf offset = le_word (slice offset 8 buf)"

definition validate_block_size :: "u32 \<Rightarrow> nat parity_result" where
  "validate_block_size block_size =
     (if unat block_size < PARITY_MAP_HEADER_LEN \<or> unat block_size < PARITY_MAP_FOOTER_LEN
      then Inl (ParityMapParse ''parity-map block size is smaller than fixed header/footer'')
      else Inr (unat block_size))"

definition validate_locator_counts ::
  "u64 \<Rightarrow> u32 \<Rightarrow> u64 \<Rightarrow> u64 \<Rightarrow> u64 \<Rightarrow> u64 \<Rightarrow> u64 \<Rightarrow> unit parity_result" where
  "validate_locator_counts payload_len block_size copy_block_count total_block_count
     primary_copy_start_block tail_copy_start_block footer_block_index =
     rbind (validate_block_size block_size) (\<lambda>_.
       map_err (\<lambda>_. ParityMapParse ''{error}'')
         (validate_replicated_control_layout (ucast block_size)
           (word_of_nat PARITY_MAP_HEADER_LEN) payload_len copy_block_count total_block_count
           primary_copy_start_block tail_copy_start_block footer_block_index ''parity-map''))"

section \<open>Writing headers and footers\<close>

definition locator_fields :: "'a ParityMapLocator_scheme \<Rightarrow> (nat \<times> bytes) list" where
  "locator_fields l =
     [(0x10, pml_tape_uuid l),
      (0x20, le_bytes 8 (pml_sequence l)),
      (0x28, le_bytes 4 (pml_block_size l)),
      (0x2C, le_bytes 4 (0 :: u32)),
      (0x30, le_bytes 8 (pml_payload_len l)),
      (0x38, pml_payload_sha256 l),
      (0x58, pml_canonical_map_digest l),
      (0x78, le_bytes 8 (pml_scope_tape_file_count l)),
      (0x80, le_bytes 8 (pml_scope_total_data_ordinals l)),
      (0x88, le_bytes 8 (pml_scope_highest_protected_ordinal l)),
      (0x90, [of_bool (pml_is_final_directory l)]),
      (0x98, le_bytes 8 (pml_copy_block_count l)),
      (0xA0, le_bytes 8 (pml_total_block_count l)),
      (0xA8, le_bytes 8 (pml_primary_copy_start_block l)),
      (0xB0, le_bytes 8 (pml_tail_copy_start_block l)),
      (0xB8, le_bytes 8 (pml_footer_block_index l))]"

definition write_crc :: "nat \<Rightarrow> bytes \<Rightarrow> bytes" where
  "write_crc crc_offset block =
     copy_at crc_offset (le_bytes 8 (crc64_xz (take crc_offset block))) block"

definition header_fields :: "ParityMapHeader \<Rightarrow> (nat \<times> bytes) list" where
  "header_fields h =
     [(0x00, pml_magic h),
      (0x08, le_bytes 2 (pmh_schema_version h)),
      (0x0A, le_bytes 2 (ParityMapCopyKind_to_u16 (pmh_copy_kind h))),
      (0x0C, le_bytes 4 (0 :: u32))] @ locator_fields h"

definition footer_fields :: "ParityMapLocator \<Rightarrow> (nat \<times> bytes) list" where
  "footer_fields l =
     [(0x00, pml_magic l),
      (0x08, le_bytes 2 PARITY_MAP_FOOTER_VERSION),
      (0x0A, le_bytes 2 (0 :: u16)),
      (0x0C, le_bytes 4 (0 :: u32))] @ locator_fields l"

definition write_header_fields :: "ParityMapHeader \<Rightarrow> bytes \<Rightarrow> bytes parity_result" where
  "write_header_fields h block =
     (if length block \<noteq> unat (pml_block_size h)
      then Inl (ParityMapParse ''parity-map header output block has wrong length'')
      else Inr (write_crc PARITY_MAP_HEADER_CRC_OFFSET (write_fields (header_fields h) block)))"

record ParityMapLayout =
  layout_block_size :: u32
  layout_payload_len :: u64
  layout_payload_sha256 :: bytes
  layout_copy_block_count :: u64
  layout_total_block_count :: u64
  layout_primary_copy_start_block :: u64
  layout_tail_copy_start_block :: u64
  layout_footer_block_index :: u64

text \<open>The locator fields that \<open>build_header\<close> and \<open>encode_footer_block\<close> take from payload and layout.\<close>

definition layout_locator ::
  "external \<Rightarrow> ParityMapPayload \<Rightarrow> ParityMapLayout \<Rightarrow> ParityMapLocator" where
  "layout_locator x payload layout =
     \<lparr>pml_magic = derive_parity_map_magic x (pmp_tape_uuid payload),
      pml_tape_uuid = pmp_tape_uuid payload,
      pml_sequence = pmp_sequence payload,
      pml_block_size = layout_block_size layout,
      pml_payload_len = layout_payload_len layout,
      pml_payload_sha256 = layout_payload_sha256 layout,
      pml_canonical_map_digest = pmp_canonical_map_digest payload,
      pml_scope_tape_file_count = directory_scope_tape_file_count (pmp_directory payload),
      pml_scope_total_data_ordinals = directory_scope_total_data_ordinals (pmp_directory payload),
      pml_scope_highest_protected_ordinal =
        directory_scope_highest_protected_ordinal (pmp_directory payload),
      pml_is_final_directory = is_final_directory (pmp_directory payload),
      pml_copy_block_count = layout_copy_block_count layout,
      pml_total_block_count = layout_total_block_count layout,
      pml_primary_copy_start_block = layout_primary_copy_start_block layout,
      pml_tail_copy_start_block = layout_tail_copy_start_block layout,
      pml_footer_block_index = layout_footer_block_index layout\<rparr>"

definition validate_layout :: "ParityMapLayout \<Rightarrow> unit parity_result" where
  "validate_layout layout =
     validate_locator_counts (layout_payload_len layout) (layout_block_size layout)
       (layout_copy_block_count layout) (layout_total_block_count layout)
       (layout_primary_copy_start_block layout) (layout_tail_copy_start_block layout)
       (layout_footer_block_index layout)"

definition build_header ::
  "external \<Rightarrow> ParityMapPayload \<Rightarrow> ParityMapCopyKind \<Rightarrow> ParityMapLayout \<Rightarrow>
     ParityMapHeader parity_result" where
  "build_header x payload copy_kind layout =
     rbind (validate_layout layout) (\<lambda>_.
       Inr (ParityMapLocator.extend (layout_locator x payload layout)
         (ParityMapHeader.fields PARITY_MAP_SCHEMA_VERSION copy_kind 0)))"

definition encode_footer_block ::
  "external \<Rightarrow> ParityMapPayload \<Rightarrow> ParityMapLayout \<Rightarrow> bytes parity_result" where
  "encode_footer_block x payload layout =
     rbind (validate_layout layout) (\<lambda>_.
     rbind (validate_block_size (layout_block_size layout)) (\<lambda>block_size.
       Inr (write_crc PARITY_MAP_FOOTER_CRC_OFFSET
         (write_fields (footer_fields (layout_locator x payload layout)) (replicate block_size 0)))))"

definition pack_copy_blocks :: "ParityMapHeader \<Rightarrow> bytes \<Rightarrow> bytes list parity_result" where
  "pack_copy_blocks h payload_bytes =
     rbind (validate_block_size (pml_block_size h)) (\<lambda>block_size.
     case replicate (unat (pml_copy_block_count h)) (replicate block_size 0) of
       [] \<Rightarrow> Inl (Invariant ''index out of bounds'')
     | first # rest \<Rightarrow>
         rbind (write_header_fields h first) (\<lambda>first'.
           write_bytes_at (first' # rest) PARITY_MAP_HEADER_LEN payload_bytes))"

record EncodedParityMapTapeFile =
  encoded_header :: ParityMapHeader
  encoded_payload_bytes :: bytes
  encoded_blocks :: "bytes list"

definition encode_parity_map_tape_file ::
  "external \<Rightarrow> ParityMapPayload \<Rightarrow> u32 \<Rightarrow> EncodedParityMapTapeFile parity_result" where
  "encode_parity_map_tape_file x payload block_size =
     rbind (SidecarEpochDirectory_validate (pmp_directory payload)) (\<lambda>_.
     if directory_scope_tape_file_count (pmp_directory payload) = 0
     then Inl (ParityMapParse ''parity-map directory scope must include at least one tape file'')
     else if directory_scope_total_data_ordinals (pmp_directory payload)
         < directory_scope_highest_protected_ordinal (pmp_directory payload)
     then Inl (ParityMapParse ''parity-map directory total ordinals precede protection watermark'')
     else
     rbind (validate_block_size block_size) (\<lambda>_.
     rbind (encode_parity_map_payload (ext_into_writer x) (ext_rfc3339 x) payload) (\<lambda>payload_bytes.
     rbind (ok_or (ParityMapParse ''parity-map payload length overflows u64'')
       (u64_of_usize (length payload_bytes))) (\<lambda>payload_len.
     rbind (map_err (\<lambda>_. ParityMapParse ''{error}'')
       (checked_replicated_control_layout (ucast block_size) (word_of_nat PARITY_MAP_HEADER_LEN)
         payload_len ''parity-map'')) (\<lambda>shared_layout.
     let layout =
       \<lparr>layout_block_size = block_size, layout_payload_len = payload_len,
        layout_payload_sha256 = ext_sha256 x payload_bytes,
        layout_copy_block_count = rcl_copy_block_count shared_layout,
        layout_total_block_count = rcl_total_block_count shared_layout,
        layout_primary_copy_start_block = rcl_primary_copy_start_block shared_layout,
        layout_tail_copy_start_block = rcl_tail_copy_start_block shared_layout,
        layout_footer_block_index = rcl_footer_block_index shared_layout\<rparr>
     in
     rbind (build_header x payload Primary layout) (\<lambda>primary_header.
     rbind (build_header x payload Tail layout) (\<lambda>tail_header.
     rbind (pack_copy_blocks primary_header payload_bytes) (\<lambda>primary_blocks.
     rbind (pack_copy_blocks tail_header payload_bytes) (\<lambda>tail_blocks.
     rbind (encode_footer_block x payload layout) (\<lambda>footer_block.
       Inr \<lparr>encoded_header = primary_header, encoded_payload_bytes = payload_bytes,
            encoded_blocks = primary_blocks @ tail_blocks @ [footer_block]\<rparr>))))))))))"

section \<open>Parsing headers and footers\<close>

text \<open>The checks and fields from offset \<open>0x10\<close> on. \<open>between\<close> is what the footer parser checks after
  the CRC and before the counts.\<close>

definition parse_locator_fields ::
  "string \<Rightarrow> string \<Rightarrow> nat \<Rightarrow> (bytes \<Rightarrow> unit parity_result) \<Rightarrow> bytes \<Rightarrow> bytes \<Rightarrow> bytes \<Rightarrow>
     (ParityMapLocator \<times> u64) parity_result" where
  "parse_locator_fields what part crc_offset between magic expected_tape_uuid block =
     (let tape_uuid = slice 0x10 16 block
      in if tape_uuid \<noteq> expected_tape_uuid
      then Inl (ParityMapParse (what @ '' tape UUID mismatch''))
      else
      let block_size = read_u32_le block 0x28
      in if read_u32_le block 0x2C \<noteq> 0
      then Inl (ParityMapParse (part @ '' sequence padding is non-zero''))
      else if unat block_size \<noteq> length block
      then Inl (ParityMapParse (what @ '' block_size {block_size} does not match block length {}''))
      else
      rbind (validate_block_size block_size) (\<lambda>_.
      rbind (if block ! 0x90 = 0 then Inr False else if block ! 0x90 = 1 then Inr True
             else Inl (ParityMapParse (what @ '' is_final_directory byte is {value}, expected 0 or 1'')))
      (\<lambda>is_final.
      if list_ex (\<lambda>b. b \<noteq> 0) (slice 0x91 7 block)
      then Inl (ParityMapParse (part @ '' bool padding is non-zero''))
      else
      let stored = read_u64_le block crc_offset
      in if stored \<noteq> crc64_xz (take crc_offset block)
      then Inl (ParityMapParse (part @ '' CRC mismatch: stored 0x{crc64:016x}, computed 0x{computed:016x}''))
      else
      let l =
        \<lparr>pml_magic = magic, pml_tape_uuid = tape_uuid, pml_sequence = read_u64_le block 0x20,
         pml_block_size = block_size, pml_payload_len = read_u64_le block 0x30,
         pml_payload_sha256 = slice 0x38 32 block,
         pml_canonical_map_digest = slice 0x58 32 block,
         pml_scope_tape_file_count = read_u64_le block 0x78,
         pml_scope_total_data_ordinals = read_u64_le block 0x80,
         pml_scope_highest_protected_ordinal = read_u64_le block 0x88,
         pml_is_final_directory = is_final,
         pml_copy_block_count = read_u64_le block 0x98,
         pml_total_block_count = read_u64_le block 0xA0,
         pml_primary_copy_start_block = read_u64_le block 0xA8,
         pml_tail_copy_start_block = read_u64_le block 0xB0,
         pml_footer_block_index = read_u64_le block 0xB8\<rparr>
      in
      rbind (between block) (\<lambda>_.
      rbind (validate_locator_counts (pml_payload_len l) block_size (pml_copy_block_count l)
        (pml_total_block_count l) (pml_primary_copy_start_block l) (pml_tail_copy_start_block l)
        (pml_footer_block_index l)) (\<lambda>_.
      Inr (l, stored))))))"

definition parse_parity_map_header_block ::
  "external \<Rightarrow> bytes \<Rightarrow> bytes \<Rightarrow> ParityMapHeader parity_result" where
  "parse_parity_map_header_block x block0 expected_tape_uuid =
     (if length block0 < PARITY_MAP_HEADER_LEN
      then Inl (ParityMapParse ''parity-map header block too short: got {}, need {PARITY_MAP_HEADER_LEN}'')
      else
      let magic = slice 0x00 8 block0
      in if magic \<noteq> derive_parity_map_magic x expected_tape_uuid
      then Inl (ParityMapParse ''parity-map magic mismatch'')
      else
      let schema_version = read_u16_le block0 0x08
      in if schema_version \<noteq> PARITY_MAP_SCHEMA_VERSION
      then Inl (ParityMapParse ''unsupported parity-map schema version: got {schema_version}, accept {PARITY_MAP_SCHEMA_VERSION}'')
      else
      rbind (ParityMapCopyKind_from_u16 (read_u16_le block0 0x0A)) (\<lambda>copy_kind.
      if read_u32_le block0 0x0C \<noteq> 0
      then Inl (ParityMapParse ''parity-map header reserved field is non-zero'')
      else
      rbind (parse_locator_fields ''parity-map'' ''parity-map header'' PARITY_MAP_HEADER_CRC_OFFSET
        (\<lambda>_. Inr ()) magic expected_tape_uuid block0) (\<lambda>(l, crc).
      Inr (ParityMapLocator.extend l (ParityMapHeader.fields schema_version copy_kind crc)))))"

definition classify_parity_map_header_block ::
  "external \<Rightarrow> bytes \<Rightarrow> bytes \<Rightarrow> ParityMapHeader option parity_result" where
  "classify_parity_map_header_block x block0 expected_tape_uuid =
     (let expected_magic = derive_parity_map_magic x expected_tape_uuid
      in if length block0 < length expected_magic \<or> slice 0 8 block0 \<noteq> expected_magic
      then Inr None
      else rbind (parse_parity_map_header_block x block0 expected_tape_uuid) (\<lambda>h. Inr (Some h)))"

definition parse_parity_map_footer_block ::
  "external \<Rightarrow> bytes \<Rightarrow> bytes \<Rightarrow> ParityMapFooter parity_result" where
  "parse_parity_map_footer_block x footer_block expected_tape_uuid =
     (if length footer_block < PARITY_MAP_FOOTER_LEN
      then Inl (ParityMapParse ''parity-map footer block too short: got {}, need {PARITY_MAP_FOOTER_LEN}'')
      else
      let magic = slice 0x00 8 footer_block
      in if magic \<noteq> derive_parity_map_magic x expected_tape_uuid
      then Inl (ParityMapParse ''parity-map footer magic mismatch'')
      else
      let footer_version = read_u16_le footer_block 0x08
      in if footer_version \<noteq> PARITY_MAP_FOOTER_VERSION
      then Inl (ParityMapParse ''unsupported parity-map footer version: got {footer_version}, accept {PARITY_MAP_FOOTER_VERSION}'')
      else if read_u16_le footer_block 0x0A \<noteq> 0 \<or> read_u32_le footer_block 0x0C \<noteq> 0
      then Inl (ParityMapParse ''parity-map footer reserved fields are non-zero'')
      else
      rbind (parse_locator_fields ''parity-map footer'' ''parity-map footer''
        PARITY_MAP_FOOTER_CRC_OFFSET
        (\<lambda>block. ensure_zero_filled (drop PARITY_MAP_FOOTER_LEN block) ''parity-map footer padding'')
        magic expected_tape_uuid footer_block) (\<lambda>(l, crc).
      Inr (ParityMapLocator.extend l (ParityMapFooter.fields footer_version crc))))"

section \<open>Reading one copy\<close>

definition copy_range :: "'a list \<Rightarrow> nat \<Rightarrow> u64 \<Rightarrow> 'a list parity_result" where
  "copy_range blocks start cnt =
     (if start > length blocks \<or> unat cnt > length blocks - start
      then Inl (ParityMapParse ''parity-map copy range outside tape file'')
      else Inr (slice start (unat cnt) blocks))"

definition read_payload_from_copy ::
  "bytes list \<Rightarrow> nat \<Rightarrow> ParityMapHeader \<Rightarrow> bytes parity_result" where
  "read_payload_from_copy blocks start h =
     rbind (validate_block_size (pml_block_size h)) (\<lambda>block_size.
     rbind (copy_range blocks start (pml_copy_block_count h)) (\<lambda>copy_blocks.
     if list_ex (\<lambda>block. length block \<noteq> block_size) copy_blocks
     then Inl (ParityMapParse ''parity-map copy contains a block with the wrong size'')
     else if length copy_blocks * block_size \<ge> 2 ^ 64
     then Inl (Invariant ''in-memory parity-map copy capacity overflows usize'')
     else
     let copy_capacity = length copy_blocks * block_size
     in if \<not> (PARITY_MAP_HEADER_LEN \<le> copy_capacity \<and>
               unat (pml_payload_len h) \<le> copy_capacity - PARITY_MAP_HEADER_LEN)
     then Inl (ParityMapParse ''parity-map payload exceeds copy blocks'')
     else
     let payload_len = unat (pml_payload_len h);
         payload_end = PARITY_MAP_HEADER_LEN + payload_len
     in
     rbind (read_bytes_loop block_size copy_blocks PARITY_MAP_HEADER_LEN payload_len []) (\<lambda>payload.
     rbind (ensure_zero_tail copy_blocks payload_end copy_capacity block_size) (\<lambda>_.
     Inr payload))))"

definition validate_payload_matches_header ::
  "ParityMapPayload \<Rightarrow> ParityMapHeader \<Rightarrow> unit parity_result" where
  "validate_payload_matches_header payload h =
     (if pmp_tape_uuid payload \<noteq> pml_tape_uuid h
        \<or> pmp_sequence payload \<noteq> pml_sequence h
        \<or> pmp_canonical_map_digest payload \<noteq> pml_canonical_map_digest h
        \<or> directory_scope_tape_file_count (pmp_directory payload) \<noteq> pml_scope_tape_file_count h
        \<or> directory_scope_total_data_ordinals (pmp_directory payload)
             \<noteq> pml_scope_total_data_ordinals h
        \<or> directory_scope_highest_protected_ordinal (pmp_directory payload)
             \<noteq> pml_scope_highest_protected_ordinal h
        \<or> is_final_directory (pmp_directory payload) \<noteq> pml_is_final_directory h
      then Inl (ParityMapParse ''parity-map payload does not match its header'')
      else SidecarEpochDirectory_validate (pmp_directory payload))"

definition decode_copy ::
  "external \<Rightarrow> bytes list \<Rightarrow> nat \<Rightarrow> ParityMapHeader \<Rightarrow> DecodedParityMapTapeFile parity_result" where
  "decode_copy x blocks start h =
     rbind (read_payload_from_copy blocks start h) (\<lambda>payload_bytes.
     if ext_sha256 x payload_bytes \<noteq> pml_payload_sha256 h
     then Inl (ParityMapParse ''parity-map payload sha256 mismatch'')
     else
     rbind (decode_parity_map_payload (ext_into_writer x) (ext_from_reader x) (ext_rfc3339 x)
       payload_bytes) (\<lambda>payload.
     rbind (validate_payload_matches_header payload h) (\<lambda>_.
     Inr \<lparr>decoded_header = h, decoded_payload = payload, decoded_payload_bytes = payload_bytes\<rparr>)))"

definition validate_header_matches_footer ::
  "ParityMapHeader \<Rightarrow> ParityMapFooter \<Rightarrow> unit parity_result" where
  "validate_header_matches_footer h f =
     (if pml_magic h \<noteq> pml_magic f
        \<or> pml_tape_uuid h \<noteq> pml_tape_uuid f
        \<or> pml_sequence h \<noteq> pml_sequence f
        \<or> pml_block_size h \<noteq> pml_block_size f
        \<or> pml_payload_len h \<noteq> pml_payload_len f
        \<or> pml_payload_sha256 h \<noteq> pml_payload_sha256 f
        \<or> pml_canonical_map_digest h \<noteq> pml_canonical_map_digest f
        \<or> pml_scope_tape_file_count h \<noteq> pml_scope_tape_file_count f
        \<or> pml_scope_total_data_ordinals h \<noteq> pml_scope_total_data_ordinals f
        \<or> pml_scope_highest_protected_ordinal h \<noteq> pml_scope_highest_protected_ordinal f
        \<or> pml_is_final_directory h \<noteq> pml_is_final_directory f
        \<or> pml_copy_block_count h \<noteq> pml_copy_block_count f
        \<or> pml_total_block_count h \<noteq> pml_total_block_count f
        \<or> pml_primary_copy_start_block h \<noteq> pml_primary_copy_start_block f
        \<or> pml_tail_copy_start_block h \<noteq> pml_tail_copy_start_block f
        \<or> pml_footer_block_index h \<noteq> pml_footer_block_index f
      then Inl (ParityMapParse ''parity-map header copy does not match footer locator'')
      else Inr ())"

definition parse_copy_at ::
  "external \<Rightarrow> bytes list \<Rightarrow> ParityMapFooter \<Rightarrow> ParityMapCopyKind \<Rightarrow>
     DecodedParityMapTapeFile parity_result" where
  "parse_copy_at x blocks footer expected_kind =
     (let start = unat (case expected_kind of
          Primary \<Rightarrow> pml_primary_copy_start_block footer
        | Tail \<Rightarrow> pml_tail_copy_start_block footer)
      in if \<not> start < length blocks
      then Inl (ParityMapParse ''parity-map copy start lies outside tape file'')
      else
      rbind (parse_parity_map_header_block x (blocks ! start) (pml_tape_uuid footer)) (\<lambda>h.
      if pmh_copy_kind h \<noteq> expected_kind
      then Inl (ParityMapParse ''parity-map copy kind {:?} does not match expected {:?}'')
      else
      rbind (validate_header_matches_footer h footer) (\<lambda>_.
      decode_copy x blocks start h)))"

definition parse_available_copy_at ::
  "external \<Rightarrow> bytes option list \<Rightarrow> nat \<Rightarrow> ParityMapCopyKind \<Rightarrow> bytes \<Rightarrow> u64 \<Rightarrow>
     ParityMapFooter option \<Rightarrow> DecodedParityMapTapeFile parity_result" where
  "parse_available_copy_at x blocks start expected_kind expected_tape_uuid measured_total footer =
     rbind (ok_or (ParityMapParse ''parity-map {expected_kind:?} header unreadable'')
       (if start < length blocks then blocks ! start else None)) (\<lambda>header_block.
     rbind (parse_parity_map_header_block x header_block expected_tape_uuid) (\<lambda>h.
     if pmh_copy_kind h \<noteq> expected_kind
     then Inl (ParityMapParse ''parity-map copy kind {:?} does not match expected {:?}'')
     else if pml_total_block_count h \<noteq> measured_total
     then Inl (ParityMapParse ''parity-map has {measured_total} blocks, {expected_kind:?} header expects {}'')
     else
     rbind (case footer of None \<Rightarrow> Inr () | Some f \<Rightarrow> validate_header_matches_footer h f) (\<lambda>_.
     rbind (copy_range blocks start (pml_copy_block_count h)) (\<lambda>available.
     rbind (try_map (ok_or
         (ParityMapParse ''parity-map {expected_kind:?} payload block {} unreadable'')) available)
       (\<lambda>copy_blocks.
     decode_copy x copy_blocks 0 h)))))"

section \<open>Choosing a copy\<close>

definition parity_map_copies_agree ::
  "DecodedParityMapTapeFile \<Rightarrow> DecodedParityMapTapeFile \<Rightarrow> bool" where
  "parity_map_copies_agree left right \<longleftrightarrow>
     decoded_payload left = decoded_payload right \<and>
     decoded_payload_bytes left = decoded_payload_bytes right \<and>
     (let l = decoded_header left; r = decoded_header right in
       pml_tape_uuid l = pml_tape_uuid r \<and>
       pml_sequence l = pml_sequence r \<and>
       pml_block_size l = pml_block_size r \<and>
       pml_payload_len l = pml_payload_len r \<and>
       pml_payload_sha256 l = pml_payload_sha256 r \<and>
       pml_canonical_map_digest l = pml_canonical_map_digest r \<and>
       pml_scope_tape_file_count l = pml_scope_tape_file_count r \<and>
       pml_scope_total_data_ordinals l = pml_scope_total_data_ordinals r \<and>
       pml_scope_highest_protected_ordinal l = pml_scope_highest_protected_ordinal r \<and>
       pml_is_final_directory l = pml_is_final_directory r \<and>
       pml_copy_block_count l = pml_copy_block_count r \<and>
       pml_total_block_count l = pml_total_block_count r \<and>
       pml_primary_copy_start_block l = pml_primary_copy_start_block r \<and>
       pml_tail_copy_start_block l = pml_tail_copy_start_block r \<and>
       pml_footer_block_index l = pml_footer_block_index r)"

fun select_parity_map_copy ::
  "DecodedParityMapTapeFile parity_result \<Rightarrow> DecodedParityMapTapeFile parity_result \<Rightarrow>
     (DecodedParityMapTapeFile \<times> string option) parity_result" where
  "select_parity_map_copy (Inr p) (Inr t) =
     (if \<not> parity_map_copies_agree p t
      then Inl (ParityMapParse ''parity-map primary and tail copies disagree'')
      else Inr (p, None))"
| "select_parity_map_copy (Inr p) (Inl error) =
     Inr (p, Some ''the tail ParityMap copy is not usable: {error}'')"
| "select_parity_map_copy (Inl error) (Inr t) =
     Inr (t, Some ''the primary ParityMap copy is not usable: {error}'')"
| "select_parity_map_copy (Inl primary_err) (Inl tail_err) =
     Inl (ParityMapParse ''both parity-map metadata copies failed: primary={primary_err}; tail={tail_err}'')"

definition parse_parity_map_tape_file ::
  "external \<Rightarrow> bytes list \<Rightarrow> bytes \<Rightarrow> DecodedParityMapTapeFile parity_result" where
  "parse_parity_map_tape_file x blocks expected_tape_uuid =
     (if blocks = [] then Inl (ParityMapParse ''parity-map tape file is empty'')
      else
      rbind (parse_parity_map_footer_block x (last blocks) expected_tape_uuid) (\<lambda>footer.
      if length blocks \<noteq> unat (pml_total_block_count footer)
      then Inl (ParityMapParse ''parity-map has {} blocks, footer expects {expected_blocks}'')
      else
      rbind (select_parity_map_copy (parse_copy_at x blocks footer Primary)
        (parse_copy_at x blocks footer Tail)) (\<lambda>(decoded, _). Inr decoded)))"

definition parse_parity_map_reporting_unused_copy ::
  "external \<Rightarrow> bytes option list \<Rightarrow> bytes \<Rightarrow>
     (DecodedParityMapTapeFile \<times> string option) parity_result" where
  "parse_parity_map_reporting_unused_copy x blocks expected_tape_uuid =
     rbind (ok_or (ParityMapParse ''parity-map measured block count overflows u64'')
       (u64_of_usize (length blocks))) (\<lambda>measured_total.
     if measured_total < 3 \<or> measured_total mod 2 = 0
     then Inl (ParityMapParse ''parity-map measured block count {measured_total} cannot have layout 2M+1'')
     else
     let measured_copy_block_count = (measured_total - 1) div 2
     in
     rbind (case (if blocks = [] then None else last blocks) of
        Some footer_block \<Rightarrow>
          rbind (parse_parity_map_footer_block x footer_block expected_tape_uuid) (\<lambda>footer.
          if pml_total_block_count footer \<noteq> measured_total
          then Inl (ParityMapParse ''parity-map has {measured_total} blocks, footer expects {}'')
          else Inr (Some footer))
      | None \<Rightarrow> Inr None) (\<lambda>footer.
     select_parity_map_copy
       (parse_available_copy_at x blocks 0 Primary expected_tape_uuid measured_total footer)
       (parse_available_copy_at x blocks (unat measured_copy_block_count) Tail expected_tape_uuid
         measured_total footer)))"

definition parse_parity_map_tape_file_with_unreadable_blocks ::
  "external \<Rightarrow> bytes option list \<Rightarrow> bytes \<Rightarrow> DecodedParityMapTapeFile parity_result" where
  "parse_parity_map_tape_file_with_unreadable_blocks x blocks expected_tape_uuid =
     rbind (parse_parity_map_reporting_unused_copy x blocks expected_tape_uuid)
       (\<lambda>(decoded, _). Inr decoded)"

definition parity_map_damage :: "external \<Rightarrow> bytes option list \<Rightarrow> bytes \<Rightarrow> string list" where
  "parity_map_damage x blocks expected_tape_uuid =
     (if blocks \<noteq> [] \<and> last blocks = None then [''the ParityMap footer is unreadable''] else []) @
     (case parse_parity_map_reporting_unused_copy x blocks expected_tape_uuid of
        Inr (_, None) \<Rightarrow> []
      | Inr (_, Some unused) \<Rightarrow> [unused]
      | Inl (DirectoryInvalid _) \<Rightarrow> [''no ParityMap copy can be used: {error}'']
      | Inl _ \<Rightarrow> [''no ParityMap copy can be used: ParityMapParse: {error}''])"

section \<open>A written header or footer parses back\<close>

definition locator_wf :: "'a ParityMapLocator_scheme \<Rightarrow> bool" where
  "locator_wf l \<longleftrightarrow> length (pml_magic l) = 8 \<and> length (pml_tape_uuid l) = 16 \<and>
     length (pml_payload_sha256 l) = 32 \<and> length (pml_canonical_map_digest l) = 32"

lemma locator_fields_fit: "locator_wf l \<Longrightarrow> fields_fit 0x10 0xC0 (locator_fields l)"
  by (simp add: locator_fields_def locator_wf_def)

lemma validate_block_size_Inr:
  "validate_block_size b = Inr n \<longleftrightarrow> 0xC8 \<le> unat b \<and> n = unat b"
  by (auto simp: validate_block_size_def PARITY_MAP_HEADER_LEN_def PARITY_MAP_FOOTER_LEN_def)

definition validate_locator :: "'a ParityMapLocator_scheme \<Rightarrow> unit parity_result" where
  "validate_locator l =
     validate_locator_counts (pml_payload_len l) (pml_block_size l) (pml_copy_block_count l)
       (pml_total_block_count l) (pml_primary_copy_start_block l) (pml_tail_copy_start_block l)
       (pml_footer_block_index l)"

lemma carries_locator:
  assumes "carries block (locator_fields l)" "locator_wf l"
  shows "slice 0x10 16 block = pml_tape_uuid l" "read_u64_le block 0x20 = pml_sequence l"
    "read_u32_le block 0x28 = pml_block_size l" "read_u32_le block 0x2C = 0"
    "read_u64_le block 0x30 = pml_payload_len l" "slice 0x38 32 block = pml_payload_sha256 l"
    "slice 0x58 32 block = pml_canonical_map_digest l"
    "read_u64_le block 0x78 = pml_scope_tape_file_count l"
    "read_u64_le block 0x80 = pml_scope_total_data_ordinals l"
    "read_u64_le block 0x88 = pml_scope_highest_protected_ordinal l"
    "slice 0x90 1 block = [of_bool (pml_is_final_directory l)]"
    "read_u64_le block 0x98 = pml_copy_block_count l" "read_u64_le block 0xA0 = pml_total_block_count l"
    "read_u64_le block 0xA8 = pml_primary_copy_start_block l"
    "read_u64_le block 0xB0 = pml_tail_copy_start_block l"
    "read_u64_le block 0xB8 = pml_footer_block_index l"
  using assms
  by (simp_all add: carries_def locator_fields_def locator_wf_def read_u64_le_def read_u32_le_def
      le_word_le_bytes_full)

lemma parse_locator_fields_Inr:
  assumes "carries block (locator_fields l)" "locator_wf l"
    and "slice 0x91 7 block = replicate 7 0"
    and "read_u64_le block crc_offset = crc64_xz (take crc_offset block)"
    and "length block = unat (pml_block_size l)" "0xC8 \<le> length block"
    and "between block = Inr ()" "validate_locator l = Inr ()"
  shows "parse_locator_fields what part crc_offset between (pml_magic l) (pml_tape_uuid l) block =
    Inr (ParityMapLocator.truncate l, crc64_xz (take crc_offset block))"
proof -
  note c = carries_locator [OF assms(1,2)]
  have final: "block ! 0x90 = of_bool (pml_is_final_directory l)"
    using c(11) nth_of_slice [of "0x90" 1 block 0] assms(6) by simp
  have size: "validate_block_size (pml_block_size l) = Inr (length block)"
    using assms(5,6) by (simp add: validate_block_size_Inr)
  have pad: "\<not> list_ex (\<lambda>b. b \<noteq> (0 :: u8)) (replicate 7 0)" by (simp add: list_ex_iff)
  show ?thesis
    unfolding parse_locator_fields_def Let_def c assms(3,4) final size
    using assms(5,7,8) pad
    by (cases "pml_is_final_directory l")
      (simp_all add: validate_locator_def ParityMapLocator.truncate_def)
qed


lemma header_fields_fit: "locator_wf h \<Longrightarrow> fields_fit 0 0xC0 (header_fields h)"
  using locator_fields_fit [of h] by (simp add: header_fields_def locator_wf_def)

lemma footer_fields_fit: "locator_wf l \<Longrightarrow> fields_fit 0 0xC0 (footer_fields l)"
  using locator_fields_fit [of l] by (simp add: footer_fields_def locator_wf_def)

text \<open>What a freshly written header or footer block holds.\<close>

lemma written_block:
  fixes n :: nat and fs :: "(nat \<times> bytes) list"
  defines "block \<equiv> write_fields fs (replicate n 0)"
  assumes "fields_fit 0 0xC0 fs" "0xC8 \<le> n"
    and gap: "list_all (\<lambda>(off, bs). 0x98 \<le> off \<or> off + length bs \<le> 0x91) fs"
  shows "length (write_crc 0xC0 block) = n" "carries (write_crc 0xC0 block) fs"
    and "slice 0x91 7 (write_crc 0xC0 block) = replicate 7 0"
    and "read_u64_le (write_crc 0xC0 block) 0xC0 = crc64_xz (take 0xC0 (write_crc 0xC0 block))"
    and "drop 0xC8 (write_crc 0xC0 block) = replicate (n - 0xC8) 0"
proof -
  have len: "length block = n" using assms(2,3) by (simp add: block_def)
  let ?b = "write_crc 0xC0 block"
  have pre: "take 0xC0 ?b = take 0xC0 block"
    using len assms(3) by (simp add: write_crc_def take_copy_after)
  show "length ?b = n" using len assms(3) by (simp add: write_crc_def)
  show "carries ?b fs"
    using carries_prefix [OF carries_write_fields [OF assms(2), of "replicate n 0"] assms(2), of ?b]
      pre assms(3) by (simp add: block_def)
  have "slice 0x91 7 block = replicate 7 0"
    using slice_write_fields_gap [OF assms(2), of "replicate n 0" "0x91" 7] gap assms(3)
    by (simp add: block_def)
  then show "slice 0x91 7 ?b = replicate 7 0"
    using len assms(3) by (simp add: write_crc_def slice_copy_other)
  show "read_u64_le ?b 0xC0 = crc64_xz (take 0xC0 ?b)"
    unfolding pre using len assms(3)
    by (simp add: read_u64_le_def write_crc_def slice_copy_same le_word_le_bytes_full)
  have "drop 0xC8 block = slice 0xC8 (n - 0xC8) block" using len by (simp add: slice_def)
  also have "\<dots> = replicate (n - 0xC8) 0"
    using slice_write_fields_outside [OF assms(2), of "replicate n 0" "0xC8" "n - 0xC8"] assms(3)
    by (simp add: block_def)
  finally show "drop 0xC8 ?b = replicate (n - 0xC8) 0"
    using len assms(3) by (simp add: write_crc_def drop_copy_before)
qed

lemma locator_gap:
  "locator_wf l \<Longrightarrow> list_all (\<lambda>(off, bs). 0x98 \<le> off \<or> off + length bs \<le> 0x91) (locator_fields l)"
  by (simp add: locator_fields_def locator_wf_def)

lemmas locator_codec = PARITY_MAP_HEADER_LEN_def PARITY_MAP_FOOTER_LEN_def
  PARITY_MAP_HEADER_CRC_OFFSET_def PARITY_MAP_FOOTER_CRC_OFFSET_def

lemma extend_truncate_header:
  "ParityMapLocator.extend (ParityMapLocator.truncate h)
     (ParityMapHeader.fields (pmh_schema_version h) (pmh_copy_kind h) crc) =
   h\<lparr>pmh_header_crc64 := crc\<rparr>" for h :: ParityMapHeader
  by (cases h) (simp add: ParityMapLocator.extend_def ParityMapLocator.truncate_def
      ParityMapHeader.fields_def)

lemma copy_kind_roundtrip [simp]:
  "ParityMapCopyKind_from_u16 (ParityMapCopyKind_to_u16 k) = Inr k"
  by (cases k) (simp_all add: ParityMapCopyKind_from_u16_def)

lemma parse_header_carries:
  assumes "carries block (header_fields h)" "locator_wf h"
    and "slice 0x91 7 block = replicate 7 0"
    and "read_u64_le block 0xC0 = crc64_xz (take 0xC0 block)"
    and "length block = unat (pml_block_size h)" "0xC8 \<le> length block"
    and "validate_locator h = Inr ()" "pmh_schema_version h = PARITY_MAP_SCHEMA_VERSION"
    and "pml_magic h = derive_parity_map_magic x (pml_tape_uuid h)"
  shows "parse_parity_map_header_block x block (pml_tape_uuid h) =
    Inr (h\<lparr>pmh_header_crc64 := crc64_xz (take 0xC0 block)\<rparr>)"
proof -
  have c: "carries block (locator_fields h)" "slice 0 8 block = pml_magic h"
    "read_u16_le block 0x08 = pmh_schema_version h"
    "read_u16_le block 0x0A = ParityMapCopyKind_to_u16 (pmh_copy_kind h)" "read_u32_le block 0x0C = 0"
    using assms(1,2)
    by (simp_all add: carries_def header_fields_def locator_wf_def read_u16_le_def read_u32_le_def
        le_word_le_bytes_full)
  have "parse_locator_fields what part 0xC0 (\<lambda>_. Inr ()) (pml_magic h) (pml_tape_uuid h) block =
      Inr (ParityMapLocator.truncate h, crc64_xz (take 0xC0 block))" for what part
    using parse_locator_fields_Inr [OF c(1) assms(2-6) _ assms(7)] by simp
  then show ?thesis
    using c(2-5) assms(6,8,9) extend_truncate_header [of h]
    by (simp add: parse_parity_map_header_block_def locator_codec)
qed

lemma parse_footer_carries:
  assumes "carries block (footer_fields l)" "locator_wf l"
    and "slice 0x91 7 block = replicate 7 0"
    and "read_u64_le block 0xC0 = crc64_xz (take 0xC0 block)"
    and "length block = unat (pml_block_size l)" "0xC8 \<le> length block"
    and "validate_locator l = Inr ()"
    and "pml_magic l = derive_parity_map_magic x (pml_tape_uuid l)"
    and "list_all (\<lambda>b. b = 0) (drop 0xC8 block)"
  shows "\<exists>f. parse_parity_map_footer_block x block (pml_tape_uuid l) = Inr f \<and>
    ParityMapLocator.truncate f = l"
proof -
  have c: "carries block (locator_fields l)" "slice 0 8 block = pml_magic l"
    "read_u16_le block 0x08 = PARITY_MAP_FOOTER_VERSION"
    "read_u16_le block 0x0A = 0" "read_u32_le block 0x0C = 0"
    using assms(1,2)
    by (simp_all add: carries_def footer_fields_def locator_wf_def read_u16_le_def read_u32_le_def
        le_word_le_bytes_full)
  have "parse_locator_fields what part 0xC0
      (\<lambda>b. ensure_zero_filled (drop 0xC8 b) label) (pml_magic l) (pml_tape_uuid l) block =
      Inr (ParityMapLocator.truncate l, crc64_xz (take 0xC0 block))" for what part label
    using parse_locator_fields_Inr [OF c(1) assms(2-6) _ assms(7)] assms(9) by simp
  then show ?thesis
    using c(2-5) assms(6,8)
    by (cases l) (simp add: parse_parity_map_footer_block_def locator_codec
        ParityMapLocator.extend_def ParityMapLocator.truncate_def ParityMapFooter.fields_def)
qed

section \<open>A packed copy\<close>

lemma take_concat_first: "n \<le> length first \<Longrightarrow> take n (concat (first # rest)) = take n first"
  by simp

lemma take_hd_concat:
  "uniform b blocks \<Longrightarrow> blocks \<noteq> [] \<Longrightarrow> n \<le> b \<Longrightarrow> take n (blocks ! 0) = take n (concat blocks)"
  by (cases blocks) (auto simp: uniform_def)

lemma pack_copy_blocks_Inr:
  fixes h :: ParityMapHeader
  defines "b \<equiv> unat (pml_block_size h)" and "M \<equiv> unat (pml_copy_block_count h)"
  assumes "locator_wf h" "0xC8 \<le> b" "0xC8 + length bs \<le> M * b"
  shows "\<exists>copy. pack_copy_blocks h bs = Inr copy \<and> uniform b copy \<and> length copy = M \<and>
    slice 0xC8 (length bs) (concat copy) = bs \<and>
    list_all (\<lambda>x. x = 0) (drop (0xC8 + length bs) (concat copy)) \<and>
    carries (copy ! 0) (header_fields h) \<and> slice 0x91 7 (copy ! 0) = replicate 7 0 \<and>
    read_u64_le (copy ! 0) 0xC0 = crc64_xz (take 0xC0 (copy ! 0))"
proof -
  let ?first = "write_crc 0xC0 (write_fields (header_fields h) (replicate b 0))"
  have "M \<noteq> 0" using assms(5) by (intro notI) simp
  then obtain m where m: "M = Suc m" by (cases M) auto
  let ?blocks = "?first # replicate m (replicate b 0)"
  have gap: "list_all (\<lambda>(off, bs). 0x98 \<le> off \<or> off + length bs \<le> 0x91) (header_fields h)"
    using locator_gap [OF assms(3)] assms(3) by (simp add: header_fields_def locator_wf_def)
  note w = written_block [OF header_fields_fit [OF assms(3)] assms(4) gap]
  have u: "uniform b ?blocks" using w(1) assms(4) by (simp add: uniform_def list_all_iff)
  have pack: "pack_copy_blocks h bs = write_bytes_loop b ?blocks 0xC8 bs"
    using assms(4) w(1) m write_bytes_at_uniform [OF u, of "0xC8" bs]
    by (simp add: pack_copy_blocks_def write_header_fields_def validate_block_size_def b_def M_def
        locator_codec)
  obtain copy where c: "pack_copy_blocks h bs = Inr copy" "uniform b copy" "length copy = M"
    "concat copy = copy_at 0xC8 bs (concat ?blocks)"
    using write_bytes_loop_flat [OF u, of "0xC8" bs] assms(5) m pack by auto
  have flat: "0xC8 + length bs \<le> length (concat ?blocks)"
    using assms(5) m length_concat_uniform [OF u] by simp
  have "drop (0xC8 + length bs) (concat copy) = drop (0xC8 + length bs) (concat ?blocks)"
    unfolding c(4) using flat by (simp only: drop_copy_before)
  moreover have "drop (0xC8 + length bs) (concat ?blocks) =
      drop (length bs) (drop 0xC8 ?first @ concat (replicate m (replicate b 0)))"
    using w(1) assms(4) by (simp add: add.commute)
  moreover have "list_all (\<lambda>x. x = 0)
      (drop (length bs) (drop 0xC8 ?first @ concat (replicate m (replicate b (0 :: u8)))))"
    unfolding w(5) by (auto simp: list_all_iff dest!: in_set_dropD)
  ultimately have zero: "list_all (\<lambda>x. x = 0) (drop (0xC8 + length bs) (concat copy))" by simp
  have "take 0xC8 (copy ! 0) = take 0xC8 (concat copy)"
    using c(3) m by (intro take_hd_concat [OF c(2) _ assms(4)]) auto
  also have "\<dots> = take 0xC8 (concat ?blocks)"
    unfolding c(4) using flat by (intro take_copy_after) simp_all
  also have "\<dots> = take 0xC8 ?first" using w(1) assms(4) by simp
  finally have pre: "take 0xC8 (copy ! 0) = take 0xC8 ?first" .
  have pre': "take n (copy ! 0) = take n ?first" if "n \<le> 0xC8" for n
    using arg_cong [OF pre, of "take n"] that by (simp add: min_def)
  have sl: "slice off n (copy ! 0) = slice off n ?first" if "off + n \<le> 0xC8" for off n
    using arg_cong [OF pre, of "slice off n"] that by (simp add: slice_take)
  show ?thesis
    using c(1-3) zero flat w(2-4) pre' sl carries_prefix [OF w(2) header_fields_fit [OF assms(3)], of "copy ! 0"]
    by (simp add: c(4) slice_copy_same read_u64_le_def)
qed

lemma read_payload_Inr:
  assumes "copy_range blocks start (pml_copy_block_count h) = Inr copy"
    and "uniform (unat (pml_block_size h)) copy" "0xC8 \<le> unat (pml_block_size h)"
    and "slice 0xC8 (length bs) (concat copy) = bs"
    and "list_all (\<lambda>x. x = 0) (drop (0xC8 + length bs) (concat copy))"
    and "unat (pml_payload_len h) = length bs"
    and "0xC8 + length bs \<le> length (concat copy)" "length (concat copy) < 2 ^ 64"
  shows "read_payload_from_copy blocks start h = Inr bs"
proof -
  let ?b = "unat (pml_block_size h)"
  have cap: "length (concat copy) = length copy * ?b" using length_concat_uniform [OF assms(2)] .
  have "read_bytes_loop ?b copy 0xC8 (length bs) [] = Inr bs"
    using read_bytes_loop_flat [OF assms(2), of "0xC8" "length bs" "[]"] assms(4,7) cap by simp
  moreover have "ensure_zero_tail copy (0xC8 + length bs) (length copy * ?b) ?b = Inr ()"
    using ensure_zero_loop_flat [OF assms(2) refl, of "0xC8 + length bs"] assms(5)
    by (simp add: ensure_zero_tail_def)
  moreover have "\<not> list_ex (\<lambda>block. length block \<noteq> ?b) copy"
    using assms(2) by (auto simp: uniform_def list_all_iff list_ex_iff)
  moreover have "validate_block_size (pml_block_size h) = Inr ?b"
    using assms(3) by (simp add: validate_block_size_Inr)
  ultimately show ?thesis
    unfolding read_payload_from_copy_def using assms(1,6-8) cap
    by (simp add: locator_codec Let_def not_le)
qed

section \<open>The encoded tape file\<close>

definition tape_file_header ::
  "external \<Rightarrow> ParityMapPayload \<Rightarrow> ParityMapCopyKind \<Rightarrow> ParityMapLayout \<Rightarrow> ParityMapHeader" where
  "tape_file_header x p k layout =
     ParityMapLocator.extend (layout_locator x p layout)
       (ParityMapHeader.fields PARITY_MAP_SCHEMA_VERSION k 0)"

definition layout_fits :: "ParityMapLayout \<Rightarrow> bytes \<Rightarrow> bool" where
  "layout_fits layout bs \<longleftrightarrow>
     validate_layout layout = Inr () \<and> 0xC8 \<le> unat (layout_block_size layout) \<and>
     unat (layout_payload_len layout) = length bs \<and>
     0xC8 + length bs \<le> unat (layout_copy_block_count layout) * unat (layout_block_size layout) \<and>
     layout_primary_copy_start_block layout = 0 \<and>
     layout_tail_copy_start_block layout = layout_copy_block_count layout \<and>
     unat (layout_total_block_count layout) = 2 * unat (layout_copy_block_count layout) + 1"

lemma build_header_Inr:
  "build_header x p k layout = Inr h \<longleftrightarrow>
    validate_layout layout = Inr () \<and> h = tape_file_header x p k layout"
  by (auto simp: build_header_def tape_file_header_def)

lemma validate_shared_layout:
  "checked_replicated_control_layout b h p s = Inr l \<Longrightarrow>
   validate_replicated_control_layout b h p (rcl_copy_block_count l) (rcl_total_block_count l)
     (rcl_primary_copy_start_block l) (rcl_tail_copy_start_block l) (rcl_footer_block_index l) s = Inr ()"
  by (simp add: validate_replicated_control_layout_def)

lemma encode_tape_file_Inr:
  assumes "encode_parity_map_tape_file x p b = Inr tf"
  obtains layout prim tail foot bs where
    "SidecarEpochDirectory_validate (pmp_directory p) = Inr ()"
    "encode_parity_map_payload (ext_into_writer x) (ext_rfc3339 x) p = Inr bs"
    "layout_block_size layout = b" "layout_payload_sha256 layout = ext_sha256 x bs"
    "layout_fits layout bs"
    "pack_copy_blocks (tape_file_header x p Primary layout) bs = Inr prim"
    "pack_copy_blocks (tape_file_header x p Tail layout) bs = Inr tail"
    "encode_footer_block x p layout = Inr foot"
    "tf = \<lparr>encoded_header = tape_file_header x p Primary layout, encoded_payload_bytes = bs,
      encoded_blocks = prim @ tail @ [foot]\<rparr>"
proof -
  from assms obtain bs len shared layout prim tail foot n where e:
    "SidecarEpochDirectory_validate (pmp_directory p) = Inr ()"
    "encode_parity_map_payload (ext_into_writer x) (ext_rfc3339 x) p = Inr bs"
    "validate_block_size b = Inr n" "u64_of_usize (length bs) = Some len"
    "checked_replicated_control_layout (ucast b) (word_of_nat PARITY_MAP_HEADER_LEN) len ''parity-map''
      = Inr shared"
    "layout = \<lparr>layout_block_size = b, layout_payload_len = len, layout_payload_sha256 = ext_sha256 x bs,
        layout_copy_block_count = rcl_copy_block_count shared,
        layout_total_block_count = rcl_total_block_count shared,
        layout_primary_copy_start_block = rcl_primary_copy_start_block shared,
        layout_tail_copy_start_block = rcl_tail_copy_start_block shared,
        layout_footer_block_index = rcl_footer_block_index shared\<rparr>"
    "validate_layout layout = Inr ()"
    "pack_copy_blocks (tape_file_header x p Primary layout) bs = Inr prim"
    "pack_copy_blocks (tape_file_header x p Tail layout) bs = Inr tail"
    "encode_footer_block x p layout = Inr foot"
    "tf = \<lparr>encoded_header = tape_file_header x p Primary layout, encoded_payload_bytes = bs,
      encoded_blocks = prim @ tail @ [foot]\<rparr>"
    unfolding encode_parity_map_tape_file_def Let_def
    by (auto simp: build_header_Inr guard_Inr)
  have h: "unat (word_of_nat PARITY_MAP_HEADER_LEN :: u64) = 0xC8"
    "unat (ucast b :: u64) = unat b"
    by (simp_all add: PARITY_MAP_HEADER_LEN_def)
  have len: "unat len = length bs" using e(4) by (auto simp: u64_of_usize_def unat_word_of_nat split: if_splits)
  have "layout_fits layout bs"
    using e(5)[unfolded replicated_layout_Inr h] e(3,7) len
      copy_blocks_capacity(1) [of "unat b" "0xC8" "length bs"]
    by (simp add: layout_fits_def e(6) validate_block_size_Inr)
  then show thesis using e(1,2,6,8-11) by (intro that) simp_all
qed

lemma tape_file_header_simps [simp]:
  "ParityMapLocator.truncate (tape_file_header x p k layout) = layout_locator x p layout"
  "pmh_schema_version (tape_file_header x p k layout) = PARITY_MAP_SCHEMA_VERSION"
  "pmh_copy_kind (tape_file_header x p k layout) = k"
  "pml_magic (tape_file_header x p k layout) = derive_parity_map_magic x (pmp_tape_uuid p)"
  "pml_tape_uuid (tape_file_header x p k layout) = pmp_tape_uuid p"
  "pml_block_size (tape_file_header x p k layout) = layout_block_size layout"
  "pml_payload_len (tape_file_header x p k layout) = layout_payload_len layout"
  "pml_payload_sha256 (tape_file_header x p k layout) = layout_payload_sha256 layout"
  "pml_copy_block_count (tape_file_header x p k layout) = layout_copy_block_count layout"
  "pml_total_block_count (tape_file_header x p k layout) = layout_total_block_count layout"
  by (simp_all add: tape_file_header_def layout_locator_def ParityMapLocator.extend_def
      ParityMapLocator.truncate_def ParityMapHeader.fields_def)

lemma truncate_header_crc [simp]:
  "ParityMapLocator.truncate (h\<lparr>pmh_header_crc64 := c\<rparr>) = ParityMapLocator.truncate h"
  for h :: ParityMapHeader
  by (simp add: ParityMapLocator.truncate_def)

lemma validate_locator_layout:
  "validate_locator (tape_file_header x p k layout) = validate_layout layout"
  "validate_locator (layout_locator x p layout) = validate_layout layout"
  by (simp_all add: validate_locator_def validate_layout_def tape_file_header_def layout_locator_def
      ParityMapLocator.extend_def ParityMapHeader.fields_def)

lemma layout_locator_wf:
  assumes "external_ok x" "payload_wf p" "layout_payload_sha256 layout = ext_sha256 x bs"
  shows "locator_wf (layout_locator x p layout)" "locator_wf (tape_file_header x p k layout)"
  using assms
  by (simp_all add: locator_wf_def tape_file_header_def layout_locator_def external_ok_def
      payload_wf_def derive_parity_map_magic_def ParityMapLocator.extend_def ParityMapHeader.fields_def)

lemma validate_payload_matches_written:
  assumes "SidecarEpochDirectory_validate (pmp_directory p) = Inr ()"
  shows "validate_payload_matches_header p ((tape_file_header x p k layout)\<lparr>pmh_header_crc64 := c\<rparr>) = Inr ()"
  using assms
  by (simp add: validate_payload_matches_header_def tape_file_header_def layout_locator_def
      ParityMapLocator.extend_def ParityMapHeader.fields_def)

lemma header_matches_footer_iff:
  "validate_header_matches_footer h f = Inr () \<longleftrightarrow>
    ParityMapLocator.truncate h = ParityMapLocator.truncate f"
  by (auto simp: validate_header_matches_footer_def ParityMapLocator.truncate_def)

lemma copies_agree_truncate:
  "decoded_payload l = decoded_payload r \<Longrightarrow> decoded_payload_bytes l = decoded_payload_bytes r \<Longrightarrow>
   ParityMapLocator.truncate (decoded_header l) = ParityMapLocator.truncate (decoded_header r) \<Longrightarrow>
   parity_map_copies_agree l r"
  by (auto simp: parity_map_copies_agree_def ParityMapLocator.truncate_def Let_def)

text \<open>A copy as packed, its header with the CRC in place, and what it decodes to.\<close>

definition copy_of ::
  "external \<Rightarrow> ParityMapPayload \<Rightarrow> bytes \<Rightarrow> ParityMapLayout \<Rightarrow> ParityMapCopyKind \<Rightarrow> bytes list \<Rightarrow>
     ParityMapHeader \<Rightarrow> bool" where
  "copy_of x p bs layout k copy h \<longleftrightarrow>
     length copy = unat (layout_copy_block_count layout) \<and> copy \<noteq> [] \<and>
     pmh_copy_kind h = k \<and> ParityMapLocator.truncate h = layout_locator x p layout \<and>
     pml_copy_block_count h = layout_copy_block_count layout \<and>
     pml_total_block_count h = layout_total_block_count layout \<and>
     parse_parity_map_header_block x (copy ! 0) (pmp_tape_uuid p) = Inr h \<and>
     (\<forall>blocks start. copy_range blocks start (layout_copy_block_count layout) = Inr copy \<longrightarrow>
        decode_copy x blocks start h =
          Inr \<lparr>decoded_header = h, decoded_payload = p, decoded_payload_bytes = bs\<rparr>)"

lemma packed_copy:
  assumes "external_ok x" "payload_wf p" "SidecarEpochDirectory_validate (pmp_directory p) = Inr ()"
    and "encode_parity_map_payload (ext_into_writer x) (ext_rfc3339 x) p = Inr bs"
    and "layout_payload_sha256 layout = ext_sha256 x bs" "layout_fits layout bs"
    and "pack_copy_blocks (tape_file_header x p k layout) bs = Inr copy"
    and "length (concat copy) < 2 ^ 64"
  shows "\<exists>h. copy_of x p bs layout k copy h"
proof -
  let ?h = "tape_file_header x p k layout"
  define h where "h = ?h\<lparr>pmh_header_crc64 := crc64_xz (take 0xC0 (copy ! 0))\<rparr>"
  have fit: "validate_layout layout = Inr ()" "0xC8 \<le> unat (layout_block_size layout)"
    "unat (layout_payload_len layout) = length bs"
    "0xC8 + length bs \<le> unat (layout_copy_block_count layout) * unat (layout_block_size layout)"
    using assms(6) by (simp_all add: layout_fits_def)
  note wf = layout_locator_wf(2) [OF assms(1,2,5), of k]
  obtain packed where "pack_copy_blocks ?h bs = Inr packed" and
    c: "uniform (unat (layout_block_size layout)) packed"
      "length packed = unat (layout_copy_block_count layout)"
      "slice 0xC8 (length bs) (concat packed) = bs"
      "list_all (\<lambda>x. x = 0) (drop (0xC8 + length bs) (concat packed))"
      "carries (packed ! 0) (header_fields ?h)" "slice 0x91 7 (packed ! 0) = replicate 7 0"
      "read_u64_le (packed ! 0) 0xC0 = crc64_xz (take 0xC0 (packed ! 0))"
    using pack_copy_blocks_Inr [OF wf, of bs] fit(2,4) by auto
  then have "packed = copy" using assms(7) by simp
  note c = c [unfolded this]
  have ne: "copy \<noteq> []" using c(2) fit(4) by auto
  have len: "length (copy ! 0) = unat (layout_block_size layout)"
    using uniform_nth [OF c(1)] ne by simp
  have "parse_parity_map_header_block x (copy ! 0) (pmp_tape_uuid p) = Inr h"
    using parse_header_carries [OF c(5) wf c(6,7)] len fit(1,2)
    by (simp add: validate_locator_layout h_def)
  moreover have "decode_copy x blocks start h =
      Inr \<lparr>decoded_header = h, decoded_payload = p, decoded_payload_bytes = bs\<rparr>"
    if "copy_range blocks start (layout_copy_block_count layout) = Inr copy" for blocks start
  proof -
    have "read_payload_from_copy blocks start h = Inr bs"
      using read_payload_Inr [of blocks start h copy bs] that c(1-4) fit assms(8)
      by (simp add: h_def length_concat_uniform [OF c(1)])
    moreover have "decode_parity_map_payload (ext_into_writer x) (ext_from_reader x) (ext_rfc3339 x) bs = Inr p"
      using decode_encode_payload(1) [OF _ _ assms(2,4)] assms(1) by (simp add: external_ok_def)
    ultimately show ?thesis
      using validate_payload_matches_written [OF assms(3), of _ x k layout] assms(5)
      by (simp add: decode_copy_def h_def)
  qed
  ultimately have "copy_of x p bs layout k copy h"
    using c(2) ne by (simp add: copy_of_def h_def)
  then show ?thesis ..
qed

lemma encoded_footer_parses:
  assumes "external_ok x" "payload_wf p" "layout_payload_sha256 layout = ext_sha256 x bs"
    and "layout_fits layout bs" "encode_footer_block x p layout = Inr foot"
  shows "\<exists>f. parse_parity_map_footer_block x foot (pmp_tape_uuid p) = Inr f \<and>
    ParityMapLocator.truncate f = layout_locator x p layout"
proof -
  let ?l = "layout_locator x p layout"
  have sel: "pml_tape_uuid ?l = pmp_tape_uuid p" "pml_block_size ?l = layout_block_size layout"
    "pml_magic ?l = derive_parity_map_magic x (pmp_tape_uuid p)"
    by (simp_all add: layout_locator_def)
  have fit: "validate_layout layout = Inr ()" "0xC8 \<le> unat (layout_block_size layout)"
    using assms(4) by (simp_all add: layout_fits_def)
  note wf = layout_locator_wf(1) [OF assms(1-3)]
  have gap: "list_all (\<lambda>(off, bs). 0x98 \<le> off \<or> off + length bs \<le> 0x91) (footer_fields ?l)"
    using locator_gap [OF wf] wf by (simp add: footer_fields_def locator_wf_def)
  note w = written_block [OF footer_fields_fit [OF wf] fit(2) gap]
  have foot: "foot = write_crc 0xC0 (write_fields (footer_fields ?l)
      (replicate (unat (layout_block_size layout)) 0))"
    using assms(5) fit by (auto simp: encode_footer_block_def validate_block_size_Inr locator_codec)
  show ?thesis
    using parse_footer_carries [OF w(2) wf w(3,4)] w(1,5) fit sel
    by (simp add: foot validate_locator_layout list_all_iff)
qed

section \<open>Losing blocks\<close>

text \<open>What a drive returns for a file: each block as written, or nothing.\<close>

definition read_of :: "bytes option list \<Rightarrow> bytes list \<Rightarrow> bool" where
  "read_of = list_all2 (\<lambda>r block. r = None \<or> r = Some block)"

lemma try_map_read_of:
  "read_of rs blocks \<Longrightarrow> try_map (ok_or e) rs = (if None \<in> set rs then Inl e else Inr blocks)"
  unfolding read_of_def by (induction rule: list_all2_induct) (auto simp: ok_or_def)

lemma copy_range_middle:
  "length ys = unat n \<Longrightarrow> copy_range (xs @ ys @ zs) (length xs) n = Inr ys"
  by (simp add: copy_range_def slice_def)

lemma parse_available_copy:
  fixes pre post :: "bytes option list"
  assumes "copy_of x p bs layout k copy h" "read_of rs copy"
    and "footer = None \<or> (\<exists>f. footer = Some f \<and> ParityMapLocator.truncate f = layout_locator x p layout)"
  defines "r \<equiv> parse_available_copy_at x (pre @ rs @ post) (length pre) k (pmp_tape_uuid p)
    (layout_total_block_count layout) footer"
  shows "None \<notin> set rs \<Longrightarrow> r = Inr \<lparr>decoded_header = h, decoded_payload = p, decoded_payload_bytes = bs\<rparr>"
    and "None \<in> set rs \<Longrightarrow> \<exists>e. r = Inl e"
proof -
  note c = assms(1) [unfolded copy_of_def]
  have len: "length rs = unat (layout_copy_block_count layout)"
    using assms(2) c by (simp add: read_of_def list_all2_lengthD)
  have ne: "copy \<noteq> []" "rs \<noteq> []" using c len by auto
  have first: "(pre @ rs @ post) ! length pre = rs ! 0" "length pre < length (pre @ rs @ post)"
    using ne by (simp_all add: nth_append)
  have rs0: "rs ! 0 = None \<or> rs ! 0 = Some (copy ! 0)"
    using list_all2_nthD [OF assms(2) [unfolded read_of_def], of 0] ne by simp
  have foot: "(case footer of None \<Rightarrow> Inr () | Some f \<Rightarrow> validate_header_matches_footer h f) = Inr ()"
    using assms(3) c by (auto simp: header_matches_footer_iff)
  note step = r_def [unfolded parse_available_copy_at_def first(1)]
  have whole: "copy_range copy 0 (layout_copy_block_count layout) = Inr copy"
    using copy_range_middle [of copy _ "[]" "[]"] c by simp
  {
    assume all: "None \<notin> set rs"
    then have "rs ! 0 = Some (copy ! 0)" using rs0 ne(2) by (metis length_greater_0_conv nth_mem)
    then show "r = Inr \<lparr>decoded_header = h, decoded_payload = p, decoded_payload_bytes = bs\<rparr>"
      using c first(2) foot copy_range_middle [OF len] all whole
      by (simp add: step try_map_read_of [OF assms(2)])
  }
  {
    assume lost: "None \<in> set rs"
    show "\<exists>e. r = Inl e"
      using rs0 c first(2) foot copy_range_middle [OF len] lost
      by (auto simp: step try_map_read_of [OF assms(2)])
  }
qed

lemma parse_copy_at_copy:
  assumes "copy_of x p bs layout k copy h" "ParityMapLocator.truncate f = layout_locator x p layout"
    and "unat (case k of Primary \<Rightarrow> pml_primary_copy_start_block f | Tail \<Rightarrow> pml_tail_copy_start_block f)
      = length pre"
  shows "parse_copy_at x (pre @ copy @ post) f k =
    Inr \<lparr>decoded_header = h, decoded_payload = p, decoded_payload_bytes = bs\<rparr>"
proof -
  note c = assms(1) [unfolded copy_of_def]
  have "pml_tape_uuid f = pmp_tape_uuid p"
    using assms(2) by (auto simp: ParityMapLocator.truncate_def layout_locator_def)
  moreover have "(pre @ copy @ post) ! length pre = copy ! 0"
    using c by (cases copy) simp_all
  moreover have "decode_copy x (pre @ copy @ post) (length pre) h =
      Inr \<lparr>decoded_header = h, decoded_payload = p, decoded_payload_bytes = bs\<rparr>"
    using c copy_range_middle [of copy _ pre post] by blast
  moreover have "length pre < length (pre @ copy @ post)" using c by (cases copy) simp_all
  ultimately show ?thesis
    using c assms(2) unfolding parse_copy_at_def assms(3) Let_def
    by (simp del: length_append add: header_matches_footer_iff)
qed

lemma measured_layout:
  "unat T = 2 * M + 1 \<Longrightarrow> 0 < M \<Longrightarrow> \<not> (T < 3 \<or> T mod 2 = 0) \<and> unat ((T - 1) div 2) = M"
  for T :: u64
proof -
  assume T: "unat T = 2 * M + 1" "0 < M"
  then have "unat (T mod 2) = 1" "unat (T - 1) = 2 * M"
    by (simp_all add: unat_mod unat_minus_one word_unat_eq_iff mod_Suc)
  moreover from this have "T mod 2 \<noteq> 0" by (intro notI) simp
  ultimately show ?thesis using T by (simp add: word_less_nat_alt unat_div)
qed

lemma read_of_split:
  assumes "read_of rs (prim @ tail @ [foot])"
  obtains rp rt rf where "rs = rp @ rt @ [rf]" "read_of rp prim" "read_of rt tail"
    "rf = None \<or> rf = Some foot"
  using assms unfolding read_of_def
  by (auto simp: list_all2_append2 list_all2_Cons2)

text \<open>The reader on a file read back with losses: which outcome each pattern of losses has.\<close>

lemma reporting_unused_copy:
  assumes "external_ok x" "payload_wf p" "encode_parity_map_tape_file x p b = Inr tf"
    and "length (concat (encoded_blocks tf)) < 2 ^ 64" "read_of rs (encoded_blocks tf)"
  defines "M \<equiv> unat (pml_copy_block_count (encoded_header tf))"
    and "r \<equiv> parse_parity_map_reporting_unused_copy x rs (pmp_tape_uuid p)"
  obtains h ht where "length rs = 2 * M + 1" "0 < M"
    "None \<notin> set (slice 0 M rs) \<Longrightarrow> r = Inr (\<lparr>decoded_header = h, decoded_payload = p,
       decoded_payload_bytes = encoded_payload_bytes tf\<rparr>,
       if None \<in> set (slice M M rs) then Some ''the tail ParityMap copy is not usable: {error}'' else None)"
    "None \<in> set (slice 0 M rs) \<Longrightarrow> None \<notin> set (slice M M rs) \<Longrightarrow>
      r = Inr (\<lparr>decoded_header = ht, decoded_payload = p,
       decoded_payload_bytes = encoded_payload_bytes tf\<rparr>,
       Some ''the primary ParityMap copy is not usable: {error}'')"
    "None \<in> set (slice 0 M rs) \<Longrightarrow> None \<in> set (slice M M rs) \<Longrightarrow> \<exists>e. r = Inl (ParityMapParse e)"
proof -
  obtain layout prim tail foot bs where e:
    "SidecarEpochDirectory_validate (pmp_directory p) = Inr ()"
    "encode_parity_map_payload (ext_into_writer x) (ext_rfc3339 x) p = Inr bs"
    "layout_payload_sha256 layout = ext_sha256 x bs" "layout_fits layout bs"
    "pack_copy_blocks (tape_file_header x p Primary layout) bs = Inr prim"
    "pack_copy_blocks (tape_file_header x p Tail layout) bs = Inr tail"
    "encode_footer_block x p layout = Inr foot"
    "tf = \<lparr>encoded_header = tape_file_header x p Primary layout, encoded_payload_bytes = bs,
      encoded_blocks = prim @ tail @ [foot]\<rparr>"
    using encode_tape_file_Inr [OF assms(3)] by metis
  have M: "M = unat (layout_copy_block_count layout)" by (simp add: M_def e(8))
  obtain h ht where h: "copy_of x p bs layout Primary prim h" and ht: "copy_of x p bs layout Tail tail ht"
    using packed_copy [OF assms(1,2) e(1-5)] packed_copy [OF assms(1,2) e(1-4,6)] assms(4)
    by (auto simp: e(8))
  obtain f where f: "parse_parity_map_footer_block x foot (pmp_tape_uuid p) = Inr f"
    "ParityMapLocator.truncate f = layout_locator x p layout"
    using encoded_footer_parses [OF assms(1,2) e(3,4,7)] by auto
  obtain rp rt rf where rs: "rs = rp @ rt @ [rf]" "read_of rp prim" "read_of rt tail"
    "rf = None \<or> rf = Some foot"
    using read_of_split [of rs prim tail foot] assms(5) by (auto simp: e(8))
  have "length prim = M" "length tail = M" "prim \<noteq> []" using h ht by (simp_all add: copy_of_def M)
  then have len: "length rp = M" "length rt = M" "0 < M"
    using rs(2,3) by (auto simp: read_of_def dest: list_all2_lengthD)
  have sl: "slice 0 M rs = rp" "slice M M rs = rt" using len by (simp_all add: rs(1) slice_def)
  have total: "unat (layout_total_block_count layout) = 2 * M + 1"
    using e(4) by (simp add: layout_fits_def M)
  define T where "T = layout_total_block_count layout"
  have "length rs = unat T" using total len by (simp add: rs(1) T_def)
  then have T: "u64_of_usize (length rs) = Some T" by simp
  have guard: "\<not> (T < 3 \<or> T mod 2 = 0)" "unat ((T - 1) div 2) = M"
    using measured_layout [of T M] total len(3) by (simp_all add: T_def)
  have fT: "pml_total_block_count f = T"
    using arg_cong [OF f(2), of pml_total_block_count]
    by (simp add: ParityMapLocator.truncate_def layout_locator_def T_def)
  define F where "F = (if rf = None then None else Some f)"
  have F: "(case (if rs = [] then None else last rs) of
        Some footer_block \<Rightarrow>
          rbind (parse_parity_map_footer_block x footer_block (pmp_tape_uuid p)) (\<lambda>footer.
          if pml_total_block_count footer \<noteq> T
          then Inl (ParityMapParse ''parity-map has {measured_total} blocks, footer expects {}'')
          else Inr (Some footer))
      | None \<Rightarrow> Inr None) = Inr F"
    using rs(4) f(1) fT by (auto simp: rs(1) F_def)
  have F': "F = None \<or> (\<exists>f. F = Some f \<and> ParityMapLocator.truncate f = layout_locator x p layout)"
    using f(2) by (simp add: F_def)
  let ?P = "parse_available_copy_at x rs 0 Primary (pmp_tape_uuid p) T F"
  let ?T = "parse_available_copy_at x rs M Tail (pmp_tape_uuid p) T F"
  have r: "r = select_parity_map_copy ?P ?T"
    unfolding r_def parse_parity_map_reporting_unused_copy_def T
    using guard F by (simp add: Let_def)
  note P = parse_available_copy [OF h rs(2) F', of "[]" "rt @ [rf]", folded T_def, simplified,
      folded rs(1)[simplified]]
  note Q = parse_available_copy [OF ht rs(3) F', of rp "[rf]", folded T_def,
      unfolded len(1), folded rs(1)]
  have agree: "parity_map_copies_agree
      \<lparr>decoded_header = h, decoded_payload = p, decoded_payload_bytes = bs\<rparr>
      \<lparr>decoded_header = ht, decoded_payload = p, decoded_payload_bytes = bs\<rparr>"
    using h ht by (intro copies_agree_truncate) (simp_all add: copy_of_def)
  show thesis
  proof (rule that)
    show "length rs = 2 * M + 1" using len by (simp add: rs(1))
    show "0 < M" by (rule len(3))
    show "r = Inr (\<lparr>decoded_header = h, decoded_payload = p,
        decoded_payload_bytes = encoded_payload_bytes tf\<rparr>,
        if None \<in> set (slice M M rs) then Some ''the tail ParityMap copy is not usable: {error}'' else None)"
      if "None \<notin> set (slice 0 M rs)"
      using that P(1) Q agree unfolding sl r by (cases "None \<in> set rt") (auto simp: e(8))
    show "r = Inr (\<lparr>decoded_header = ht, decoded_payload = p,
        decoded_payload_bytes = encoded_payload_bytes tf\<rparr>,
        Some ''the primary ParityMap copy is not usable: {error}'')"
      if "None \<in> set (slice 0 M rs)" "None \<notin> set (slice M M rs)"
      using that P(2) Q(1) unfolding sl r by (auto simp: e(8))
    show "\<exists>e. r = Inl (ParityMapParse e)"
      if "None \<in> set (slice 0 M rs)" "None \<in> set (slice M M rs)"
      using that P(2) Q(2) unfolding sl r by auto
  qed
qed

lemma slice_halves:
  "length rs = 2 * M + 1 \<Longrightarrow> set rs = set (slice 0 M rs) \<union> set (slice M M rs) \<union> {last rs}"
proof -
  assume len: "length rs = 2 * M + 1"
  then have ne: "rs \<noteq> []" by auto
  have "rs = take M rs @ take M (drop M rs) @ drop (2 * M) rs"
    by (simp add: mult_2 flip: drop_drop)
  moreover have "drop (2 * M) rs = [last rs]"
    using len ne by (simp add: drop_eq_Nil last_conv_nth list_eq_iff_nth_eq)
  ultimately have "rs = slice 0 M rs @ slice M M rs @ [last rs]" by (simp add: slice_def)
  then show ?thesis by (metis set_append Un_assoc empty_set list.simps(15))
qed

lemma encode_tape_file_total:
  assumes "external_ok x" "payload_wf p" "SidecarEpochDirectory_validate (pmp_directory p) = Inr ()"
    and "directory_scope_tape_file_count (pmp_directory p) \<noteq> 0"
    and "directory_scope_highest_protected_ordinal (pmp_directory p)
      \<le> directory_scope_total_data_ordinals (pmp_directory p)"
    and "0xC8 \<le> unat b"
    and "encode_parity_map_payload (ext_into_writer x) (ext_rfc3339 x) p = Inr bs"
    and "length bs < 2 ^ 64" "2 * copy_blocks_needed (unat b) 0xC8 (length bs) + 1 < 2 ^ 64"
  shows "\<exists>tf. encode_parity_map_tape_file x p b = Inr tf \<and>
    length (encoded_blocks tf) = 2 * copy_blocks_needed (unat b) 0xC8 (length bs) + 1 \<and>
    uniform (unat b) (encoded_blocks tf)"
proof -
  let ?M = "copy_blocks_needed (unat b) 0xC8 (length bs)"
  obtain len m f t :: u64
    where u: "unat len = length bs" "unat m = ?M" "unat f = 2 * ?M" "unat t = 2 * ?M + 1"
    using unat_exists [OF assms(8)] unat_exists [of ?M] unat_exists [of "2 * ?M"]
      unat_exists [OF assms(9)] assms(9) by auto
  define shared where "shared = \<lparr>rcl_copy_block_count = m, rcl_total_block_count = t,
    rcl_primary_copy_start_block = 0, rcl_tail_copy_start_block = m, rcl_footer_block_index = f\<rparr>"
  have h: "unat (word_of_nat PARITY_MAP_HEADER_LEN :: u64) = 0xC8" by (simp add: PARITY_MAP_HEADER_LEN_def)
  have "0 < unat b" using assms(6) by linarith
  then have layout: "checked_replicated_control_layout (ucast b) (word_of_nat PARITY_MAP_HEADER_LEN) len
      ''parity-map'' = Inr shared"
    unfolding replicated_layout_Inr h shared_def using u assms(6) by simp
  define layout where "layout = \<lparr>layout_block_size = b, layout_payload_len = len,
    layout_payload_sha256 = ext_sha256 x bs, layout_copy_block_count = m,
    layout_total_block_count = t, layout_primary_copy_start_block = 0,
    layout_tail_copy_start_block = m, layout_footer_block_index = f\<rparr>"
  have size: "validate_block_size b = Inr (unat b)" using assms(6) by (simp add: validate_block_size_Inr)
  have valid: "validate_layout layout = Inr ()"
    using validate_shared_layout [OF layout] size
    by (simp add: validate_layout_def validate_locator_counts_def layout_def shared_def)
  have wf: "locator_wf (tape_file_header x p k layout)" "locator_wf (layout_locator x p layout)" for k
    using layout_locator_wf [OF assms(1,2), of layout bs] by (simp_all add: layout_def)
  have room: "0xC8 + length bs \<le> unat m * unat b"
    using copy_blocks_capacity(1) [of "unat b" "0xC8" "length bs"] assms(6) u(2) by simp
  have "\<exists>copy. pack_copy_blocks (tape_file_header x p k layout) bs = Inr copy \<and>
      uniform (unat b) copy \<and> length copy = ?M" for k
    using pack_copy_blocks_Inr [OF wf(1), of k bs] room assms(6) u(2) by (auto simp: layout_def)
  then obtain prim tail where c:
    "pack_copy_blocks (tape_file_header x p Primary layout) bs = Inr prim"
    "pack_copy_blocks (tape_file_header x p Tail layout) bs = Inr tail"
    "uniform (unat b) prim" "uniform (unat b) tail" "length prim = ?M" "length tail = ?M"
    by metis
  have gap: "list_all (\<lambda>(off, bs). 0x98 \<le> off \<or> off + length bs \<le> 0x91)
      (footer_fields (layout_locator x p layout))"
    using locator_gap [OF wf(2)] wf(2) by (simp add: footer_fields_def locator_wf_def)
  obtain foot where foot: "encode_footer_block x p layout = Inr foot" "length foot = unat b"
    using written_block(1) [OF footer_fields_fit [OF wf(2)] assms(6) gap] valid size
    by (simp add: encode_footer_block_def layout_def locator_codec)
  have hd: "build_header x p k layout = Inr (tape_file_header x p k layout)" for k
    using valid by (simp add: build_header_Inr)
  have lens: "u64_of_usize (length bs) = Some len"
    using u64_of_usize_unat [of len] u(1) by simp
  have "encode_parity_map_tape_file x p b = Inr \<lparr>encoded_header = tape_file_header x p Primary layout,
      encoded_payload_bytes = bs, encoded_blocks = prim @ tail @ [foot]\<rparr>"
    unfolding encode_parity_map_tape_file_def assms(3,7) size lens
    using assms(4,5) layout c(1,2) foot(1) hd
    by (simp add: lens shared_def not_less flip: layout_def)
  then show ?thesis using c(3-6) foot(2) by (simp add: uniform_def)
qed

lemma read_of_map_Some: "read_of (map Some blocks) blocks"
  by (simp add: read_of_def list_all2_map1 list_all2_same)

section \<open>A concrete instance\<close>

definition toy_digest :: "bytes \<Rightarrow> bytes" where
  "toy_digest bs = take 32 (bs @ replicate 32 0)"

definition reference_external :: external where
  "reference_external =
     \<lparr>ext_into_writer = reference_writer, ext_from_reader = reference_reader,
      ext_rfc3339 = sample_rfc3339, ext_sha256 = toy_digest,
      ext_hmac_sha256 = (\<lambda>key message. toy_digest (key @ message))\<rparr>"

lemma reference_external_ok: "external_ok reference_external"
  using rfc8949.ciborium_axioms sample_rfc3339_ascii
  by (auto simp: external_ok_def reference_external_def toy_digest_def)

lemma two_epoch_bytes:
  obtains bs where
    "encode_parity_map_payload (ext_into_writer reference_external) (ext_rfc3339 reference_external)
      two_epoch_payload = Inr bs" "length bs = 222"
proof -
  have "case encode_parity_map_payload reference_writer sample_rfc3339 two_epoch_payload of
      Inr bs \<Rightarrow> length bs = 222 | Inl _ \<Rightarrow> False" by code_simp
  then obtain bs where "encode_parity_map_payload reference_writer sample_rfc3339 two_epoch_payload = Inr bs"
    "length bs = 222" by (auto split: sum.splits)
  then show thesis by (intro that [of bs]) (simp_all add: reference_external_def)
qed

lemma two_epoch_file:
  obtains tf where "encode_parity_map_tape_file reference_external two_epoch_payload 256 = Inr tf"
    "length (encoded_blocks tf) = 5" "length (concat (encoded_blocks tf)) < 2 ^ 64"
proof -
  obtain bs where bs: "encode_parity_map_payload (ext_into_writer reference_external)
      (ext_rfc3339 reference_external) two_epoch_payload = Inr bs" "length bs = 222"
    by (rule two_epoch_bytes)
  have "SidecarEpochDirectory_validate (pmp_directory two_epoch_payload) = Inr ()" by code_simp
  moreover have "directory_scope_tape_file_count (pmp_directory two_epoch_payload) \<noteq> 0" by code_simp
  moreover have "directory_scope_highest_protected_ordinal (pmp_directory two_epoch_payload)
      \<le> directory_scope_total_data_ordinals (pmp_directory two_epoch_payload)" by code_simp
  moreover have "0xC8 \<le> unat (256 :: u32)" "unat (256 :: u32) = 256" by simp_all
  moreover have "copy_blocks_needed 256 0xC8 222 = 2" by (simp add: copy_blocks_needed_def)
  ultimately obtain tf where f:
    "encode_parity_map_tape_file reference_external two_epoch_payload 256 = Inr tf"
    "length (encoded_blocks tf) = 5" "uniform 256 (encoded_blocks tf)"
    using encode_tape_file_total [OF reference_external_ok two_epoch_payload_wf _ _ _ _ bs(1), of 256]
      bs(2) by auto
  then show thesis using that length_concat_uniform [OF f(3)] by simp
qed

section \<open>Claims\<close>

text \<open>C23: A written parity map survives the loss of any set of blocks that spares one copy. Whatever
  blocks of the encoded file cannot be read, the tolerant reader returns a map exactly when every
  block of the primary copy or every block of the tail copy was read (the footer may be lost), and
  what it returns is the payload that was written, with its bytes.\<close>

theorem parity_map_survives_lost_blocks:
  assumes "external_ok x" "payload_wf p" "encode_parity_map_tape_file x p b = Inr tf"
    and "length (concat (encoded_blocks tf)) < 2 ^ 64"
    and "read_of rs (encoded_blocks tf)"
    and "M = unat (pml_copy_block_count (encoded_header tf))"
  shows "((\<exists>d. parse_parity_map_tape_file_with_unreadable_blocks x rs (pmp_tape_uuid p) = Inr d) \<longleftrightarrow>
            None \<notin> set (slice 0 M rs) \<or> None \<notin> set (slice M M rs)) \<and>
    (parse_parity_map_tape_file_with_unreadable_blocks x rs (pmp_tape_uuid p) = Inr d \<longrightarrow>
       decoded_payload d = p \<and> decoded_payload_bytes d = encoded_payload_bytes tf)"
proof -
  obtain h ht where
    "None \<notin> set (slice 0 M rs) \<Longrightarrow>
      \<exists>w. parse_parity_map_reporting_unused_copy x rs (pmp_tape_uuid p) =
        Inr (\<lparr>decoded_header = h, decoded_payload = p,
               decoded_payload_bytes = encoded_payload_bytes tf\<rparr>, w)"
    "None \<in> set (slice 0 M rs) \<Longrightarrow> None \<notin> set (slice M M rs) \<Longrightarrow>
      \<exists>w. parse_parity_map_reporting_unused_copy x rs (pmp_tape_uuid p) =
        Inr (\<lparr>decoded_header = ht, decoded_payload = p,
               decoded_payload_bytes = encoded_payload_bytes tf\<rparr>, w)"
    "None \<in> set (slice 0 M rs) \<Longrightarrow> None \<in> set (slice M M rs) \<Longrightarrow>
      \<exists>e. parse_parity_map_reporting_unused_copy x rs (pmp_tape_uuid p) = Inl e"
    using reporting_unused_copy [OF assms(1-5), folded assms(6)] by metis
  then show ?thesis
    unfolding parse_parity_map_tape_file_with_unreadable_blocks_def
    by (cases "None \<in> set (slice 0 M rs)"; cases "None \<in> set (slice M M rs)") auto
qed

theorem parity_map_survives_lost_blocks_witness:
  "\<exists>tf d. encode_parity_map_tape_file reference_external two_epoch_payload 256 = Inr tf \<and>
     parse_parity_map_tape_file_with_unreadable_blocks reference_external
       (map Some (take 2 (encoded_blocks tf)) @ [None, None, None]) (pmp_tape_uuid two_epoch_payload)
       = Inr d \<and> decoded_payload d = two_epoch_payload"
proof -
  obtain tf where f: "encode_parity_map_tape_file reference_external two_epoch_payload 256 = Inr tf"
    "length (encoded_blocks tf) = 5" "length (concat (encoded_blocks tf)) < 2 ^ 64"
    by (rule two_epoch_file)
  let ?rs = "map Some (take 2 (encoded_blocks tf)) @ [None, None, None]"
  let ?M = "unat (pml_copy_block_count (encoded_header tf))"
  have r: "read_of ?rs (encoded_blocks tf)"
    using f(2) by (auto simp: read_of_def list_all2_conv_all_nth nth_append less_Suc_eq numeral_eq_Suc)
  have "length ?rs = 2 * ?M + 1"
    by (rule reporting_unused_copy [OF reference_external_ok two_epoch_payload_wf f(1,3) r])
  then have "?M = 2" using f(2) by simp
  then have "None \<notin> set (slice 0 ?M ?rs)" using f(2) by (auto simp: slice_def)
  then show ?thesis
    using parity_map_survives_lost_blocks [OF reference_external_ok two_epoch_payload_wf f(1,3) r refl]
      f(1) by metis
qed

text \<open>C25: The verifier's report on a written parity map is empty exactly when every block of it was
  read: a lost block of either copy, used or not, and a lost footer are each reported.\<close>

theorem parity_map_damage_exact:
  assumes "external_ok x" "payload_wf p" "encode_parity_map_tape_file x p b = Inr tf"
    and "length (concat (encoded_blocks tf)) < 2 ^ 64"
    and "read_of rs (encoded_blocks tf)"
  shows "parity_map_damage x rs (pmp_tape_uuid p) = [] \<longleftrightarrow> None \<notin> set rs"
proof -
  let ?M = "unat (pml_copy_block_count (encoded_header tf))"
  obtain h ht where len: "length rs = 2 * ?M + 1" and
    r: "None \<notin> set (slice 0 ?M rs) \<Longrightarrow>
      parse_parity_map_reporting_unused_copy x rs (pmp_tape_uuid p) = Inr (h,
        if None \<in> set (slice ?M ?M rs) then Some ''the tail ParityMap copy is not usable: {error}'' else None)"
    "None \<in> set (slice 0 ?M rs) \<Longrightarrow> None \<notin> set (slice ?M ?M rs) \<Longrightarrow>
      parse_parity_map_reporting_unused_copy x rs (pmp_tape_uuid p) =
        Inr (ht, Some ''the primary ParityMap copy is not usable: {error}'')"
    "None \<in> set (slice 0 ?M rs) \<Longrightarrow> None \<in> set (slice ?M ?M rs) \<Longrightarrow>
      \<exists>e. parse_parity_map_reporting_unused_copy x rs (pmp_tape_uuid p) = Inl (ParityMapParse e)"
    using reporting_unused_copy [OF assms] by metis
  have "rs \<noteq> []" using len by auto
  then have "parity_map_damage x rs (pmp_tape_uuid p) = [] \<longleftrightarrow>
      last rs \<noteq> None \<and> None \<notin> set (slice 0 ?M rs) \<and> None \<notin> set (slice ?M ?M rs)"
    using r by (cases "None \<in> set (slice 0 ?M rs)"; cases "None \<in> set (slice ?M ?M rs)")
      (auto simp: parity_map_damage_def)
  then show ?thesis unfolding slice_halves [OF len] by auto
qed

theorem parity_map_damage_exact_witness:
  "\<exists>tf. encode_parity_map_tape_file reference_external two_epoch_payload 256 = Inr tf \<and>
     parity_map_damage reference_external (map Some (encoded_blocks tf))
       (pmp_tape_uuid two_epoch_payload) = []"
proof -
  obtain tf where f: "encode_parity_map_tape_file reference_external two_epoch_payload 256 = Inr tf"
    "length (encoded_blocks tf) = 5" "length (concat (encoded_blocks tf)) < 2 ^ 64"
    by (rule two_epoch_file)
  show ?thesis
    using parity_map_damage_exact [OF reference_external_ok two_epoch_payload_wf f(1,3) read_of_map_Some]
      f(1) by auto
qed

text \<open>C24: The strict reader inverts the writer: a whole encoded file parses to the payload that was
  written, and the header it returns is the primary header of the encoder, apart from the CRC
  field, which the encoder leaves zero in its result.\<close>

theorem parse_encode_parity_map_tape_file:
  assumes "external_ok x" "payload_wf p" "encode_parity_map_tape_file x p b = Inr tf"
    and "length (concat (encoded_blocks tf)) < 2 ^ 64"
  shows "\<exists>d. parse_parity_map_tape_file x (encoded_blocks tf) (pmp_tape_uuid p) = Inr d \<and>
    decoded_payload d = p \<and> decoded_payload_bytes d = encoded_payload_bytes tf \<and>
    ParityMapLocator.truncate (decoded_header d) = ParityMapLocator.truncate (encoded_header tf) \<and>
    pmh_copy_kind (decoded_header d) = Primary"
proof -
  obtain layout prim tail foot bs where e:
    "SidecarEpochDirectory_validate (pmp_directory p) = Inr ()"
    "encode_parity_map_payload (ext_into_writer x) (ext_rfc3339 x) p = Inr bs"
    "layout_payload_sha256 layout = ext_sha256 x bs" "layout_fits layout bs"
    "pack_copy_blocks (tape_file_header x p Primary layout) bs = Inr prim"
    "pack_copy_blocks (tape_file_header x p Tail layout) bs = Inr tail"
    "encode_footer_block x p layout = Inr foot"
    "tf = \<lparr>encoded_header = tape_file_header x p Primary layout, encoded_payload_bytes = bs,
      encoded_blocks = prim @ tail @ [foot]\<rparr>"
    using encode_tape_file_Inr [OF assms(3)] by metis
  obtain h ht where h: "copy_of x p bs layout Primary prim h" and ht: "copy_of x p bs layout Tail tail ht"
    using packed_copy [OF assms(1,2) e(1-5)] packed_copy [OF assms(1,2) e(1-4,6)] assms(4)
    by (auto simp: e(8))
  obtain f where f: "parse_parity_map_footer_block x foot (pmp_tape_uuid p) = Inr f"
    "ParityMapLocator.truncate f = layout_locator x p layout"
    using encoded_footer_parses [OF assms(1,2) e(3,4,7)] by auto
  let ?blocks = "prim @ tail @ [foot]"
  have sel: "pml_tape_uuid f = pmp_tape_uuid p" "pml_total_block_count f = layout_total_block_count layout"
    "pml_primary_copy_start_block f = layout_primary_copy_start_block layout"
    "pml_tail_copy_start_block f = layout_tail_copy_start_block layout"
    using f(2) by (auto simp: ParityMapLocator.truncate_def layout_locator_def)
  have starts: "unat (pml_primary_copy_start_block f) = 0" "unat (pml_tail_copy_start_block f) = length prim"
    "unat (pml_total_block_count f) = length ?blocks"
    using e(4) h ht by (simp_all add: layout_fits_def sel copy_of_def)
  have P: "parse_copy_at x ?blocks f Primary =
      Inr \<lparr>decoded_header = h, decoded_payload = p, decoded_payload_bytes = bs\<rparr>"
    using parse_copy_at_copy [OF h f(2), of "[]" "tail @ [foot]"] starts(1) by simp
  have "parse_copy_at x ?blocks f Tail =
      Inr \<lparr>decoded_header = ht, decoded_payload = p, decoded_payload_bytes = bs\<rparr>"
    using parse_copy_at_copy [OF ht f(2), of prim "[foot]"] starts(2) by simp
  moreover have "parity_map_copies_agree
      \<lparr>decoded_header = h, decoded_payload = p, decoded_payload_bytes = bs\<rparr>
      \<lparr>decoded_header = ht, decoded_payload = p, decoded_payload_bytes = bs\<rparr>"
    using h ht by (intro copies_agree_truncate) (simp_all add: copy_of_def)
  ultimately show ?thesis
    using P f(1) starts(3) h
    by (simp add: parse_parity_map_tape_file_def e(8) copy_of_def)
qed

theorem parse_encode_parity_map_tape_file_witness:
  "\<exists>tf d. encode_parity_map_tape_file reference_external two_epoch_payload 256 = Inr tf \<and>
     parse_parity_map_tape_file reference_external (encoded_blocks tf)
       (pmp_tape_uuid two_epoch_payload) = Inr d \<and> decoded_payload d = two_epoch_payload"
proof -
  obtain tf where f: "encode_parity_map_tape_file reference_external two_epoch_payload 256 = Inr tf"
    "length (encoded_blocks tf) = 5" "length (concat (encoded_blocks tf)) < 2 ^ 64"
    by (rule two_epoch_file)
  show ?thesis
    using parse_encode_parity_map_tape_file [OF reference_external_ok two_epoch_payload_wf f(1,3)] f(1)
    by blast
qed

end
