(* ===== verification/TerminalTail.thy ===== *)
theory TerminalTail
  imports ByteBlocks
begin

text \<open>
  The planned layout of the five-file terminal index tail, from
  \<open>crates/remanence-parity/src/terminal_tail.rs\<close>: the durable progress states, the checked plan of
  replica A, separation AB, replica B, separation BC and replica C, its validation, its lookups and
  the bytes of its digest. The fixed array of five components is a list, and SHA-256 is a parameter.
\<close>

section \<open>Progress\<close>

definition TERMINAL_INDEX_REPLICA_COUNT :: u16 where
  "TERMINAL_INDEX_REPLICA_COUNT = 3"

definition TERMINAL_INDEX_SEPARATION_COUNT :: u16 where
  "TERMINAL_INDEX_SEPARATION_COUNT = 2"

definition TERMINAL_TAIL_COMPONENT_COUNT :: nat where
  "TERMINAL_TAIL_COMPONENT_COUNT = 5"

datatype TerminalTailProgress =
  BeforeReplicaA | AfterReplicaA | AfterSeparationAb | AfterReplicaB | AfterSeparationBc | AfterReplicaC

fun next_component_index :: "TerminalTailProgress \<Rightarrow> nat option" where
  "next_component_index BeforeReplicaA = Some 0"
| "next_component_index AfterReplicaA = Some 1"
| "next_component_index AfterSeparationAb = Some 2"
| "next_component_index AfterReplicaB = Some 3"
| "next_component_index AfterSeparationBc = Some 4"
| "next_component_index AfterReplicaC = None"

fun successor :: "TerminalTailProgress \<Rightarrow> TerminalTailProgress option" where
  "successor BeforeReplicaA = Some AfterReplicaA"
| "successor AfterReplicaA = Some AfterSeparationAb"
| "successor AfterSeparationAb = Some AfterReplicaB"
| "successor AfterReplicaB = Some AfterSeparationBc"
| "successor AfterSeparationBc = Some AfterReplicaC"
| "successor AfterReplicaC = None"

fun completed_replicas :: "TerminalTailProgress \<Rightarrow> u8" where
  "completed_replicas BeforeReplicaA = 0"
| "completed_replicas AfterReplicaA = 1"
| "completed_replicas AfterSeparationAb = 1"
| "completed_replicas AfterReplicaB = 2"
| "completed_replicas AfterSeparationBc = 2"
| "completed_replicas AfterReplicaC = 3"

section \<open>Components and layout\<close>

definition TERMINAL_INDEX_BLOCK_SIZES :: "u32 list" where
  "TERMINAL_INDEX_BLOCK_SIZES = [256 * 1024, 512 * 1024, 1024 * 1024]"

datatype TerminalTailComponentKind = TapeIndexReplica | IndexSeparationExtent

fun TerminalTailComponentKind_code :: "TerminalTailComponentKind \<Rightarrow> u16" where
  "TerminalTailComponentKind_code TapeIndexReplica = 4"
| "TerminalTailComponentKind_code IndexSeparationExtent = 5"

datatype TerminalTailLayoutError =
    UnsupportedPartition u32
  | UnsupportedBlockSize u32
  | InvalidRecordCount TerminalTailComponentKind u64 u64
  | NonUniformRecordCount TerminalTailComponentKind u16 u64 u64
  | ArithmeticOverflow string
  | WrongComponent nat TerminalTailComponentKind u16 TerminalTailComponentKind u16
  | NonDenseTapeFileNumber nat u64 u64
  | NonContiguousStart nat u64 u64
  | WrongExpectedEod u64 u64
  | MissingComponent TerminalTailComponentKind u16

type_synonym 'a tail_result = "TerminalTailLayoutError + 'a"

definition tail_checked_add :: "u64 \<Rightarrow> u64 \<Rightarrow> string \<Rightarrow> u64 tail_result" where
  "tail_checked_add left right context = ok_or (ArithmeticOverflow context) (checked_add left right)"

record TerminalTailComponentPlan =
  ttc_kind :: TerminalTailComponentKind
  ttc_ordinal :: u16
  ttc_tape_file_number :: u64
  ttc_start_lba :: u64
  ttc_record_count :: u64

definition logical_span :: "TerminalTailComponentPlan \<Rightarrow> u64 tail_result" where
  "logical_span c =
     tail_checked_add (ttc_record_count c) 1 ''component records plus one logical filemark''"

definition expected_next_lba :: "TerminalTailComponentPlan \<Rightarrow> u64 tail_result" where
  "expected_next_lba c =
     rbind (logical_span c) (\<lambda>span. tail_checked_add (ttc_start_lba c) span ''next component start LBA'')"

record TerminalTailLayout =
  ttl_partition :: u32
  ttl_block_size :: u32
  ttl_components :: "TerminalTailComponentPlan list"
  ttl_expected_eod_lba :: u64

definition validate_terminal_index_block_size :: "u32 \<Rightarrow> nat tail_result" where
  "validate_terminal_index_block_size block_size =
     (if block_size \<notin> set TERMINAL_INDEX_BLOCK_SIZES
      then Inl (UnsupportedBlockSize block_size) else Inr (unat block_size))"

definition validate_terminal_index_block_size_hint :: "u32 \<Rightarrow> nat tail_result" where
  "validate_terminal_index_block_size_hint block_size = validate_terminal_index_block_size block_size"

definition expected_components :: "(TerminalTailComponentKind \<times> u16) list" where
  "expected_components =
     [(TapeIndexReplica, 1), (IndexSeparationExtent, 1), (TapeIndexReplica, 2),
      (IndexSeparationExtent, 2), (TapeIndexReplica, 3)]"

definition validate_next_component ::
  "nat \<Rightarrow> TerminalTailComponentPlan \<Rightarrow> TerminalTailComponentPlan \<Rightarrow> unit tail_result" where
  "validate_next_component index component next =
     rbind (tail_checked_add (ttc_tape_file_number component) 1 ''dense terminal tape-file number'')
     (\<lambda>expected_file.
     if ttc_tape_file_number next \<noteq> expected_file
     then Inl (NonDenseTapeFileNumber (index + 1) expected_file (ttc_tape_file_number next))
     else
     rbind (expected_next_lba component) (\<lambda>expected_start.
     if ttc_start_lba next \<noteq> expected_start
     then Inl (NonContiguousStart (index + 1) expected_start (ttc_start_lba next))
     else Inr ()))"

definition validate_component ::
  "TerminalTailLayout \<Rightarrow> nat \<times> TerminalTailComponentPlan \<times> TerminalTailComponentKind \<times> u16 \<Rightarrow>
     unit tail_result" where
  "validate_component layout = (\<lambda>(index, component, expected_kind, expected_ordinal).
     if ttc_kind component \<noteq> expected_kind \<or> ttc_ordinal component \<noteq> expected_ordinal
     then Inl (WrongComponent index expected_kind expected_ordinal (ttc_kind component) (ttc_ordinal component))
     else if ttc_record_count component < 2
     then Inl (InvalidRecordCount (ttc_kind component) (ttc_record_count component) 2)
     else if index + 1 < length (ttl_components layout)
     then validate_next_component index component (ttl_components layout ! (index + 1))
     else Inr ())"

definition validate_uniform ::
  "u64 \<Rightarrow> TerminalTailComponentPlan \<Rightarrow> unit tail_result" where
  "validate_uniform expected component =
     (if ttc_record_count component \<noteq> expected
      then Inl (NonUniformRecordCount (ttc_kind component) (ttc_ordinal component) expected
        (ttc_record_count component))
      else Inr ())"

definition TerminalTailLayout_validate :: "TerminalTailLayout \<Rightarrow> unit tail_result" where
  "TerminalTailLayout_validate layout =
     (if ttl_partition layout \<noteq> 0 then Inl (UnsupportedPartition (ttl_partition layout))
      else
      rbind (validate_terminal_index_block_size_hint (ttl_block_size layout)) (\<lambda>_.
      rbind (try_fold (\<lambda>_. validate_component layout) ()
        (List.enumerate 0 (zip (ttl_components layout) expected_components))) (\<lambda>_.
      let components = ttl_components layout
      in
      rbind (try_fold (\<lambda>_. validate_uniform (ttc_record_count (components ! 0))) ()
        [components ! 2, components ! 4]) (\<lambda>_.
      rbind (validate_uniform (ttc_record_count (components ! 1)) (components ! 3)) (\<lambda>_.
      rbind (expected_next_lba (components ! (TERMINAL_TAIL_COMPONENT_COUNT - 1))) (\<lambda>expected_eod.
      if ttl_expected_eod_lba layout \<noteq> expected_eod
      then Inl (WrongExpectedEod expected_eod (ttl_expected_eod_lba layout))
      else Inr ()))))))"

definition layout_step ::
  "u64 \<times> u64 \<times> TerminalTailComponentPlan list \<Rightarrow> nat \<times> TerminalTailComponentKind \<times> u16 \<times> u64 \<Rightarrow>
     (u64 \<times> u64 \<times> TerminalTailComponentPlan list) tail_result" where
  "layout_step = (\<lambda>(file_number, start_lba, components) (index, kind, ordinal, record_count).
     let component = \<lparr>ttc_kind = kind, ttc_ordinal = ordinal, ttc_tape_file_number = file_number,
       ttc_start_lba = start_lba, ttc_record_count = record_count\<rparr>
     in
     rbind (expected_next_lba component) (\<lambda>start_lba'.
     rbind (if index + 1 \<noteq> TERMINAL_TAIL_COMPONENT_COUNT
            then tail_checked_add file_number 1 ''terminal tape-file number'' else Inr file_number)
     (\<lambda>file_number'. Inr (file_number', start_lba', components[index := component]))))"

definition TerminalTailLayout_new ::
  "u32 \<Rightarrow> u32 \<Rightarrow> u64 \<Rightarrow> u64 \<Rightarrow> u64 \<Rightarrow> u64 \<Rightarrow> TerminalTailLayout tail_result" where
  "TerminalTailLayout_new part block_size first_tape_file_number first_start_lba replica_records
     separation_records =
     (if part \<noteq> 0 then Inl (UnsupportedPartition part)
      else
      rbind (validate_terminal_index_block_size_hint block_size) (\<lambda>_.
      if replica_records < 2 then Inl (InvalidRecordCount TapeIndexReplica replica_records 2)
      else if separation_records < 2
      then Inl (InvalidRecordCount IndexSeparationExtent separation_records 2)
      else
      let specs =
        [(TapeIndexReplica, 1, replica_records),
         (IndexSeparationExtent, 1, separation_records),
         (TapeIndexReplica, 2, replica_records),
         (IndexSeparationExtent, 2, separation_records),
         (TapeIndexReplica, 3, replica_records)];
        components = replicate TERMINAL_TAIL_COMPONENT_COUNT
          \<lparr>ttc_kind = TapeIndexReplica, ttc_ordinal = 1, ttc_tape_file_number = 0, ttc_start_lba = 0,
           ttc_record_count = replica_records\<rparr>
      in
      rbind (try_fold layout_step (first_tape_file_number, first_start_lba, components)
        (List.enumerate 0 specs)) (\<lambda>(_, start_lba, components).
      let layout = \<lparr>ttl_partition = part, ttl_block_size = block_size,
        ttl_components = components, ttl_expected_eod_lba = start_lba\<rparr>
      in
      rbind (TerminalTailLayout_validate layout) (\<lambda>_. Inr layout))))"

definition TerminalTailLayout_component ::
  "TerminalTailLayout \<Rightarrow> TerminalTailComponentKind \<Rightarrow> u16 \<Rightarrow> TerminalTailComponentPlan tail_result" where
  "TerminalTailLayout_component layout kind ordinal =
     rbind (TerminalTailLayout_validate layout) (\<lambda>_.
       ok_or (MissingComponent kind ordinal)
         (List.find (\<lambda>c. ttc_kind c = kind \<and> ttc_ordinal c = ordinal) (ttl_components layout)))"

definition TerminalTailLayout_replica ::
  "TerminalTailLayout \<Rightarrow> u16 \<Rightarrow> TerminalTailComponentPlan tail_result" where
  "TerminalTailLayout_replica layout ordinal = TerminalTailLayout_component layout TapeIndexReplica ordinal"

definition TerminalTailLayout_separation ::
  "TerminalTailLayout \<Rightarrow> u16 \<Rightarrow> TerminalTailComponentPlan tail_result" where
  "TerminalTailLayout_separation layout ordinal =
     TerminalTailLayout_component layout IndexSeparationExtent ordinal"

definition TERMINAL_TAIL_LAYOUT_DIGEST_DOMAIN :: bytes where
  "TERMINAL_TAIL_LAYOUT_DIGEST_DOMAIN =
     [0x52, 0x45, 0x4D, 0x2D, 0x54, 0x45, 0x52, 0x4D, 0x49, 0x4E, 0x41, 0x4C, 0x2D, 0x54, 0x41, 0x49,
      0x4C, 0x2D, 0x4C, 0x41, 0x59, 0x4F, 0x55, 0x54, 0x2D, 0x56, 0x31, 0x00]"

definition component_digest_bytes :: "TerminalTailComponentPlan \<Rightarrow> bytes" where
  "component_digest_bytes c =
     le_bytes 2 (TerminalTailComponentKind_code (ttc_kind c)) @ le_bytes 2 (ttc_ordinal c) @
     le_bytes 4 (1 :: u32) @ le_bytes 8 (ttc_tape_file_number c) @ le_bytes 8 (ttc_start_lba c) @
     le_bytes 8 (ttc_record_count c)"

definition layout_digest_bytes :: "TerminalTailLayout \<Rightarrow> bytes" where
  "layout_digest_bytes layout =
     TERMINAL_TAIL_LAYOUT_DIGEST_DOMAIN @ le_bytes 4 (ttl_partition layout) @
     le_bytes 4 (ttl_block_size layout) @
     le_bytes 2 (word_of_nat TERMINAL_TAIL_COMPONENT_COUNT :: u16) @
     concat (map component_digest_bytes (ttl_components layout)) @
     le_bytes 8 (ttl_expected_eod_lba layout)"

definition TerminalTailLayout_digest ::
  "(bytes \<Rightarrow> bytes) \<Rightarrow> TerminalTailLayout \<Rightarrow> bytes tail_result" where
  "TerminalTailLayout_digest sha256 layout =
     rbind (TerminalTailLayout_validate layout) (\<lambda>_. Inr (sha256 (layout_digest_bytes layout)))"


section \<open>Valid layouts\<close>

lemma tail_checked_add_Inr [simp]:
  "tail_checked_add a b ctx = Inr c \<longleftrightarrow> unat a + unat b = unat c"
  by (simp add: tail_checked_add_def checked_simps)

lemma expected_next_lba_Inr [simp]:
  "expected_next_lba c = Inr n \<longleftrightarrow>
    unat (ttc_start_lba c) + (unat (ttc_record_count c) + 1) = unat n"
proof -
  have "(\<exists>span :: u64. unat (ttc_record_count c) + 1 = unat span \<and> unat (ttc_start_lba c) + unat span = unat n)
      \<longleftrightarrow> unat (ttc_start_lba c) + (unat (ttc_record_count c) + 1) = unat n"
  proof
    assume n: "unat (ttc_start_lba c) + (unat (ttc_record_count c) + 1) = unat n"
    then have "unat (ttc_record_count c) + 1 < 2 ^ 64" using unat_u64_less [of n] by simp
    then obtain span :: u64 where "unat span = unat (ttc_record_count c) + 1"
      using unat_exists by blast
    with n show "\<exists>span :: u64. unat (ttc_record_count c) + 1 = unat span \<and>
      unat (ttc_start_lba c) + unat span = unat n" by (intro exI [of _ span]) simp
  qed auto
  then show ?thesis by (simp add: expected_next_lba_def logical_span_def)
qed

lemma block_size_hint_Inr [simp]:
  "validate_terminal_index_block_size_hint b = Inr n \<longleftrightarrow>
    b \<in> set TERMINAL_INDEX_BLOCK_SIZES \<and> n = unat b"
  by (auto simp: validate_terminal_index_block_size_hint_def validate_terminal_index_block_size_def)

definition follows :: "TerminalTailComponentPlan \<Rightarrow> TerminalTailComponentPlan \<Rightarrow> bool" where
  "follows next c \<longleftrightarrow>
     unat (ttc_tape_file_number next) = unat (ttc_tape_file_number c) + 1 \<and>
     unat (ttc_start_lba next) = unat (ttc_start_lba c) + (unat (ttc_record_count c) + 1)"

lemma validate_next_component_Inr [simp]:
  "validate_next_component i c next = Inr () \<longleftrightarrow> follows next c"
  by (simp add: validate_next_component_def follows_def) auto

lemma five_components:
  assumes "length cs = 5"
  obtains a b c d e where "cs = [a, b, c, d, e]"
  using assms by (auto simp: length_Suc_conv numeral_eq_Suc)

definition component_is ::
  "TerminalTailComponentPlan \<Rightarrow> TerminalTailComponentKind \<Rightarrow> u16 \<Rightarrow> u64 \<Rightarrow> bool" where
  "component_is c kind ordinal records \<longleftrightarrow>
     ttc_kind c = kind \<and> ttc_ordinal c = ordinal \<and> ttc_record_count c = records"

lemma validate_five:
  assumes "ttl_components l = [a, b, c, d, e]"
  defines "r \<equiv> ttc_record_count a" and "g \<equiv> ttc_record_count b"
  shows "TerminalTailLayout_validate l = Inr () \<longleftrightarrow>
    ttl_partition l = 0 \<and> ttl_block_size l \<in> set TERMINAL_INDEX_BLOCK_SIZES \<and> 2 \<le> r \<and> 2 \<le> g \<and>
    component_is a TapeIndexReplica 1 r \<and> component_is b IndexSeparationExtent 1 g \<and>
    component_is c TapeIndexReplica 2 r \<and> component_is d IndexSeparationExtent 2 g \<and>
    component_is e TapeIndexReplica 3 r \<and>
    follows b a \<and> follows c b \<and> follows d c \<and> follows e d \<and>
    unat (ttl_expected_eod_lba l) = unat (ttc_start_lba e) + (unat r + 1)"
  using assms
  by (simp add: TerminalTailLayout_validate_def expected_components_def validate_component_def
      validate_uniform_def component_is_def TERMINAL_TAIL_COMPONENT_COUNT_def not_less Let_def
      numeral_2_eq_2 numeral_3_eq_3 numeral_eq_Suc) auto


lemma layout_step_Inr:
  "layout_step (f, s, cs) (i, kind, ordinal, n) = Inr (f', s', cs') \<longleftrightarrow>
    unat s + (unat n + 1) = unat s' \<and>
    (if i + 1 \<noteq> 5 then unat f + 1 = unat f' else f' = f) \<and>
    cs' = cs[i := \<lparr>ttc_kind = kind, ttc_ordinal = ordinal, ttc_tape_file_number = f, ttc_start_lba = s,
      ttc_record_count = n\<rparr>]"
  by (auto simp: layout_step_def TERMINAL_TAIL_COMPONENT_COUNT_def Let_def)

lemma component_eqI:
  "component_is c kind ordinal n \<Longrightarrow> c = \<lparr>ttc_kind = kind, ttc_ordinal = ordinal,
     ttc_tape_file_number = ttc_tape_file_number c, ttc_start_lba = ttc_start_lba c, ttc_record_count = n\<rparr>"
  by (simp add: component_is_def)

lemma follows_unat:
  "follows next c \<Longrightarrow> component_is c kind ordinal n \<Longrightarrow>
    unat (ttc_start_lba c) + (unat n + 1) = unat (ttc_start_lba next) \<and>
    unat (ttc_tape_file_number c) + 1 = unat (ttc_tape_file_number next)"
  by (simp add: follows_def component_is_def)

lemma new_builds:
  assumes "ttl_components l = [a, b, c, d, e]" "TerminalTailLayout_validate l = Inr ()"
  shows "TerminalTailLayout_new (ttl_partition l) (ttl_block_size l) (ttc_tape_file_number a)
    (ttc_start_lba a) (ttc_record_count a) (ttc_record_count b) = Inr l"
proof -
  note v = assms(2) [unfolded validate_five [OF assms(1)]]
  let ?r = "ttc_record_count a" and ?g = "ttc_record_count b"
  let ?z = "\<lparr>ttc_kind = TapeIndexReplica, ttc_ordinal = 1, ttc_tape_file_number = 0, ttc_start_lba = 0,
    ttc_record_count = ?r\<rparr>"
  have s1: "layout_step (ttc_tape_file_number a, ttc_start_lba a, [?z, ?z, ?z, ?z, ?z])
      (0, TapeIndexReplica, 1, ?r) = Inr (ttc_tape_file_number b, ttc_start_lba b, [a, ?z, ?z, ?z, ?z])"
    using v by (auto simp: layout_step_Inr component_is_def follows_def)
  have s2: "layout_step (ttc_tape_file_number b, ttc_start_lba b, [a, ?z, ?z, ?z, ?z])
      (1, IndexSeparationExtent, 1, ?g) = Inr (ttc_tape_file_number c, ttc_start_lba c, [a, b, ?z, ?z, ?z])"
    using v by (auto simp: layout_step_Inr component_is_def follows_def)
  have s3: "layout_step (ttc_tape_file_number c, ttc_start_lba c, [a, b, ?z, ?z, ?z])
      (2, TapeIndexReplica, 2, ?r) = Inr (ttc_tape_file_number d, ttc_start_lba d, [a, b, c, ?z, ?z])"
    using v by (auto simp: layout_step_Inr component_is_def follows_def numeral_2_eq_2)
  have s4: "layout_step (ttc_tape_file_number d, ttc_start_lba d, [a, b, c, ?z, ?z])
      (3, IndexSeparationExtent, 2, ?g) = Inr (ttc_tape_file_number e, ttc_start_lba e, [a, b, c, d, ?z])"
    using v by (auto simp: layout_step_Inr component_is_def follows_def numeral_3_eq_3)
  have s5: "layout_step (ttc_tape_file_number e, ttc_start_lba e, [a, b, c, d, ?z])
      (4, TapeIndexReplica, 3, ?r) = Inr (ttc_tape_file_number e, ttl_expected_eod_lba l, [a, b, c, d, e])"
    using v by (auto simp: layout_step_Inr component_is_def follows_def eval_nat_numeral)
  have "replicate TERMINAL_TAIL_COMPONENT_COUNT ?z = [?z, ?z, ?z, ?z, ?z]"
    by (simp add: TERMINAL_TAIL_COMPONENT_COUNT_def eval_nat_numeral)
  then show ?thesis
    using v s1 s2 s3 s4 s5 assms
    by (cases l) (simp add: TerminalTailLayout_new_def Let_def not_less eval_nat_numeral)
qed

lemma new_five:
  assumes "TerminalTailLayout_new p b f s r g = Inr l"
  obtains a b' c d e where "ttl_components l = [a, b', c, d, e]" "TerminalTailLayout_validate l = Inr ()"
    "ttl_partition l = p" "ttl_block_size l = b" "ttc_tape_file_number a = f" "ttc_start_lba a = s"
    "ttc_record_count a = r" "ttc_record_count b' = g"
proof -
  let ?z = "\<lparr>ttc_kind = TapeIndexReplica, ttc_ordinal = 1, ttc_tape_file_number = 0, ttc_start_lba = 0,
    ttc_record_count = r\<rparr>"
  have z: "replicate TERMINAL_TAIL_COMPONENT_COUNT ?z = [?z, ?z, ?z, ?z, ?z]"
    by (simp add: TERMINAL_TAIL_COMPONENT_COUNT_def eval_nat_numeral)
  from assms show thesis
    using that unfolding TerminalTailLayout_new_def Let_def z
    by (auto simp: layout_step_Inr eval_nat_numeral)
qed

definition sample_layout :: TerminalTailLayout where
  "sample_layout =
     \<lparr>ttl_partition = 0, ttl_block_size = 262144, ttl_components =
       [\<lparr>ttc_kind = TapeIndexReplica, ttc_ordinal = 1, ttc_tape_file_number = 7, ttc_start_lba = 100, ttc_record_count = 3\<rparr>,
        \<lparr>ttc_kind = IndexSeparationExtent, ttc_ordinal = 1, ttc_tape_file_number = 8, ttc_start_lba = 104, ttc_record_count = 4096\<rparr>,
        \<lparr>ttc_kind = TapeIndexReplica, ttc_ordinal = 2, ttc_tape_file_number = 9, ttc_start_lba = 4201, ttc_record_count = 3\<rparr>,
        \<lparr>ttc_kind = IndexSeparationExtent, ttc_ordinal = 2, ttc_tape_file_number = 10, ttc_start_lba = 4205, ttc_record_count = 4096\<rparr>,
        \<lparr>ttc_kind = TapeIndexReplica, ttc_ordinal = 3, ttc_tape_file_number = 11, ttc_start_lba = 8302, ttc_record_count = 3\<rparr>],
      ttl_expected_eod_lba = 8306\<rparr>"

lemma sample_layout_valid:
  "length (ttl_components sample_layout) = 5" "TerminalTailLayout_validate sample_layout = Inr ()"
  by (simp_all add: sample_layout_def validate_five component_is_def follows_def
      TERMINAL_INDEX_BLOCK_SIZES_def)

text \<open>C27: The five-file plan is unique: a layout of five components passes validation exactly when it is
  the one that the constructor builds from its partition, block size, first tape file, first
  address and the record counts of the first replica and the first separation.\<close>

theorem layout_validate_iff_new:
  assumes "length (ttl_components l) = 5"
  defines "a \<equiv> ttl_components l ! 0" and "b \<equiv> ttl_components l ! 1"
  shows "TerminalTailLayout_validate l = Inr () \<longleftrightarrow>
    TerminalTailLayout_new (ttl_partition l) (ttl_block_size l) (ttc_tape_file_number a)
      (ttc_start_lba a) (ttc_record_count a) (ttc_record_count b) = Inr l"
proof
  assume v: "TerminalTailLayout_validate l = Inr ()"
  obtain a' b' c d e where cs: "ttl_components l = [a', b', c, d, e]"
    using five_components [OF assms(1)] .
  then show "TerminalTailLayout_new (ttl_partition l) (ttl_block_size l) (ttc_tape_file_number a)
      (ttc_start_lba a) (ttc_record_count a) (ttc_record_count b) = Inr l"
    using new_builds [OF cs v] by (simp add: a_def b_def)
next
  assume "TerminalTailLayout_new (ttl_partition l) (ttl_block_size l) (ttc_tape_file_number a)
      (ttc_start_lba a) (ttc_record_count a) (ttc_record_count b) = Inr l"
  then show "TerminalTailLayout_validate l = Inr ()"
    by (auto simp: TerminalTailLayout_new_def Let_def)
qed


theorem layout_validate_iff_new_witness:
  "TerminalTailLayout_new 0 262144 7 100 3 4096 = Inr sample_layout"
  using layout_validate_iff_new [of sample_layout] sample_layout_valid
  by (simp add: sample_layout_def)

text \<open>C28: A terminal tail can be planned exactly when the partition is zero, the block size is one of the
  three supported ones, every component has room for a header and a footer, and the five file
  numbers and the end of the tail fit in 64 bits; the components then have consecutive file
  numbers, each starts one filemark after the last record of the one before it, and the expected
  end of data is the start plus three replicas, two separations and five filemarks.\<close>

theorem terminal_layout_exact:
  "((\<exists>l. TerminalTailLayout_new p b f s r g = Inr l) \<longleftrightarrow>
      p = 0 \<and> b \<in> set TERMINAL_INDEX_BLOCK_SIZES \<and> 2 \<le> r \<and> 2 \<le> g \<and> unat f + 4 < 2 ^ 64 \<and>
      unat s + 3 * unat r + 2 * unat g + 5 < 2 ^ 64) \<and>
   (TerminalTailLayout_new p b f s r g = Inr l \<longrightarrow>
      map (\<lambda>c. unat (ttc_tape_file_number c)) (ttl_components l) = map (\<lambda>i. unat f + i) [0..<5] \<and>
      map (\<lambda>c. unat (ttc_start_lba c)) (ttl_components l) @ [unat (ttl_expected_eod_lba l)] =
        [unat s, unat s + unat r + 1, unat s + unat r + unat g + 2, unat s + 2 * unat r + unat g + 3,
         unat s + 2 * unat r + 2 * unat g + 4, unat s + 3 * unat r + 2 * unat g + 5])"
  (is "?exists \<and> (_ \<longrightarrow> ?files \<and> ?starts)")
proof
  show ?exists
  proof
    assume "\<exists>l. TerminalTailLayout_new p b f s r g = Inr l"
    then obtain l where l: "TerminalTailLayout_new p b f s r g = Inr l" ..
    then obtain a b' c d e where n: "ttl_components l = [a, b', c, d, e]"
      "TerminalTailLayout_validate l = Inr ()" "ttl_partition l = p" "ttl_block_size l = b"
      "ttc_tape_file_number a = f" "ttc_start_lba a = s" "ttc_record_count a = r" "ttc_record_count b' = g"
      by (rule new_five)
    then show "p = 0 \<and> b \<in> set TERMINAL_INDEX_BLOCK_SIZES \<and> 2 \<le> r \<and> 2 \<le> g \<and> unat f + 4 < 2 ^ 64 \<and>
      unat s + 3 * unat r + 2 * unat g + 5 < 2 ^ 64"
      using unat_u64_less [of "ttc_tape_file_number e"] unat_u64_less [of "ttl_expected_eod_lba l"]
      by (auto simp: validate_five [OF n(1)] follows_def component_is_def)
  next
    assume R: "p = 0 \<and> b \<in> set TERMINAL_INDEX_BLOCK_SIZES \<and> 2 \<le> r \<and> 2 \<le> g \<and> unat f + 4 < 2 ^ 64 \<and>
      unat s + 3 * unat r + 2 * unat g + 5 < 2 ^ 64"
    obtain f1 f2 f3 f4 :: u64 where f: "unat f1 = unat f + 1" "unat f2 = unat f + 2"
      "unat f3 = unat f + 3" "unat f4 = unat f + 4"
      using R unat_exists [of "unat f + 1"] unat_exists [of "unat f + 2"] unat_exists [of "unat f + 3"]
        unat_exists [of "unat f + 4"] by auto
    obtain s1 s2 s3 s4 s5 :: u64 where s: "unat s1 = unat s + unat r + 1"
      "unat s2 = unat s + unat r + unat g + 2" "unat s3 = unat s + 2 * unat r + unat g + 3"
      "unat s4 = unat s + 2 * unat r + 2 * unat g + 4" "unat s5 = unat s + 3 * unat r + 2 * unat g + 5"
      using R unat_exists [of "unat s + unat r + 1"] unat_exists [of "unat s + unat r + unat g + 2"]
        unat_exists [of "unat s + 2 * unat r + unat g + 3"]
        unat_exists [of "unat s + 2 * unat r + 2 * unat g + 4"]
        unat_exists [of "unat s + 3 * unat r + 2 * unat g + 5"] by auto
    define l where "l = \<lparr>ttl_partition = p, ttl_block_size = b, ttl_components =
      [\<lparr>ttc_kind = TapeIndexReplica, ttc_ordinal = 1, ttc_tape_file_number = f, ttc_start_lba = s, ttc_record_count = r\<rparr>,
       \<lparr>ttc_kind = IndexSeparationExtent, ttc_ordinal = 1, ttc_tape_file_number = f1, ttc_start_lba = s1, ttc_record_count = g\<rparr>,
       \<lparr>ttc_kind = TapeIndexReplica, ttc_ordinal = 2, ttc_tape_file_number = f2, ttc_start_lba = s2, ttc_record_count = r\<rparr>,
       \<lparr>ttc_kind = IndexSeparationExtent, ttc_ordinal = 2, ttc_tape_file_number = f3, ttc_start_lba = s3, ttc_record_count = g\<rparr>,
       \<lparr>ttc_kind = TapeIndexReplica, ttc_ordinal = 3, ttc_tape_file_number = f4, ttc_start_lba = s4, ttc_record_count = r\<rparr>],
      ttl_expected_eod_lba = s5\<rparr>"
    have "TerminalTailLayout_validate l = Inr ()"
      using R f s unfolding l_def by (subst validate_five) (auto simp: component_is_def follows_def)
    from new_builds [OF _ this] have "TerminalTailLayout_new p b f s r g = Inr l"
      by (simp add: l_def)
    then show "\<exists>l. TerminalTailLayout_new p b f s r g = Inr l" ..
  qed
  show "TerminalTailLayout_new p b f s r g = Inr l \<longrightarrow> ?files \<and> ?starts"
  proof
    assume "TerminalTailLayout_new p b f s r g = Inr l"
    then obtain a b' c d e where n: "ttl_components l = [a, b', c, d, e]"
      "TerminalTailLayout_validate l = Inr ()" "ttl_partition l = p" "ttl_block_size l = b"
      "ttc_tape_file_number a = f" "ttc_start_lba a = s" "ttc_record_count a = r" "ttc_record_count b' = g"
      by (rule new_five)
    note v = n(2) [unfolded validate_five [OF n(1)]]
    have "[0..<5] = [0, 1, 2, 3, 4 :: nat]" by (simp add: upt_rec)
    then show "?files \<and> ?starts"
      using v n(5-8) by (simp add: n(1) follows_def component_is_def)
  qed
qed

theorem terminal_layout_exact_witness:
  "\<exists>l. TerminalTailLayout_new 0 262144 7 100 3 4096 = Inr l \<and>
     map (\<lambda>c. unat (ttc_start_lba c)) (ttl_components l) @ [unat (ttl_expected_eod_lba l)] =
       [100, 104, 4201, 4205, 8302, 8306]"
proof -
  have "(0 :: u32) = 0 \<and> 262144 \<in> set TERMINAL_INDEX_BLOCK_SIZES \<and> 2 \<le> (3 :: u64) \<and> 2 \<le> (4096 :: u64) \<and>
      unat (7 :: u64) + 4 < 2 ^ 64 \<and>
      unat (100 :: u64) + 3 * unat (3 :: u64) + 2 * unat (4096 :: u64) + 5 < 2 ^ 64"
    by (simp add: TERMINAL_INDEX_BLOCK_SIZES_def)
  then obtain l where l: "TerminalTailLayout_new 0 262144 7 100 3 4096 = Inr l"
    using terminal_layout_exact by metis
  then show ?thesis using terminal_layout_exact [of 0 262144 7 100 3 4096 l] by simp
qed

section \<open>Progress through the tail\<close>

text \<open>The components that remain to be written, each step moving to the successor state.\<close>

function tail_schedule :: "TerminalTailProgress \<Rightarrow> nat list" where
  "tail_schedule progress =
     (case (next_component_index progress, successor progress) of
        (Some index, Some next) \<Rightarrow> index # tail_schedule next
      | _ \<Rightarrow> [])"
  by pat_completeness auto
termination
proof (relation "measure (\<lambda>p. case next_component_index p of Some i \<Rightarrow> 5 - i | None \<Rightarrow> 0)")
  fix p i q sa x1 x2
  assume "(sa, q) = (next_component_index p, successor p)" "sa = Some x1" "q = Some x2"
  then show "(x2, p) \<in> measure (\<lambda>p. case next_component_index p of Some i \<Rightarrow> 5 - i | None \<Rightarrow> 0)"
    by (cases p) auto
qed simp


declare tail_schedule.simps [simp del]

lemma tail_schedule_simps [simp]:
  "tail_schedule AfterReplicaC = []" "tail_schedule AfterSeparationBc = [4]"
  "tail_schedule AfterReplicaB = [3, 4]" "tail_schedule AfterSeparationAb = [2, 3, 4]"
  "tail_schedule AfterReplicaA = [1, 2, 3, 4]" "tail_schedule BeforeReplicaA = [0, 1, 2, 3, 4]"
  by (simp_all add: tail_schedule.simps)

text \<open>C29: From any durable progress state the writer finishes: the components still to be written are
  those of the plan from the next index on, each once and in plan order, so at most five steps
  remain and none is repeated; and the number of completed replicas that a state reports is the
  number of replica components before that index in every valid plan.\<close>

theorem tail_progress_terminates:
  assumes "length (ttl_components l) = 5" "TerminalTailLayout_validate l = Inr ()"
    and k: "k = (case next_component_index p of Some i \<Rightarrow> i | None \<Rightarrow> TERMINAL_TAIL_COMPONENT_COUNT)"
  shows "tail_schedule p = [k..<TERMINAL_TAIL_COMPONENT_COUNT] \<and>
    unat (completed_replicas p) =
      length (filter (\<lambda>c. ttc_kind c = TapeIndexReplica) (take k (ttl_components l)))"
proof -
  obtain a b c d e where cs: "ttl_components l = [a, b, c, d, e]"
    using five_components [OF assms(1)] .
  then have "ttc_kind a = TapeIndexReplica" "ttc_kind b = IndexSeparationExtent"
    "ttc_kind c = TapeIndexReplica" "ttc_kind d = IndexSeparationExtent" "ttc_kind e = TapeIndexReplica"
    using assms(2) by (simp_all add: validate_five [OF cs] component_is_def)
  moreover have "[0..<5] = [0, 1, 2, 3, 4 :: nat]" "[Suc 0..<5] = [1, 2, 3, 4]" by (simp_all add: upt_rec)
  ultimately show ?thesis
    by (cases p) (simp_all add: k cs TERMINAL_TAIL_COMPONENT_COUNT_def)
qed

theorem tail_progress_terminates_witness:
  "tail_schedule AfterSeparationAb = [2..<5] \<and>
   unat (completed_replicas AfterSeparationAb) =
     length (filter (\<lambda>c. ttc_kind c = TapeIndexReplica) (take 2 (ttl_components sample_layout)))"
  using tail_progress_terminates [OF sample_layout_valid refl, of AfterSeparationAb]
  by (simp add: TERMINAL_TAIL_COMPONENT_COUNT_def)

end
