(* ===== verification/SidecarIndex.thy ===== *)
theory SidecarIndex
  imports Crc64 BlockBuffer
begin

text \<open>
  The index stream of a parity sidecar, from \<open>crates/remanence-parity/src/sidecar.rs\<close>: the scalar
  calculation of the index geometry, the packer that writes one entry after the other into header
  and spill blocks, and the parser that reads the entries back. The stream is described once, as
  the greedy division of the entries into blocks; the three pieces of code are shown to agree
  with it.
\<close>

section \<open>Geometry\<close>

definition SIDECAR_HEADER_LEN :: nat where
  "SIDECAR_HEADER_LEN = 0xC8"

definition PARITY_INDEX_ENTRY_LEN :: nat where
  "PARITY_INDEX_ENTRY_LEN = 16"

definition DATA_CRC_ENTRY_LEN :: nat where
  "DATA_CRC_ENTRY_LEN = 8"

record SidecarIndexCapacityLayout =
  sil_block_count :: u64
  sil_inline_entry_bytes :: u64

record IndexPackingState =
  ips_block_count :: u64
  ips_remaining_bytes :: u64
  ips_inline_entry_bytes :: u64
  ips_current_block_is_empty :: bool

definition pack_index_segment ::
  "IndexPackingState \<Rightarrow> u64 \<Rightarrow> u64 \<Rightarrow> u64 \<Rightarrow> IndexPackingState parity_result" where
  "pack_index_segment state spill_capacity entry_count entry_len =
     (if entry_count = 0 then Inr state
      else if entry_len = 0 \<or> spill_capacity div entry_len = 0
      then Inl (SidecarParse ''sidecar block_size cannot hold a complete index entry'')
      else
      let entries_here = min entry_count (ips_remaining_bytes state div entry_len)
      in if entries_here = 0 \<and> ips_current_block_is_empty state
      then Inl (SidecarParse ''sidecar block_size cannot hold a {entry_len}-byte index entry'')
      else
      rbind (ok_or (SidecarParse ''sidecar packed entry bytes overflow u64'')
        (checked_mul entries_here entry_len)) (\<lambda>bytes_here.
      let remaining_count = entry_count - entries_here;
          remaining_bytes = ips_remaining_bytes state - bytes_here
      in
      rbind (if ips_block_count state = 1
        then ok_or (SidecarParse ''sidecar inline index bytes overflow u64'')
          (checked_add (ips_inline_entry_bytes state) bytes_here)
        else Inr (ips_inline_entry_bytes state)) (\<lambda>inline_entry_bytes.
      if remaining_count = 0
      then Inr \<lparr>ips_block_count = ips_block_count state, ips_remaining_bytes = remaining_bytes,
                ips_inline_entry_bytes = inline_entry_bytes, ips_current_block_is_empty = False\<rparr>
      else
      let entries_per_spill = spill_capacity div entry_len;
          complete_spill_blocks = remaining_count div entries_per_spill;
          partial_spill_block = of_bool (remaining_count mod entries_per_spill \<noteq> 0)
      in
      rbind (ok_or (SidecarParse ''sidecar added index blocks overflow u64'')
        (checked_add complete_spill_blocks partial_spill_block)) (\<lambda>added_blocks.
      rbind (ok_or (SidecarParse ''sidecar index block count overflows u64'')
        (checked_add (ips_block_count state) added_blocks)) (\<lambda>block_count.
      rbind (ok_or (SidecarParse ''sidecar last-block entry offset overflows u64'')
        (Option.bind (checked_sub added_blocks 1) (\<lambda>blocks. checked_mul blocks entries_per_spill)))
        (\<lambda>entries_before_last.
      rbind (ok_or (SidecarParse ''sidecar last-block entry count underflows'')
        (checked_sub remaining_count entries_before_last)) (\<lambda>entries_in_last.
      rbind (ok_or (SidecarParse ''sidecar last-block entry bytes overflow u64'')
        (checked_mul entries_in_last entry_len)) (\<lambda>bytes_in_last.
      rbind (ok_or (SidecarParse ''sidecar last-block remaining bytes underflow'')
        (checked_sub spill_capacity bytes_in_last)) (\<lambda>remaining_bytes.
      Inr \<lparr>ips_block_count = block_count, ips_remaining_bytes = remaining_bytes,
           ips_inline_entry_bytes = inline_entry_bytes, ips_current_block_is_empty = False\<rparr>)))))))))"

definition checked_sidecar_index_capacity_layout ::
  "u64 \<Rightarrow> u64 \<Rightarrow> u64 \<Rightarrow> SidecarIndexCapacityLayout parity_result" where
  "checked_sidecar_index_capacity_layout block_size parity_entry_count data_crc_entry_count =
     (let header_len = word_of_nat SIDECAR_HEADER_LEN;
          trailing_crc_len = 8
      in
      rbind (ok_or (SidecarParse ''sidecar minimum block size overflows u64'')
        (checked_add header_len trailing_crc_len)) (\<lambda>minimum_block_size.
      if block_size < minimum_block_size
      then Inl (SidecarParse ''sidecar block_size smaller than header plus trailing CRC'')
      else
      let spill_capacity = block_size - trailing_crc_len;
          first_capacity = spill_capacity - header_len;
          initial = \<lparr>ips_block_count = 1, ips_remaining_bytes = first_capacity,
            ips_inline_entry_bytes = 0, ips_current_block_is_empty = True\<rparr>
      in
      rbind (pack_index_segment initial spill_capacity parity_entry_count
        (word_of_nat PARITY_INDEX_ENTRY_LEN)) (\<lambda>after_parity.
      rbind (pack_index_segment after_parity spill_capacity data_crc_entry_count
        (word_of_nat DATA_CRC_ENTRY_LEN)) (\<lambda>after_data.
      Inr \<lparr>sil_block_count = ips_block_count after_data,
           sil_inline_entry_bytes = ips_inline_entry_bytes after_data\<rparr>))))"

section \<open>Packing entries\<close>

record ParityShardIndexEntry =
  psi_stripe_index :: u32
  psi_parity_index :: u16
  psi_parity_shard_crc64 :: u64

record SidecarIndex =
  si_parity_entries :: "ParityShardIndexEntry list"
  si_data_shard_crc64s :: "u64 list"

datatype EntryKind = Parity | Data

definition entry_kinds :: "nat \<Rightarrow> nat \<Rightarrow> EntryKind list" where
  "entry_kinds parity_count data_count = replicate parity_count Parity @ replicate data_count Data"

fun entry_len :: "EntryKind \<Rightarrow> nat" where
  "entry_len Parity = PARITY_INDEX_ENTRY_LEN"
| "entry_len Data = DATA_CRC_ENTRY_LEN"

definition block_start :: "nat \<Rightarrow> nat" where
  "block_start block_index = (if block_index = 0 then SIDECAR_HEADER_LEN else 0)"

definition write_parity_entry :: "ParityShardIndexEntry \<Rightarrow> bytes \<Rightarrow> nat \<Rightarrow> bytes" where
  "write_parity_entry entry block offset =
     copy_at (offset + 8) (le_bytes 8 (psi_parity_shard_crc64 entry))
       (copy_at (offset + 6) (le_bytes 2 (0 :: u16))
         (copy_at (offset + 4) (le_bytes 2 (psi_parity_index entry))
           (copy_at offset (le_bytes 4 (psi_stripe_index entry)) block)))"

definition write_trailing_crc :: "bytes \<Rightarrow> bytes" where
  "write_trailing_crc block =
     (let crc_offset = length block - 8
      in copy_at crc_offset (le_bytes 8 (crc64_xz (take crc_offset block))) block)"

text \<open>The body of the packing loop; its state is the blocks, the current block and offset, and the
  positions in the two entry lists.\<close>

definition pack_entry ::
  "nat \<Rightarrow> SidecarIndex \<Rightarrow> bytes list \<times> nat \<times> nat \<times> nat \<times> nat \<Rightarrow> EntryKind \<Rightarrow>
     (bytes list \<times> nat \<times> nat \<times> nat \<times> nat) parity_result" where
  "pack_entry block_size index = (\<lambda>(blocks, block_index, offset, parity_i, data_i) kind.
     let len = entry_len kind;
         limit = block_size - 8
     in
     rbind (if offset + len > limit
       then
         if offset = block_start block_index
         then Inl (SidecarParse ''sidecar block_size {block_size} cannot hold a {len}-byte index entry'')
         else
           let blocks = (if block_index > 0
                 then blocks[block_index := write_trailing_crc (blocks ! block_index)] else blocks)
           in Inr (blocks @ [replicate block_size 0], block_index + 1, 0)
       else Inr (blocks, block_index, offset)) (\<lambda>(blocks, block_index, offset).
     case kind of
       Parity \<Rightarrow> Inr (blocks[block_index :=
           write_parity_entry (si_parity_entries index ! parity_i) (blocks ! block_index) offset],
         block_index, offset + len, parity_i + 1, data_i)
     | Data \<Rightarrow> Inr (blocks[block_index :=
           copy_at offset (le_bytes 8 (si_data_shard_crc64s index ! data_i)) (blocks ! block_index)],
         block_index, offset + len, parity_i, data_i + 1)))"

definition pack_index_blocks :: "nat \<Rightarrow> SidecarIndex \<Rightarrow> bytes list parity_result" where
  "pack_index_blocks block_size index =
     rbind (try_fold (pack_entry block_size index)
         ([replicate block_size 0], 0, SIDECAR_HEADER_LEN, 0, 0)
         (entry_kinds (length (si_parity_entries index)) (length (si_data_shard_crc64s index))))
       (\<lambda>(blocks, _). Inr (take 1 blocks @ map write_trailing_crc (drop 1 blocks)))"

section \<open>Parsing entries\<close>

datatype SidecarCopyKind = Primary | Tail

record SidecarHeader =
  sh_magic :: bytes
  sh_tape_uuid :: bytes
  sh_epoch_id :: u64
  sh_k :: u16
  sh_m :: u16
  sh_stripes_per_epoch :: u32
  sh_block_size :: u32
  sh_schema_version :: u32
  sh_protected_ordinal_start :: u64
  sh_protected_ordinal_end_exclusive :: u64
  sh_logical_shard_count :: u64
  sh_real_data_shard_count :: u64
  sh_parity_block_count :: u64
  sh_data_crc_count :: u64
  sh_shard_index_block_count :: u64
  sh_inline_index_entry_bytes :: u64
  sh_sidecar_total_block_count :: u64
  sh_primary_header_start_block :: u64
  sh_tail_header_start_block :: u64
  sh_footer_block_index :: u64
  sh_copy_kind :: SidecarCopyKind
  sh_copy_generation :: u32
  sh_canonical_metadata_hash :: bytes
  sh_header_crc64 :: u64
  sh_block0_crc64 :: u64

definition sidecar_ensure_zero_filled :: "bytes \<Rightarrow> string \<Rightarrow> unit parity_result" where
  "sidecar_ensure_zero_filled bs label =
     (if list_ex (\<lambda>b. b \<noteq> 0) bs
      then Inl (SidecarParse (label @ '' contains non-zero byte at offset {pos}'')) else Inr ())"

text \<open>Where the next entry of \<open>len\<close> bytes starts: in the current block or, after its padding, in the
  next one.\<close>

definition locate_entry ::
  "nat \<Rightarrow> nat \<Rightarrow> bytes list \<Rightarrow> nat \<times> nat \<times> nat \<Rightarrow> nat \<Rightarrow> (nat \<times> nat \<times> nat) parity_result" where
  "locate_entry crc_offset h blocks = (\<lambda>(block_index, offset, limit) len.
     if offset + len > limit
     then
       rbind (sidecar_ensure_zero_filled
         (slice offset (crc_offset - offset) (blocks ! block_index)) ''sidecar index padding'') (\<lambda>_.
       if block_index + 1 \<ge> h
       then Inl (SidecarParse ''sidecar index entries exceed declared index blocks'')
       else Inr (block_index + 1, 0, crc_offset))
     else Inr (block_index, offset, limit))"

definition parse_entry ::
  "nat \<Rightarrow> nat \<Rightarrow> bytes list \<Rightarrow>
     (nat \<times> nat \<times> nat) \<times> ParityShardIndexEntry list \<times> u64 list \<Rightarrow> EntryKind \<Rightarrow>
     ((nat \<times> nat \<times> nat) \<times> ParityShardIndexEntry list \<times> u64 list) parity_result" where
  "parse_entry crc_offset h blocks = (\<lambda>(cursor, parity_entries, data_shard_crc64s) kind.
     let len = entry_len kind
     in
     rbind (locate_entry crc_offset h blocks cursor len) (\<lambda>(block_index, offset, limit).
     let block = blocks ! block_index
     in case kind of
       Parity \<Rightarrow>
         if le_word (slice (offset + 6) 2 block) \<noteq> (0 :: u16)
         then Inl (SidecarParse ''sidecar parity index reserved field non-zero: 0x{reserved:04x}'')
         else Inr ((block_index, offset + len, limit),
           parity_entries @ [\<lparr>psi_stripe_index = le_word (slice offset 4 block),
             psi_parity_index = le_word (slice (offset + 4) 2 block),
             psi_parity_shard_crc64 = le_word (slice (offset + 8) 8 block)\<rparr>],
           data_shard_crc64s)
     | Data \<Rightarrow> Inr ((block_index, offset + len, limit), parity_entries,
         data_shard_crc64s @ [le_word (slice offset 8 block)])))"

definition parse_index_entries :: "SidecarHeader \<Rightarrow> bytes list \<Rightarrow> SidecarIndex parity_result" where
  "parse_index_entries header blocks =
     (let crc_offset = unat (sh_block_size header) - 8;
          h = unat (sh_shard_index_block_count header);
          inline_end = SIDECAR_HEADER_LEN + unat (sh_inline_index_entry_bytes header)
      in if inline_end \<ge> 2 ^ 64 then Inl (SidecarParse ''sidecar inline index end overflows usize'')
      else
      rbind (try_fold (parse_entry crc_offset h blocks) ((0, SIDECAR_HEADER_LEN, inline_end), [], [])
        (entry_kinds (unat (sh_parity_block_count header)) (unat (sh_data_crc_count header))))
      (\<lambda>((block_index, offset, _), parity_entries, data_shard_crc64s).
      rbind (sidecar_ensure_zero_filled (slice offset (crc_offset - offset) (blocks ! block_index))
        ''sidecar index padding'') (\<lambda>_.
      rbind (try_fold (\<lambda>_ block. sidecar_ensure_zero_filled (take crc_offset block)
          ''sidecar unused index block'') () (drop (block_index + 1) (take h blocks))) (\<lambda>_.
      Inr \<lparr>si_parity_entries = parity_entries, si_data_shard_crc64s = data_shard_crc64s\<rparr>))))"


section \<open>The greedy division into blocks\<close>

text \<open>Entries go into the current block while they fit and open a new block otherwise: \<open>rem\<close> bytes are
  left in the current block, a new block holds \<open>spill\<close> bytes.\<close>

fun greedy :: "nat \<Rightarrow> nat \<Rightarrow> bytes list \<Rightarrow> bytes list list" where
  "greedy spill rem [] = [[]]"
| "greedy spill rem (e # es) =
     (if length e \<le> rem
      then (case greedy spill (rem - length e) es of c # cs \<Rightarrow> (e # c) # cs | [] \<Rightarrow> [])
      else [] # (case greedy spill (spill - length e) es of c # cs \<Rightarrow> (e # c) # cs | [] \<Rightarrow> []))"

lemma greedy_Cons: "\<exists>c cs. greedy spill rem es = c # cs"
  by (induction spill rem es rule: greedy.induct) (auto split: list.splits)

lemma greedy_fits:
  "list_all (\<lambda>e. length e \<le> spill) es \<Longrightarrow> greedy spill rem es = c # cs \<Longrightarrow>
    length (concat c) \<le> rem \<and> list_all (\<lambda>c. length (concat c) \<le> spill) cs \<and>
    concat (concat (c # cs)) = concat es"
proof (induction spill rem es arbitrary: c cs rule: greedy.induct)
  case (2 spill rem e es)
  obtain c' cs' where g: "greedy spill (if length e \<le> rem then rem - length e else spill - length e) es = c' # cs'"
    using greedy_Cons by blast
  show ?case using 2(1,2) 2(3,4) g by (cases "length e \<le> rem") auto
qed auto

definition parity_entry_bytes :: "ParityShardIndexEntry \<Rightarrow> bytes" where
  "parity_entry_bytes e = le_bytes 4 (psi_stripe_index e) @ le_bytes 2 (psi_parity_index e) @
     le_bytes 2 (0 :: u16) @ le_bytes 8 (psi_parity_shard_crc64 e)"

definition index_entries :: "SidecarIndex \<Rightarrow> bytes list" where
  "index_entries index = map parity_entry_bytes (si_parity_entries index) @
     map (le_bytes 8) (si_data_shard_crc64s index)"

lemma length_parity_entry_bytes [simp]: "length (parity_entry_bytes e) = 16"
  by (simp add: parity_entry_bytes_def)

lemma copy_at_append: "copy_at (off + length a) b (copy_at off a buf) = copy_at off (a @ b) buf"
  by (cases "off \<le> length buf") (simp_all add: copy_at_def ac_simps)

lemma write_parity_entry_flat: "write_parity_entry e block off = copy_at off (parity_entry_bytes e) block"
proof -
  let ?a = "le_bytes 4 (psi_stripe_index e)" and ?b = "le_bytes 2 (psi_parity_index e)"
  have "copy_at (off + 4) ?b (copy_at off ?a block) = copy_at off (?a @ ?b) block"
    using copy_at_append [of off ?a ?b block] by simp
  moreover have "copy_at (off + 6) (le_bytes 2 (0 :: u16)) (copy_at off (?a @ ?b) block) =
      copy_at off (?a @ ?b @ le_bytes 2 (0 :: u16)) block"
    using copy_at_append [of off "?a @ ?b" "le_bytes 2 (0 :: u16)" block] by simp
  moreover have "copy_at (off + 8) (le_bytes 8 (psi_parity_shard_crc64 e))
      (copy_at off (?a @ ?b @ le_bytes 2 (0 :: u16)) block) = copy_at off (parity_entry_bytes e) block"
    using copy_at_append [of off "?a @ ?b @ le_bytes 2 (0 :: u16)" "le_bytes 8 (psi_parity_shard_crc64 e)" block]
    by (simp add: parity_entry_bytes_def)
  ultimately show ?thesis by (simp add: write_parity_entry_def)
qed

text \<open>One step of the packing loop on the bytes of the entry, without the positions in the two lists.\<close>

definition place_entry ::
  "nat \<Rightarrow> bytes list \<times> nat \<times> nat \<Rightarrow> bytes \<Rightarrow> (bytes list \<times> nat \<times> nat) parity_result" where
  "place_entry block_size = (\<lambda>(blocks, block_index, offset) e.
     rbind (if offset + length e > block_size - 8
       then
         if offset = block_start block_index
         then Inl (SidecarParse ''sidecar block_size {block_size} cannot hold a {len}-byte index entry'')
         else
           let blocks = (if block_index > 0
                 then blocks[block_index := write_trailing_crc (blocks ! block_index)] else blocks)
           in Inr (blocks @ [replicate block_size 0], block_index + 1, 0)
       else Inr (blocks, block_index, offset)) (\<lambda>(blocks, block_index, offset).
     Inr (blocks[block_index := copy_at offset e (blocks ! block_index)], block_index, offset + length e)))"

definition crc_tail :: "bytes list \<Rightarrow> bytes list" where
  "crc_tail blocks = take 1 blocks @ map write_trailing_crc (drop 1 blocks)"

lemma write_trailing_crc_length [simp]: "8 \<le> length b \<Longrightarrow> length (write_trailing_crc b) = length b"
  by (simp add: write_trailing_crc_def Let_def)

lemma write_trailing_crc_idem: "8 \<le> length b \<Longrightarrow> write_trailing_crc (write_trailing_crc b) = write_trailing_crc b"
  by (simp add: write_trailing_crc_def Let_def take_copy_after)
    (rule nth_equalityI, auto simp: nth_copy_at)

lemma crc_tail_inner:
  "8 \<le> length x \<Longrightarrow> pre \<noteq> [] \<Longrightarrow> crc_tail (pre @ write_trailing_crc x # ys) = crc_tail (pre @ x # ys)"
  by (cases pre) (simp_all add: crc_tail_def write_trailing_crc_idem)

lemma copy_at_Nil [simp]: "off \<le> length buf \<Longrightarrow> copy_at off [] buf = buf"
  by (simp add: copy_at_def)

lemma place_entries:
  assumes "8 \<le> b" "list_all (\<lambda>e. length e \<le> b - 8 \<and> e \<noteq> []) es" "length cur = b" "off \<le> b - 8"
    and "block_start (length pre) \<le> off"
    and "es \<noteq> [] \<Longrightarrow> off \<noteq> block_start (length pre) \<or> off + length (hd es) \<le> b - 8"
    and "greedy (b - 8) (b - 8 - off) es = c # cs"
  shows "\<exists>blocks' rest. try_fold (place_entry b) (pre @ [cur], length pre, off) es = Inr (blocks', rest) \<and>
    crc_tail blocks' =
      crc_tail (pre @ copy_at off (concat c) cur # map (\<lambda>c. copy_at 0 (concat c) (replicate b 0)) cs)"
  using assms(2-)
proof (induction es arbitrary: pre cur off c cs)
  case Nil
  then show ?case by simp
next
  case (Cons e es)
  have e: "length e \<le> b - 8" "e \<noteq> []" "list_all (\<lambda>e. length e \<le> b - 8 \<and> e \<noteq> []) es"
    using Cons.prems(1) by simp_all
  have fits: "list_all (\<lambda>e. length e \<le> b - 8) es" using e(3) by (simp add: list_all_iff)
  show ?case
  proof (cases "off + length e \<le> b - 8")
    case True
    obtain c' where g: "greedy (b - 8) (b - 8 - (off + length e)) es = c' # cs" "c = e # c'"
    proof -
      obtain c1 cs1 where g1: "greedy (b - 8) (b - 8 - off - length e) es = c1 # cs1"
        using greedy_Cons by blast
      moreover have "length e \<le> b - 8 - off" using True by linarith
      ultimately have "c = e # c1" "cs = cs1" using Cons.prems(6) by simp_all
      then show thesis using that [of c1] g1 by (simp add: add.assoc)
    qed
    have step: "place_entry b (pre @ [cur], length pre, off) e =
        Inr (pre @ [copy_at off e cur], length pre, off + length e)"
      using True by (simp add: place_entry_def)
    have "off + length e \<noteq> block_start (length pre)" using Cons.prems(4) e(2) by (cases e) auto
    then have "\<exists>blocks' rest. try_fold (place_entry b) (pre @ [copy_at off e cur], length pre, off + length e) es
          = Inr (blocks', rest) \<and>
        crc_tail blocks' = crc_tail (pre @ copy_at (off + length e) (concat c') (copy_at off e cur) #
          map (\<lambda>c. copy_at 0 (concat c) (replicate b 0)) cs)"
      using Cons.IH [OF e(3), of "copy_at off e cur" "off + length e" pre c' cs] Cons.prems g(1) True
        assms(1) by simp
    then show ?thesis by (simp add: step copy_at_append g(2))
  next
    case False
    obtain c' cs' where g: "greedy (b - 8) (b - 8 - length e) es = c' # cs'" "c = []" "cs = (e # c') # cs'"
    proof -
      obtain c1 cs1 where g1: "greedy (b - 8) (b - 8 - length e) es = c1 # cs1"
        using greedy_Cons by blast
      moreover have "\<not> length e \<le> b - 8 - off" using False Cons.prems(3) by linarith
      ultimately have "c = []" "cs = (e # c1) # cs1" using Cons.prems(6) by simp_all
      then show thesis using that g1 by simp
    qed
    let ?cur = "if length pre > 0 then write_trailing_crc cur else cur"
    have "off \<noteq> block_start (length pre)" using Cons.prems(5) False by simp
    then have step: "place_entry b (pre @ [cur], length pre, off) e =
        Inr ((pre @ [?cur]) @ [copy_at 0 e (replicate b 0)], length (pre @ [?cur]), length e)"
      using False by (simp add: place_entry_def Let_def list_update_append nth_append)
    have "\<exists>blocks' rest. try_fold (place_entry b)
          ((pre @ [?cur]) @ [copy_at 0 e (replicate b 0)], length (pre @ [?cur]), length e) es
          = Inr (blocks', rest) \<and>
        crc_tail blocks' = crc_tail ((pre @ [?cur]) @ copy_at (length e) (concat c') (copy_at 0 e (replicate b 0)) #
          map (\<lambda>c. copy_at 0 (concat c) (replicate b 0)) cs')"
      using Cons.IH [OF e(3), of "copy_at 0 e (replicate b 0)" "length e" "pre @ [?cur]" c' cs'] g(1) e(1,2)
        assms(1) by (simp add: block_start_def)
    moreover have "copy_at (length e) (concat c') (copy_at 0 e (replicate b 0)) =
        copy_at 0 (concat (e # c')) (replicate b 0)"
      using copy_at_append [of 0 e "concat c'" "replicate b 0"] by simp
    moreover have "crc_tail ((pre @ [?cur]) @ zs) = crc_tail (pre @ cur # zs)" for zs
      using crc_tail_inner [of cur pre zs] Cons.prems(2) assms(1) by (cases pre) simp_all
    ultimately show ?thesis
      using Cons.prems(2,3) unfolding try_fold.simps step rbind_Inr by (simp add: g)
  qed
qed


lemma pack_parity:
  "i + n = length (si_parity_entries index) \<Longrightarrow>
   try_fold (pack_entry b index) (blocks, bi, off, i, d) (replicate n Parity @ ks) =
     rbind (try_fold (place_entry b) (blocks, bi, off)
         (map parity_entry_bytes (drop i (si_parity_entries index))))
       (\<lambda>(blocks, bi, off). try_fold (pack_entry b index) (blocks, bi, off, i + n, d) ks)"
proof (induction n arbitrary: blocks bi off i)
  case (Suc n)
  then have i: "i < length (si_parity_entries index)" by simp
  let ?e = "si_parity_entries index ! i"
  have step: "pack_entry b index (blocks, bi, off, i, d) Parity =
      rbind (place_entry b (blocks, bi, off) (parity_entry_bytes ?e))
        (\<lambda>(blocks, bi, off). Inr (blocks, bi, off, Suc i, d))"
    by (auto simp: pack_entry_def place_entry_def PARITY_INDEX_ENTRY_LEN_def write_parity_entry_flat Let_def)
  show ?case
    using Suc i unfolding Cons_nth_drop_Suc [OF i, symmetric]
    by (cases "place_entry b (blocks, bi, off) (parity_entry_bytes ?e)") (auto simp: step)
qed simp

lemma pack_data:
  "j + n = length (si_data_shard_crc64s index) \<Longrightarrow>
   try_fold (pack_entry b index) (blocks, bi, off, p, j) (replicate n Data) =
     rbind (try_fold (place_entry b) (blocks, bi, off)
         (map (le_bytes 8) (drop j (si_data_shard_crc64s index))))
       (\<lambda>(blocks, bi, off). Inr (blocks, bi, off, p, j + n))"
proof (induction n arbitrary: blocks bi off j)
  case (Suc n)
  then have j: "j < length (si_data_shard_crc64s index)" by simp
  let ?e = "le_bytes 8 (si_data_shard_crc64s index ! j)"
  have step: "pack_entry b index (blocks, bi, off, p, j) Data =
      rbind (place_entry b (blocks, bi, off) ?e) (\<lambda>(blocks, bi, off). Inr (blocks, bi, off, p, Suc j))"
    by (auto simp: pack_entry_def place_entry_def DATA_CRC_ENTRY_LEN_def Let_def)
  show ?case
    using Suc j unfolding Cons_nth_drop_Suc [OF j, symmetric]
    by (cases "place_entry b (blocks, bi, off) ?e") (auto simp: step)
qed simp

lemma pack_index_blocks_place:
  "pack_index_blocks b index =
     rbind (try_fold (place_entry b) ([replicate b 0], 0, SIDECAR_HEADER_LEN) (index_entries index))
       (\<lambda>(blocks, _). Inr (crc_tail blocks))"
proof -
  let ?P = "length (si_parity_entries index)" and ?D = "length (si_data_shard_crc64s index)"
  have "try_fold (pack_entry b index) ([replicate b 0], 0, SIDECAR_HEADER_LEN, 0, 0) (entry_kinds ?P ?D) =
      rbind (try_fold (place_entry b) ([replicate b 0], 0, SIDECAR_HEADER_LEN) (index_entries index))
        (\<lambda>(blocks, bi, off). Inr (blocks, bi, off, ?P, ?D))"
    unfolding entry_kinds_def index_entries_def try_fold_append
    using pack_parity [of 0 ?P index b _ _ _ 0 "[]"] pack_data [of 0 ?D index b]
    by (simp add: rbind_def split: sum.splits)
  then show ?thesis
    by (simp add: pack_index_blocks_def crc_tail_def rbind_def split: sum.splits)
qed


lemma packed_blocks:
  assumes "0xD0 \<le> b" "list_all (\<lambda>e. length e \<le> b - 8 \<and> e \<noteq> []) (index_entries index)"
    and "index_entries index \<noteq> [] \<Longrightarrow> 0xC8 + length (hd (index_entries index)) \<le> b - 8"
    and "greedy (b - 8) (b - 0xD0) (index_entries index) = c # cs"
  shows "pack_index_blocks b index = Inr (copy_at 0xC8 (concat c) (replicate b 0) #
    map (\<lambda>c. write_trailing_crc (copy_at 0 (concat c) (replicate b 0))) cs)"
proof -
  have "b - 8 - 0xC8 = b - 0xD0" "0xC8 \<le> b - 8" using assms(1) by simp_all
  then obtain blocks' rest where "try_fold (place_entry b) ([] @ [replicate b 0], length ([] :: bytes list), 0xC8)
        (index_entries index) = Inr (blocks', rest)"
    "crc_tail blocks' = crc_tail ([] @ copy_at 0xC8 (concat c) (replicate b 0) #
      map (\<lambda>c. copy_at 0 (concat c) (replicate b 0)) cs)"
    using place_entries [of b "index_entries index" "replicate b 0" "0xC8" "[]" c cs] assms
    by (auto simp: block_start_def SIDECAR_HEADER_LEN_def)
  then show ?thesis
    unfolding pack_index_blocks_place by (simp add: SIDECAR_HEADER_LEN_def crc_tail_def)
qed

section \<open>Reading a packed index\<close>

definition chunk_at :: "nat \<Rightarrow> bytes \<Rightarrow> nat \<Rightarrow> bytes list \<Rightarrow> bool" where
  "chunk_at crc x off c \<longleftrightarrow> off + length (concat c) \<le> crc \<and>
     slice off (length (concat c)) x = concat c \<and>
     list_all (\<lambda>b. b = 0) (slice (off + length (concat c)) (crc - (off + length (concat c))) x)"

definition reads :: "nat \<Rightarrow> nat \<Rightarrow> bytes list \<Rightarrow> nat \<times> nat \<times> nat \<Rightarrow> bytes list \<Rightarrow> bool" where
  "reads crc h blocks = (\<lambda>(bi, off, limit) es. \<exists>rem c cs x xs.
     greedy crc rem es = c # cs \<and> drop bi (take h blocks) = x # xs \<and> chunk_at crc x off c \<and>
     list_all2 (\<lambda>x c. chunk_at crc x 0 c) xs cs \<and>
     (limit = off + length (concat c) \<or> limit = crc \<and> rem = crc - off))"

lemma sidecar_ensure_zero_filled_Inr [simp]:
  "sidecar_ensure_zero_filled bs label = Inr () \<longleftrightarrow> list_all (\<lambda>b. b = 0) bs"
  by (auto simp: sidecar_ensure_zero_filled_def list_ex_iff list_all_iff)

lemma nth_drop_take:
  "drop bi (take h blocks) = x # xs \<Longrightarrow> blocks ! bi = x \<and> drop (Suc bi) (take h blocks) = xs \<and>
    bi < h \<and> bi + length (x # xs) \<le> h"
proof -
  assume d: "drop bi (take h blocks) = x # xs"
  then have len: "bi < length (take h blocks)" by (metis drop_all list.distinct(1) not_le)
  then have "take h blocks ! bi = x" "drop (Suc bi) (take h blocks) = xs"
    using d by (metis Cons_nth_drop_Suc list.inject)+
  moreover have "length (drop bi (take h blocks)) = length (x # xs)" using d by simp
  ultimately show ?thesis using len by auto
qed

lemma chunk_at_Cons:
  assumes "chunk_at crc x off (e # c)"
  shows "slice off (length e) x = e" "chunk_at crc x (off + length e) c" "off + length e \<le> crc"
proof -
  have s: "slice off (length e + length (concat c)) x = e @ concat c"
    using assms by (simp add: chunk_at_def)
  then have "take (length e) (slice off (length e + length (concat c)) x) = e" by simp
  then show "slice off (length e) x = e" by (simp add: slice_def)
  have "drop (length e) (slice off (length e + length (concat c)) x) = concat c" using s by simp
  then have "slice (off + length e) (length (concat c)) x = concat c"
    by (simp add: slice_def drop_take add.commute)
  then show "chunk_at crc x (off + length e) c" "off + length e \<le> crc"
    using assms by (simp_all add: chunk_at_def add.assoc)
qed

lemma reads_step:
  assumes "reads crc h blocks (bi, off, limit) (e # es)" "e \<noteq> []" "length e \<le> crc"
  shows "\<exists>bi' off' limit'. locate_entry crc h blocks (bi, off, limit) (length e) = Inr (bi', off', limit') \<and>
    slice off' (length e) (blocks ! bi') = e \<and> reads crc h blocks (bi', off' + length e, limit') es"
proof -
  obtain rem c cs x xs where r: "greedy crc rem (e # es) = c # cs" "drop bi (take h blocks) = x # xs"
    "chunk_at crc x off c" "list_all2 (\<lambda>x c. chunk_at crc x 0 c) xs cs"
    "limit = off + length (concat c) \<or> limit = crc \<and> rem = crc - off"
    using assms(1) unfolding reads_def by auto
  note d = nth_drop_take [OF r(2)]
  show ?thesis
  proof (cases "length e \<le> rem")
    case True
    obtain c' where g: "greedy crc (rem - length e) es = c' # cs" "c = e # c'"
      using r(1) True greedy_Cons [of crc "rem - length e" es] by auto
    note k = chunk_at_Cons [OF r(3) [unfolded g(2)]]
    have "off + length e \<le> limit" using r(5) k(3) by (auto simp: g(2))
    moreover have "reads crc h blocks (bi, off + length e, limit) es"
      unfolding reads_def prod.case
    proof (intro exI conjI)
      show "greedy crc (rem - length e) es = c' # cs" "drop bi (take h blocks) = x # xs"
        "chunk_at crc x (off + length e) c'" "list_all2 (\<lambda>x c. chunk_at crc x 0 c) xs cs"
        using g(1) r(2,4) k(2) by simp_all
      show "limit = off + length e + length (concat c') \<or> limit = crc \<and> rem - length e = crc - (off + length e)"
        using r(5) by (auto simp: g(2))
    qed
    ultimately show ?thesis using k(1) d by (simp add: locate_entry_def)
  next
    case False
    obtain c' cs' where g: "greedy crc (crc - length e) es = c' # cs'" "c = []" "cs = (e # c') # cs'"
      using r(1) False greedy_Cons [of crc "crc - length e" es] by auto
    obtain x' xs' where xs: "xs = x' # xs'" "chunk_at crc x' 0 (e # c')"
      "list_all2 (\<lambda>x c. chunk_at crc x 0 c) xs' cs'"
      using r(4) by (auto simp: g(3) list_all2_Cons2)
    note k = chunk_at_Cons [OF xs(2)]
    have "off + length e > limit" using r(5) False assms(2) by (auto simp: g(2))
    moreover have "list_all (\<lambda>b. b = 0) (slice off (crc - off) (blocks ! bi))"
      using r(3) d by (simp add: chunk_at_def g(2))
    moreover have "bi + 1 < h" using d by (simp add: xs(1))
    ultimately have "locate_entry crc h blocks (bi, off, limit) (length e) = Inr (bi + 1, 0, crc)"
      by (simp add: locate_entry_def)
    moreover have d': "drop (bi + 1) (take h blocks) = x' # xs'" using d by (simp add: xs(1))
    moreover have "reads crc h blocks (bi + 1, 0 + length e, crc) es"
      unfolding reads_def prod.case
      using g(1) d' k(2) xs(3) by (intro exI [of _ "crc - length e"] exI [of _ c'] exI [of _ cs']
        exI [of _ x'] exI [of _ xs']) simp
    ultimately show ?thesis using k(1) nth_drop_take [OF d'] by auto
  qed
qed


lemma parity_entry_fields:
  assumes "slice off 16 x = parity_entry_bytes e"
  shows "le_word (slice off 4 x) = psi_stripe_index e" "le_word (slice (off + 4) 2 x) = psi_parity_index e"
    "le_word (slice (off + 6) 2 x) = (0 :: u16)" "le_word (slice (off + 8) 8 x) = psi_parity_shard_crc64 e"
proof -
  have sub: "slice (off + i) n x = slice i n (parity_entry_bytes e)" if "i + n \<le> 16" for i n
    using arg_cong [OF assms, of "slice i n"] that by (simp add: slice_def drop_take add.commute)
  have "slice 0 4 (parity_entry_bytes e) = le_bytes 4 (psi_stripe_index e)"
    "slice 4 2 (parity_entry_bytes e) = le_bytes 2 (psi_parity_index e)"
    "slice 6 2 (parity_entry_bytes e) = le_bytes 2 (0 :: u16)"
    "slice 8 8 (parity_entry_bytes e) = le_bytes 8 (psi_parity_shard_crc64 e)"
    by (simp_all add: slice_def parity_entry_bytes_def)
  then show "le_word (slice off 4 x) = psi_stripe_index e" "le_word (slice (off + 4) 2 x) = psi_parity_index e"
    "le_word (slice (off + 6) 2 x) = (0 :: u16)" "le_word (slice (off + 8) 8 x) = psi_parity_shard_crc64 e"
    using sub [of 0 4] sub [of 4 2] sub [of 6 2] sub [of 8 8] by (simp_all add: le_word_le_bytes_full)
qed

lemma parse_parity:
  "reads crc h blocks cursor (map parity_entry_bytes ps @ es) \<Longrightarrow> 16 \<le> crc \<Longrightarrow>
   \<exists>cursor'. reads crc h blocks cursor' es \<and>
     try_fold (parse_entry crc h blocks) (cursor, P, D) (replicate (length ps) Parity) =
       Inr (cursor', P @ ps, D)"
proof (induction ps arbitrary: cursor P)
  case Nil
  then show ?case by (intro exI [of _ cursor]) simp
next
  case (Cons p ps)
  obtain bi off limit where cur: "cursor = (bi, off, limit)" by (cases cursor) auto
  have "parity_entry_bytes p \<noteq> []" using length_parity_entry_bytes [of p] by (metis list.size(3) zero_neq_numeral)
  then obtain bi' off' limit' where s:
    "locate_entry crc h blocks (bi, off, limit) 16 = Inr (bi', off', limit')"
    "slice off' 16 (blocks ! bi') = parity_entry_bytes p"
    "reads crc h blocks (bi', off' + 16, limit') (map parity_entry_bytes ps @ es)"
    using reads_step [of crc h blocks bi off limit "parity_entry_bytes p" "map parity_entry_bytes ps @ es"]
      Cons.prems by (auto simp: cur)
  have "parse_entry crc h blocks (cursor, P, D) Parity = Inr ((bi', off' + 16, limit'), P @ [p], D)"
    using s(1) parity_entry_fields [OF s(2)]
    by (simp add: parse_entry_def cur PARITY_INDEX_ENTRY_LEN_def)
  then show ?case using Cons.IH [OF s(3) Cons.prems(2), of "P @ [p]"] by simp
qed

lemma parse_data:
  "reads crc h blocks cursor (map (le_bytes 8) ds) \<Longrightarrow> 8 \<le> crc \<Longrightarrow>
   \<exists>cursor'. reads crc h blocks cursor' [] \<and>
     try_fold (parse_entry crc h blocks) (cursor, P, D) (replicate (length ds) Data) =
       Inr (cursor', P, D @ (ds :: u64 list))"
proof (induction ds arbitrary: cursor D)
  case Nil
  then show ?case by (intro exI [of _ cursor]) simp
next
  case (Cons d ds)
  obtain bi off limit where cur: "cursor = (bi, off, limit)" by (cases cursor) auto
  have "le_bytes 8 d \<noteq> []" using length_le_bytes [of 8 d] by (metis list.size(3) zero_neq_numeral)
  then obtain bi' off' limit' where s:
    "locate_entry crc h blocks (bi, off, limit) 8 = Inr (bi', off', limit')"
    "slice off' 8 (blocks ! bi') = le_bytes 8 d"
    "reads crc h blocks (bi', off' + 8, limit') (map (le_bytes 8) ds)"
    using reads_step [of crc h blocks bi off limit "le_bytes 8 d" "map (le_bytes 8) ds"]
      Cons.prems by (auto simp: cur)
  have "parse_entry crc h blocks (cursor, P, D) Data = Inr ((bi', off' + 8, limit'), P, D @ [d])"
    using s by (simp add: parse_entry_def cur DATA_CRC_ENTRY_LEN_def le_word_le_bytes_full)
  then show ?case using Cons.IH [OF s(3) Cons.prems(2), of "D @ [d]"] by simp
qed

lemma parse_index_entries_reads:
  assumes "reads crc h blocks (0, SIDECAR_HEADER_LEN, SIDECAR_HEADER_LEN + unat (sh_inline_index_entry_bytes header))
      (index_entries index)"
    and "crc = unat (sh_block_size header) - 8" "16 \<le> crc"
    and "h = unat (sh_shard_index_block_count header)"
    and "unat (sh_parity_block_count header) = length (si_parity_entries index)"
    and "unat (sh_data_crc_count header) = length (si_data_shard_crc64s index)"
    and "SIDECAR_HEADER_LEN + unat (sh_inline_index_entry_bytes header) < 2 ^ 64"
  shows "parse_index_entries header blocks = Inr index"
proof -
  let ?c = "(0, SIDECAR_HEADER_LEN, SIDECAR_HEADER_LEN + unat (sh_inline_index_entry_bytes header))"
  obtain c1 where c1: "reads crc h blocks c1 (map (le_bytes 8) (si_data_shard_crc64s index))"
    "try_fold (parse_entry crc h blocks) (?c, [], [])
      (replicate (length (si_parity_entries index)) Parity) = Inr (c1, si_parity_entries index, [])"
    using parse_parity [OF assms(1) [unfolded index_entries_def] assms(3), of "[]" "[]"] by auto
  obtain bi off limit where c2: "reads crc h blocks (bi, off, limit) []"
    "try_fold (parse_entry crc h blocks) (c1, si_parity_entries index, [])
      (replicate (length (si_data_shard_crc64s index)) Data) =
      Inr ((bi, off, limit), si_parity_entries index, si_data_shard_crc64s index)"
    using parse_data [OF c1(1), of "si_parity_entries index" "[]"] assms(3) by auto
  have fold: "try_fold (parse_entry crc h blocks) (?c, [], [])
      (entry_kinds (length (si_parity_entries index)) (length (si_data_shard_crc64s index))) =
      Inr ((bi, off, limit), si_parity_entries index, si_data_shard_crc64s index)"
    using c1(2) c2(2) by (simp add: entry_kinds_def try_fold_append)
  obtain x where x: "drop bi (take h blocks) = [x]" "chunk_at crc x off []"
    using c2(1) by (auto simp: reads_def)
  note d = nth_drop_take [OF x(1)]
  have zero: "list_all (\<lambda>b. b = 0) (slice off (crc - off) (blocks ! bi))"
    using x(2) d by (simp add: chunk_at_def)
  show ?thesis
    unfolding parse_index_entries_def Let_def assms(2,4) [symmetric] assms(5,6)
    using fold zero d assms(7) by (simp add: not_le)
qed

section \<open>The scalar geometry counts the greedy division\<close>

text \<open>One entry at a time, on the scalars only: blocks so far, room in the current block, bytes after
  the header of the first block.\<close>

fun place_len :: "nat \<Rightarrow> nat \<times> nat \<times> nat \<Rightarrow> nat \<Rightarrow> nat \<times> nat \<times> nat" where
  "place_len spill (cnt, rem, inl) len =
     (if len \<le> rem then (cnt, rem - len, if cnt = 1 then inl + len else inl)
      else (cnt + 1, spill - len, inl))"

lemma greedy_counts:
  "0 < cnt \<Longrightarrow> greedy spill rem es = c # cs \<Longrightarrow>
   \<exists>r. foldl (place_len spill) (cnt, rem, inl) (map length es) =
     (cnt + length cs, r, if cnt = 1 then inl + length (concat c) else inl)"
proof (induction spill rem es arbitrary: cnt inl c cs rule: greedy.induct)
  case (2 spill rem e es)
  show ?case
  proof (cases "length e \<le> rem")
    case True
    then obtain c' where g: "greedy spill (rem - length e) es = c' # cs" "c = e # c'"
      using 2(4) greedy_Cons [of spill "rem - length e" es] by auto
    show ?thesis
      using 2(1) [OF True 2(3) g(1), of "if cnt = 1 then inl + length e else inl"] True
      by (auto simp: g(2) add.assoc)
  next
    case False
    then obtain c' cs' where g: "greedy spill (spill - length e) es = c' # cs'" "c = []" "cs = (e # c') # cs'"
      using 2(4) greedy_Cons [of spill "spill - length e" es] by auto
    show ?thesis
      using 2(2) [OF False _ g(1), of "cnt + 1" inl] 2(3) False by (auto simp: g(2,3))
  qed
qed simp

lemma place_fitting:
  "n * len \<le> rem \<Longrightarrow> foldl (place_len spill) (cnt, rem, inl) (replicate n len) =
    (cnt, rem - n * len, if cnt = 1 then inl + n * len else inl)"
proof (induction n arbitrary: rem inl)
  case (Suc n)
  then have "n * len \<le> rem - len" "len \<le> rem" by (simp_all add: le_diff_conv2)
  then show ?case using Suc.IH [of "rem - len"] by (simp add: add.assoc)
qed simp

lemma ceil_step:
  fixes r e :: nat
  assumes "0 < e" "e < r"
  shows "(r + e - 1) div e = (r - e + e - 1) div e + 1"
proof -
  have "r + e - 1 = (r - e + e - 1) + e" using assms by simp
  then show ?thesis using assms(1) by (simp only: div_add_self2)
qed

lemma place_spilling:
  assumes "0 < len" "len \<le> spill" "rem < len" "0 < r" "0 < cnt"
  defines "e \<equiv> spill div len"
  shows "foldl (place_len spill) (cnt, rem, inl) (replicate r len) =
    (cnt + (r + e - 1) div e, spill - (r - ((r + e - 1) div e - 1) * e) * len, inl)"
  using assms(3-5)
proof (induction r arbitrary: cnt rem rule: less_induct)
  case (less r)
  have e: "0 < e" "e * len \<le> spill" using assms(1,2) by (simp_all add: e_def div_greater_zero_iff)
  have first: "foldl (place_len spill) (cnt, rem, inl) (replicate (Suc n) len) =
      foldl (place_len spill) (cnt + 1, spill - len, inl) (replicate n len)" for n
    using less.prems(1) by simp
  have block: "foldl (place_len spill) (cnt, rem, inl) (replicate (Suc n) len) =
      (cnt + 1, spill - Suc n * len, inl)" if "Suc n \<le> e" for n
  proof -
    have "Suc n * len \<le> spill" using that e(2) mult_le_mono1 [of "Suc n" e len] by linarith
    then have "n * len \<le> spill - len" by (simp add: le_diff_conv2 add.commute)
    then show ?thesis
      using place_fitting [of n len "spill - len" spill "cnt + 1" inl] less.prems(3) unfolding first by simp
  qed
  show ?case
  proof (cases "r \<le> e")
    case True
    obtain n where n: "r = Suc n" using less.prems(2) by (cases r) auto
    have "(r + e - 1) div e = 1" using True less.prems(2) by (intro div_nat_eqI) simp_all
    then show ?thesis using block [of n] True n by simp
  next
    case False
    obtain n where n: "e = Suc n" using e(1) by (cases e) auto
    let ?r = "r - e"
    have r: "0 < ?r" "?r < r" "spill - e * len < len"
      using False e(1) assms(1) by (simp_all add: e_def minus_div_mult_eq_mod)
    have "foldl (place_len spill) (cnt, rem, inl) (replicate r len) =
        foldl (place_len spill) (foldl (place_len spill) (cnt, rem, inl) (replicate (Suc n) len)) (replicate ?r len)"
    proof -
      have "replicate r len = replicate (Suc n) len @ replicate ?r len"
        using False unfolding n by (simp only: replicate_add [symmetric]) simp
      then show ?thesis by (simp only: foldl_append)
    qed
    also have "\<dots> = foldl (place_len spill) (cnt + 1, spill - e * len, inl) (replicate ?r len)"
      using block [of n] n by simp
    also have "\<dots> = (cnt + 1 + (?r + e - 1) div e, spill - (?r - ((?r + e - 1) div e - 1) * e) * len, inl)"
      using less.IH [OF r(2,3,1)] by simp
    also have "\<dots> = (cnt + (r + e - 1) div e, spill - (r - ((r + e - 1) div e - 1) * e) * len, inl)"
    proof -
      let ?a = "(?r + e - 1) div e"
      have a: "(r + e - 1) div e = ?a + 1" using ceil_step [of e r] e(1) False by simp
      have "1 \<le> ?a" using r(1) e(1) by (simp add: div_greater_zero_iff Suc_le_eq)
      then have "?r - (?a - 1) * e = r - ?a * e"
        using e(1) by (cases ?a) (simp_all add: diff_diff_left)
      then show ?thesis using a by simp
    qed
    finally show ?thesis .
  qed
qed

lemma place_replicate:
  fixes n rem inl :: nat
  assumes "0 < len" "len \<le> spill" "0 < cnt"
  defines "k \<equiv> min n (rem div len)" and "e \<equiv> spill div len"
  defines "inl' \<equiv> (if cnt = 1 then inl + k * len else inl)" and "r \<equiv> n - k"
  shows "foldl (place_len spill) (cnt, rem, inl) (replicate n len) =
    (if r = 0 then (cnt, rem - k * len, inl')
     else (cnt + (r + e - 1) div e, spill - (r - ((r + e - 1) div e - 1) * e) * len, inl'))"
proof -
  have "k \<le> rem div len" by (simp add: k_def)
  then have "k * len \<le> rem"
    using order_trans [OF mult_le_mono1 div_times_less_eq_dividend] by blast
  moreover have "replicate n len = replicate k len @ replicate r len"
    by (simp add: r_def k_def flip: replicate_add)
  ultimately have split: "foldl (place_len spill) (cnt, rem, inl) (replicate n len) =
      foldl (place_len spill) (cnt, rem - k * len, inl') (replicate r len)"
    using place_fitting [of k len rem spill cnt inl] by (simp add: inl'_def)
  show ?thesis
  proof (cases "r = 0")
    case True
    then show ?thesis using split by simp
  next
    case False
    then have "k = rem div len" by (simp add: r_def k_def)
    then have "rem - k * len < len" using assms(1) by (simp add: minus_div_mult_eq_mod)
    then show ?thesis
      using place_spilling [OF assms(1,2) _ _ assms(3), of "rem - k * len" r inl'] False split
      by (simp add: e_def)
  qed
qed

lemma unat_min: "unat (min a b) = min (unat a) (unat b)" for a b :: "'a::len word"
  by (simp add: min_def word_le_nat_alt)

lemma ceil_words:
  fixes r e :: u64
  assumes "e \<noteq> 0"
  shows "\<exists>a. checked_add (r div e) (of_bool (r mod e \<noteq> 0)) = Some a \<and>
    unat a = (unat r + unat e - 1) div unat e"
proof -
  have "r mod e = 0 \<longleftrightarrow> unat r mod unat e = 0" by (metis unat_0_iff unat_mod)
  then have "checked_add (r div e) (of_bool (r mod e \<noteq> 0)) = Some (div_ceil r e)"
    using unat_div_ceil [OF assms, of r] nat_ceil_div [of "unat e" "unat r"] assms
    by (cases "r mod e = 0") (simp_all add: checked_simps unat_div unat_gt_0)
  then show ?thesis using unat_div_ceil [OF assms, of r] by simp
qed

text \<open>The spill part of a segment: \<open>r\<close> entries that start in a new block.\<close>

lemma spill_words:
  fixes r e len spill :: u64
  assumes "e = spill div len" "0 < unat len" "len \<le> spill" "r \<noteq> 0"
    and "checked_add (r div e) (of_bool (r mod e \<noteq> 0)) = Some a"
  defines "l \<equiv> unat r - (unat a - 1) * unat e"
  shows "\<exists>b before last bytes rem.
    Option.bind (checked_sub a 1) (\<lambda>blocks. checked_mul blocks e) = Some before \<and>
    checked_sub r before = Some last \<and> checked_mul last len = Some bytes \<and>
    checked_sub spill bytes = Some rem \<and> unat rem = unat spill - l * unat len"
proof -
  have e: "unat e = unat spill div unat len" "0 < unat e"
    using assms(1-3) by (simp_all add: unat_div word_le_nat_alt div_greater_zero_iff)
  have "e \<noteq> 0" using e(2) by auto
  then have a: "unat a = (unat r + unat e - 1) div unat e"
    using ceil_words [of e r] assms(5) by auto
  have r: "0 < unat r" using assms(4) by (simp add: unat_gt_0)
  then have a1: "1 \<le> unat a" using e(2) by (simp add: a div_greater_zero_iff Suc_le_eq)
  have hi: "unat a * unat e \<le> unat r + unat e - 1" unfolding a by simp
  have lo: "unat r \<le> unat a * unat e"
  proof -
    have "(unat r + unat e - 1) mod unat e < unat e" using e(2) by simp
    moreover have "unat a * unat e + (unat r + unat e - 1) mod unat e = unat r + unat e - 1"
      unfolding a by simp
    ultimately show ?thesis by linarith
  qed
  have am: "(unat a - 1) * unat e = unat a * unat e - unat e" by (simp add: diff_mult_distrib)
  have before: "(unat a - 1) * unat e < unat r" unfolding am using hi e(2) r by linarith
  have l: "0 < l" "l \<le> unat e" "(unat a - 1) * unat e + l = unat r"
    using before lo a1 unfolding l_def am by linarith+
  have le: "l * unat len \<le> unat spill"
    using mult_le_mono1 [OF l(2), of "unat len"] div_times_less_eq_dividend [of "unat spill" "unat len"]
    unfolding e(1) by (rule order_trans)
  obtain am1 bw lw yw rw :: u64 where w: "unat am1 = unat a - 1" "unat bw = (unat a - 1) * unat e"
    "unat lw = l" "unat yw = l * unat len" "unat rw = unat spill - l * unat len"
  proof -
    have "unat a - 1 < 2 ^ 64" "(unat a - 1) * unat e < 2 ^ 64" "l < 2 ^ 64" "l * unat len < 2 ^ 64"
      "unat spill - l * unat len < 2 ^ 64"
      using unat_u64_less [of a] unat_u64_less [of r] unat_u64_less [of spill] unat_u64_less [of e]
        before l le by simp_all
    then show thesis using that unat_exists by metis
  qed
  have "checked_sub a 1 = Some am1" "checked_mul am1 e = Some bw" "checked_sub r bw = Some lw"
    "checked_mul lw len = Some yw" "checked_sub spill yw = Some rw"
    using w a1 l(3) le by (simp_all add: checked_simps)
  then show ?thesis using w(5) by simp
qed

definition state_nat :: "IndexPackingState \<Rightarrow> nat \<times> nat \<times> nat" where
  "state_nat st = (unat (ips_block_count st), unat (ips_remaining_bytes st), unat (ips_inline_entry_bytes st))"

lemma pack_index_segment_nat:
  fixes n len spill :: u64
  assumes "0 < unat len" "len \<le> spill" "0 < unat (ips_block_count st)" "n \<noteq> 0"
    and "unat (ips_block_count st) = 1 \<Longrightarrow>
      unat (ips_inline_entry_bytes st) + unat (ips_remaining_bytes st) < 2 ^ 64"
    and fit: "\<not> (ips_remaining_bytes st < len \<and> ips_current_block_is_empty st)"
  defines "target \<equiv> foldl (place_len (unat spill)) (state_nat st) (replicate (unat n) (unat len))"
  shows "fst target < 2 ^ 64 \<Longrightarrow>
      \<exists>st'. pack_index_segment st spill n len = Inr st' \<and> state_nat st' = target \<and>
        \<not> ips_current_block_is_empty st'"
    and "\<not> fst target < 2 ^ 64 \<Longrightarrow> \<exists>e. pack_index_segment st spill n len = Inl e"
proof -
  let ?cnt = "unat (ips_block_count st)" and ?rem = "unat (ips_remaining_bytes st)"
    and ?inl = "unat (ips_inline_entry_bytes st)"
  define e where "e = spill div len"
  have spill: "unat len \<le> unat spill" using assms(2) by (simp add: word_le_nat_alt)
  have eu: "unat e = unat spill div unat len" by (simp add: e_def unat_div)
  have "0 < unat e" using assms(1) spill by (simp add: eu div_greater_zero_iff)
  then have e: "e \<noteq> 0" by auto
  define here where "here = min n (ips_remaining_bytes st div len)"
  define k where "k = min (unat n) (?rem div unat len)"
  have here: "unat here = k" by (simp add: here_def k_def unat_min unat_div)
  have kl: "k * unat len \<le> ?rem"
    using order_trans [OF mult_le_mono1 div_times_less_eq_dividend, of k ?rem "unat len"] by (simp add: k_def)
  obtain bw :: u64 where bw: "unat bw = k * unat len"
    using kl unat_u64_less [of "ips_remaining_bytes st"] unat_exists [of "k * unat len"] by auto
  then have bytes: "checked_mul here len = Some bw" by (simp add: checked_simps here)
  obtain iw :: u64 where iw: "unat iw = (if ?cnt = 1 then ?inl + k * unat len else ?inl)"
    using unat_exists [of "?inl + k * unat len"] assms(5) kl by (cases "?cnt = 1") fastforce+
  have one: "ips_block_count st = 1 \<longleftrightarrow> ?cnt = 1" by (simp add: word_unat_eq_iff)
  have inline: "(if ips_block_count st = 1
      then ok_or x (checked_add (ips_inline_entry_bytes st) bw) else Inr (ips_inline_entry_bytes st)) = Inr iw" for x
    using iw bw by (auto simp: one checked_simps word_unat_eq_iff)
  have empty: "\<not> (here = 0 \<and> ips_current_block_is_empty st)"
  proof
    assume h: "here = 0 \<and> ips_current_block_is_empty st"
    then have "k = 0" using here by simp
    then have "?rem div unat len = 0" using assms(4) by (auto simp: k_def min_def unat_eq_zero split: if_splits)
    then have "?rem < unat len" using assms(1) by (simp add: div_eq_0_iff)
    then show False using fit h by (simp add: word_less_nat_alt)
  qed
  have k_le: "here \<le> n" by (simp add: here_def)
  have rc: "unat (n - here) = unat n - k" using k_le here by (simp add: unat_sub)
  have rb: "unat (ips_remaining_bytes st - bw) = ?rem - k * unat len"
    using kl bw by (subst unat_sub) (simp_all add: word_le_nat_alt)
  have guards: "(n = 0) = False" "(len = 0 \<or> e = 0) = False"
    "(here = 0 \<and> ips_current_block_is_empty st) = False" using assms(1,4) e empty by auto
  note target = place_replicate [OF assms(1) spill assms(3), of ?rem ?inl "unat n", folded k_def]
  note unf = pack_index_segment_def Let_def here_def [symmetric] e_def [symmetric]
  have target_eq: "target = (if unat n - k = 0 then (?cnt, ?rem - k * unat len, unat iw)
      else (?cnt + (unat n - k + unat e - 1) div unat e,
        unat spill - (unat n - k - ((unat n - k + unat e - 1) div unat e - 1) * unat e) * unat len, unat iw))"
    using target by (simp only: target_def state_nat_def iw eu)
  obtain a where a: "checked_add ((n - here) div e) (of_bool ((n - here) mod e \<noteq> 0)) = Some a"
    "unat a = (unat n - k + unat e - 1) div unat e"
    using ceil_words [OF e, of "n - here"] by (auto simp: rc)
  have zero: "n - here = 0 \<longleftrightarrow> unat n - k = 0" using rc by (simp add: word_unat_eq_iff)
  show "\<exists>st'. pack_index_segment st spill n len = Inr st' \<and> state_nat st' = target \<and>
      \<not> ips_current_block_is_empty st'" if t: "fst target < 2 ^ 64"
  proof (cases "unat n - k = 0")
    case True
    then have "pack_index_segment st spill n len = Inr \<lparr>ips_block_count = ips_block_count st,
        ips_remaining_bytes = ips_remaining_bytes st - bw, ips_inline_entry_bytes = iw,
        ips_current_block_is_empty = False\<rparr>"
      unfolding unf by (simp only: guards bytes inline zero ok_or_Some rbind_Inr if_True if_False simp_thms)
    then show ?thesis using True rb by (simp add: target_eq state_nat_def)
  next
    case False
    obtain cw :: u64 where "unat cw = ?cnt + unat a"
      using t False unat_exists [of "?cnt + unat a"] by (auto simp: target_eq a(2))
    then have c: "checked_add (ips_block_count st) a = Some cw" "unat cw = ?cnt + unat a"
      by (simp_all add: checked_simps)
    obtain before last bytes' rem' where w:
      "Option.bind (checked_sub a 1) (\<lambda>blocks. checked_mul blocks e) = Some before"
      "checked_sub (n - here) before = Some last" "checked_mul last len = Some bytes'"
      "checked_sub spill bytes' = Some rem'"
      "unat rem' = unat spill - (unat (n - here) - (unat a - 1) * unat e) * unat len"
      using spill_words [OF e_def assms(1,2) _ a(1)] False zero by auto
    have nz: "(n - here = 0) = False" using False zero by simp
    have "pack_index_segment st spill n len = Inr \<lparr>ips_block_count = cw,
        ips_remaining_bytes = rem', ips_inline_entry_bytes = iw, ips_current_block_is_empty = False\<rparr>"
      unfolding unf by (simp only: guards bytes inline nz a(1) c(1) w(1-4) ok_or_Some rbind_Inr if_False)
    then show ?thesis using False c(2) w(5) by (simp add: target_eq state_nat_def a(2) rc)
  qed
  show "\<exists>e. pack_index_segment st spill n len = Inl e" if t: "\<not> fst target < 2 ^ 64"
  proof -
    have False: "unat n - k \<noteq> 0" using t unat_u64_less [of "ips_block_count st"] by (auto simp: target_eq)
    then have c: "checked_add (ips_block_count st) a = None"
      using t by (simp add: target_eq checked_simps a(2))
    have nz: "(n - here = 0) = False" using False zero by simp
    show ?thesis
      unfolding unf by (simp only: guards bytes inline nz a(1) c ok_or_Some ok_or_None rbind_Inr rbind_Inl
          if_False) blast
  qed
qed


lemma place_len_invariant:
  "0 < cnt \<Longrightarrow> (cnt = 1 \<Longrightarrow> inl + rem = first) \<Longrightarrow>
   foldl (place_len spill) (cnt, rem, inl) lens = (cnt', rem', inl') \<Longrightarrow>
     cnt \<le> cnt' \<and> (cnt' = 1 \<longrightarrow> inl' + rem' = first)"
proof (induction lens arbitrary: cnt rem inl)
  case (Cons len lens)
  show ?case
  proof (cases "len \<le> rem")
    case True
    then show ?thesis
      using Cons.IH [of cnt "if cnt = 1 then inl + len else inl" "rem - len"] Cons.prems by auto
  next
    case False
    then show ?thesis using Cons.IH [of "cnt + 1" inl "spill - len"] Cons.prems by auto
  qed
qed auto

lemma pack_index_segment_unfit:
  assumes "n \<noteq> 0" "ips_remaining_bytes st < len" "ips_current_block_is_empty st"
  shows "\<exists>e. pack_index_segment st spill n len = Inl e"
proof -
  have "unat (ips_remaining_bytes st div len) = 0"
    using assms(2) by (simp add: unat_div word_less_nat_alt)
  then have "ips_remaining_bytes st div len = 0" by (simp add: word_unat_eq_iff)
  then have "min n (ips_remaining_bytes st div len) = 0" by (simp add: min_absorb2)
  then show ?thesis using assms(1,3) unfolding pack_index_segment_def Let_def by auto
qed

lemma pack_segment:
  fixes n len spill :: u64
  assumes "0 < unat len" "len \<le> spill" "0 < unat (ips_block_count st)"
    and "unat (ips_block_count st) = 1 \<Longrightarrow>
      unat (ips_inline_entry_bytes st) + unat (ips_remaining_bytes st) < 2 ^ 64"
  defines "target \<equiv> foldl (place_len (unat spill)) (state_nat st) (replicate (unat n) (unat len))"
    and "good \<equiv> n \<noteq> 0 \<longrightarrow> \<not> (ips_remaining_bytes st < len \<and> ips_current_block_is_empty st)"
  shows "good \<Longrightarrow> fst target < 2 ^ 64 \<Longrightarrow>
      \<exists>st'. pack_index_segment st spill n len = Inr st' \<and> state_nat st' = target \<and>
        ips_current_block_is_empty st' = (n = 0 \<and> ips_current_block_is_empty st)"
    and "\<not> (good \<and> fst target < 2 ^ 64) \<Longrightarrow> \<exists>e. pack_index_segment st spill n len = Inl e"
proof -
  show "\<exists>st'. pack_index_segment st spill n len = Inr st' \<and> state_nat st' = target \<and>
      ips_current_block_is_empty st' = (n = 0 \<and> ips_current_block_is_empty st)"
    if "good" "fst target < 2 ^ 64"
  proof (cases "n = 0")
    case True
    then show ?thesis by (simp add: pack_index_segment_def target_def)
  next
    case False
    then show ?thesis
      using pack_index_segment_nat(1) [OF assms(1-3) False assms(4)] that by (auto simp: good_def target_def)
  qed
  show "\<exists>e. pack_index_segment st spill n len = Inl e" if no: "\<not> (good \<and> fst target < 2 ^ 64)"
  proof (cases "good")
    case True
    then have big: "\<not> fst target < 2 ^ 64" using no by simp
    have "n \<noteq> 0" using big unat_u64_less [of "ips_block_count st"] by (auto simp: target_def state_nat_def)
    then show ?thesis
      using pack_index_segment_nat(2) [OF assms(1-3) _ assms(4)] big True by (auto simp: good_def target_def)
  next
    case False
    then show ?thesis using pack_index_segment_unfit by (auto simp: good_def)
  qed
qed

lemma checked_layout_nat:
  fixes b p d :: u64
  assumes "0xD0 \<le> unat b"
  defines "target \<equiv> foldl (place_len (unat b - 8)) (1, unat b - 0xD0, 0)
      (replicate (unat p) 16 @ replicate (unat d) 8)"
    and "fits \<equiv> (p \<noteq> 0 \<longrightarrow> 0xE0 \<le> unat b) \<and> (p = 0 \<and> d \<noteq> 0 \<longrightarrow> 0xD8 \<le> unat b)"
  shows "fits \<Longrightarrow> fst target < 2 ^ 64 \<Longrightarrow>
      \<exists>l. checked_sidecar_index_capacity_layout b p d = Inr l \<and>
        unat (sil_block_count l) = fst target \<and> unat (sil_inline_entry_bytes l) = snd (snd target)"
    and "\<not> (fits \<and> fst target < 2 ^ 64) \<Longrightarrow> \<exists>e. checked_sidecar_index_capacity_layout b p d = Inl e"
proof -
  let ?spill = "b - 8"
  let ?st = "\<lparr>ips_block_count = 1, ips_remaining_bytes = ?spill - 0xC8, ips_inline_entry_bytes = 0,
    ips_current_block_is_empty = True\<rparr>"
  have s1: "unat ?spill = unat b - 8" using assms(1) by (simp add: unat_sub word_le_nat_alt)
  then have s2: "unat (?spill - 0xC8) = unat b - 0xD0"
    using assms(1) by (subst unat_sub) (simp_all add: word_le_nat_alt)
  have st: "state_nat ?st = (1, unat b - 0xD0, 0)" using s2 by (simp add: state_nat_def)
  have len: "16 \<le> ?spill" "8 \<le> ?spill" using s1 assms(1) by (simp_all add: word_le_nat_alt)
  have red: "checked_sidecar_index_capacity_layout b p d =
      rbind (pack_index_segment ?st ?spill p 16) (\<lambda>s1. rbind (pack_index_segment s1 ?spill d 8) (\<lambda>s2.
        Inr \<lparr>sil_block_count = ips_block_count s2, sil_inline_entry_bytes = ips_inline_entry_bytes s2\<rparr>))"
  proof -
    have "checked_add 0xC8 8 = Some (0xD0 :: u64)" by (simp add: checked_simps)
    moreover have "\<not> b < 0xD0" using assms(1) by (simp add: word_less_nat_alt)
    ultimately show ?thesis
      by (simp add: checked_sidecar_index_capacity_layout_def Let_def SIDECAR_HEADER_LEN_def
          PARITY_INDEX_ENTRY_LEN_def DATA_CRC_ENTRY_LEN_def)
  qed
  define t1 where "t1 = foldl (place_len (unat b - 8)) (1, unat b - 0xD0, 0) (replicate (unat p) 16)"
  have t: "target = foldl (place_len (unat b - 8)) t1 (replicate (unat d) 8)"
    by (simp add: target_def t1_def)
  obtain c1 r1 i1 where t1: "t1 = (c1, r1, i1)" by (cases t1) auto
  have inv: "1 \<le> c1" "c1 = 1 \<Longrightarrow> i1 + r1 = unat b - 0xD0"
    using place_len_invariant [OF _ _ t1 [unfolded t1_def], of "unat b - 0xD0"] by auto
  have mono: "c1 \<le> fst target"
    using place_len_invariant [of c1 i1 r1 "i1 + r1" "unat b - 8" "replicate (unat d) 8"] inv(1)
    by (cases target) (auto simp: t t1)
  have c1: "unat (1 :: u64) = 1" "unat (16 :: u64) = 16" "unat (8 :: u64) = 8" by simp_all
  note seg1 = pack_segment [of 16 ?spill ?st p, unfolded st s1 c1, folded t1_def]
  have empty1: "(p \<noteq> 0 \<longrightarrow> \<not> (ips_remaining_bytes ?st < 16 \<and> ips_current_block_is_empty ?st)) \<longleftrightarrow>
      (p \<noteq> 0 \<longrightarrow> 0xE0 \<le> unat b)"
    using s2 assms(1) by (auto simp: word_less_nat_alt)
  have first: "0 < (16 :: nat)" "16 \<le> ?spill" "0 < unat (ips_block_count ?st)"
    "unat (ips_block_count ?st) = 1 \<Longrightarrow>
      unat (ips_inline_entry_bytes ?st) + unat (ips_remaining_bytes ?st) < 2 ^ 64"
    using len s2 unat_u64_less [of b] by simp_all
  let ?g1 = "p \<noteq> 0 \<longrightarrow> 0xE0 \<le> unat b"
  have fail1: "\<exists>e. checked_sidecar_index_capacity_layout b p d = Inl e" if "\<not> (?g1 \<and> c1 < 2 ^ 64)"
  proof -
    have "\<exists>e. pack_index_segment ?st ?spill p 16 = Inl e"
      using seg1(2) [OF first(1,2), unfolded empty1 t1] first(3,4) that by simp
    then show ?thesis unfolding red by auto
  qed
  have second: "\<exists>s1. pack_index_segment ?st ?spill p 16 = Inr s1 \<and> state_nat s1 = t1 \<and>
      ips_current_block_is_empty s1 = (p = 0)" if "?g1" "c1 < 2 ^ 64"
    using seg1(1) [OF first(1,2), unfolded empty1] first(3,4) that t1 by auto
  have step2: "(fits \<longrightarrow> fst target < 2 ^ 64 \<longrightarrow>
      (\<exists>l. checked_sidecar_index_capacity_layout b p d = Inr l \<and>
        unat (sil_block_count l) = fst target \<and> unat (sil_inline_entry_bytes l) = snd (snd target))) \<and>
      (\<not> (fits \<and> fst target < 2 ^ 64) \<longrightarrow> (\<exists>e. checked_sidecar_index_capacity_layout b p d = Inl e))"
    if g1: "?g1" "c1 < 2 ^ 64"
  proof -
    obtain s1 where n: "pack_index_segment ?st ?spill p 16 = Inr s1" "state_nat s1 = t1"
      "ips_current_block_is_empty s1 = (p = 0)"
      using second [OF g1] by auto
    have sn: "unat (ips_block_count s1) = c1" "unat (ips_remaining_bytes s1) = r1"
      "unat (ips_inline_entry_bytes s1) = i1" using n(2) by (simp_all add: state_nat_def t1)
    have r1: "p = 0 \<Longrightarrow> r1 = unat b - 0xD0" using t1 by (simp add: t1_def)
    have good: "(d \<noteq> 0 \<longrightarrow> \<not> (ips_remaining_bytes s1 < 8 \<and> ips_current_block_is_empty s1)) \<longleftrightarrow> fits"
      using r1 g1(1) sn(2) assms(1) by (auto simp: fits_def n(3) word_less_nat_alt)
    have pre: "0 < unat (8 :: u64)" "0 < unat (ips_block_count s1)"
      "unat (ips_block_count s1) = 1 \<Longrightarrow>
        unat (ips_inline_entry_bytes s1) + unat (ips_remaining_bytes s1) < 2 ^ 64"
      using sn inv unat_u64_less [of b] by auto
    note seg2 = pack_segment [OF pre(1) len(2) pre(2,3), of d, unfolded n(2) s1 c1, folded t, unfolded good]
    show ?thesis
    proof (intro conjI impI)
      assume "fits" "fst target < 2 ^ 64"
      then obtain s2 where "pack_index_segment s1 ?spill d 8 = Inr s2" "state_nat s2 = target"
        using seg2(1) by auto
      then show "\<exists>l. checked_sidecar_index_capacity_layout b p d = Inr l \<and>
        unat (sil_block_count l) = fst target \<and> unat (sil_inline_entry_bytes l) = snd (snd target)"
        unfolding red n(1) rbind_Inr by (auto simp: state_nat_def)
    next
      assume "\<not> (fits \<and> fst target < 2 ^ 64)"
      then show "\<exists>e. checked_sidecar_index_capacity_layout b p d = Inl e"
        unfolding red n(1) rbind_Inr using seg2(2) by auto
    qed
  qed
  show "\<exists>l. checked_sidecar_index_capacity_layout b p d = Inr l \<and>
        unat (sil_block_count l) = fst target \<and> unat (sil_inline_entry_bytes l) = snd (snd target)"
    if "fits" "fst target < 2 ^ 64"
    using step2 that mono by (auto simp: fits_def)
  show "\<exists>e. checked_sidecar_index_capacity_layout b p d = Inl e" if "\<not> (fits \<and> fst target < 2 ^ 64)"
    using step2 fail1 that by blast
qed

lemma index_entry_lengths:
  "map length (index_entries index) =
     replicate (length (si_parity_entries index)) 16 @ replicate (length (si_data_shard_crc64s index)) 8"
  by (simp add: index_entries_def comp_def map_replicate_const)

lemma index_entries_small:
  assumes "16 \<le> n"
  shows "list_all (\<lambda>e. length e \<le> n \<and> e \<noteq> []) (index_entries index)"
proof -
  have "length e = 16 \<or> length e = 8" if "e \<in> set (index_entries index)" for e
    using that by (auto simp: index_entries_def)
  then show ?thesis using assms by (fastforce simp: list_all_iff)
qed

lemma first_entry_fits:
  assumes "unat p = length (si_parity_entries index)" "unat d = length (si_data_shard_crc64s index)"
  shows "((p \<noteq> 0 \<longrightarrow> 0xE0 \<le> b) \<and> (p = 0 \<and> d \<noteq> 0 \<longrightarrow> 0xD8 \<le> b)) \<longleftrightarrow>
    (index_entries index \<noteq> [] \<longrightarrow> 0xC8 + length (hd (index_entries index)) \<le> b - 8)"
proof -
  have "p = 0 \<longleftrightarrow> si_parity_entries index = []" "d = 0 \<longleftrightarrow> si_data_shard_crc64s index = []"
    using assms by (auto simp: word_unat_eq_iff)
  then show ?thesis
    by (cases "si_parity_entries index"; cases "si_data_shard_crc64s index")
      (auto simp: index_entries_def)
qed

lemma pack_unfit:
  assumes "index_entries index \<noteq> []" "\<not> 0xC8 + length (hd (index_entries index)) \<le> b - 8"
  shows "\<exists>e. pack_index_blocks b index = Inl e"
  using assms unfolding pack_index_blocks_place
  by (cases "index_entries index") (auto simp: place_entry_def block_start_def SIDECAR_HEADER_LEN_def)

lemma copy_zero_slice:
  "off + length bs \<le> b \<Longrightarrow> slice off (length bs) (copy_at off bs (replicate b 0)) = bs"
  by (simp add: slice_copy_same)



definition sample_index :: SidecarIndex where
  "sample_index =
     \<lparr>si_parity_entries = [\<lparr>psi_stripe_index = 0, psi_parity_index = 0, psi_parity_shard_crc64 = 7\<rparr>],
      si_data_shard_crc64s = [9, 11]\<rparr>"


end
