(* ===== verification/SidecarFile.thy ===== *)
theory SidecarFile
  imports FilemarkMap SidecarIndex
begin

text \<open>
  The parity-sidecar tape file, from \<open>crates/remanence-parity/src/sidecar.rs\<close>: header and footer
  blocks, the count and layout checks, the canonical metadata hash, the encoder that places the
  parity shards parity-index-major between two index copies, and the parser. SHA-256 and
  HMAC-SHA-256 are parameters.
\<close>

section \<open>Values\<close>

definition SIDECAR_SCHEMA_VERSION :: u32 where
  "SIDECAR_SCHEMA_VERSION = 2"

definition SIDECAR_HEADER_CRC_OFFSET :: nat where
  "SIDECAR_HEADER_CRC_OFFSET = 0xC0"

definition SIDECAR_FOOTER_VERSION :: u16 where
  "SIDECAR_FOOTER_VERSION = 2"

definition SIDECAR_FOOTER_LEN :: nat where
  "SIDECAR_FOOTER_LEN = 0x88"

definition SIDECAR_FOOTER_CRC_OFFSET :: nat where
  "SIDECAR_FOOTER_CRC_OFFSET = 0x80"

definition SIDECAR_MAGIC_MESSAGE :: bytes where
  "SIDECAR_MAGIC_MESSAGE = [0x52, 0x45, 0x4D, 0x00, 0x50, 0x41, 0x52, 0x01]"

definition SIDECAR_FOOTER_MAGIC_MESSAGE :: bytes where
  "SIDECAR_FOOTER_MAGIC_MESSAGE =
     [0x52, 0x45, 0x4D, 0x00, 0x50, 0x41, 0x52, 0x46, 0x4F, 0x4F, 0x54, 0x01]"

definition SIDECAR_METADATA_HASH_DOMAIN :: bytes where
  "SIDECAR_METADATA_HASH_DOMAIN =
     [0x72, 0x65, 0x6D, 0x61, 0x6E, 0x65, 0x6E, 0x63, 0x65, 0x2D, 0x73, 0x69, 0x64, 0x65, 0x63, 0x61,
      0x72, 0x2D, 0x6D, 0x65, 0x74, 0x61, 0x64, 0x61, 0x74, 0x61, 0x2D, 0x76, 0x31]"

fun SidecarCopyKind_to_u16 :: "SidecarCopyKind \<Rightarrow> u16" where
  "SidecarCopyKind_to_u16 Primary = 1"
| "SidecarCopyKind_to_u16 Tail = 2"

definition SidecarCopyKind_from_u16 :: "u16 \<Rightarrow> SidecarCopyKind parity_result" where
  "SidecarCopyKind_from_u16 v =
     (if v = 1 then Inr Primary else if v = 2 then Inr Tail
      else Inl (SidecarParse ''unsupported sidecar copy kind: {value}''))"

record SidecarDescriptor =
  sd_tape_uuid :: bytes
  sd_epoch_id :: u64
  sd_k :: u16
  sd_m :: u16
  sd_stripes_per_epoch :: u32
  sd_block_size :: u32
  sd_protected_ordinal_start :: u64
  sd_protected_ordinal_end_exclusive :: u64

record SidecarFooter =
  sf_magic :: bytes
  sf_sidecar_footer_version :: u16
  sf_tape_uuid :: bytes
  sf_epoch_id :: u64
  sf_protected_ordinal_start :: u64
  sf_protected_ordinal_end_exclusive :: u64
  sf_sidecar_header_block_count :: u64
  sf_parity_shard_block_count :: u64
  sf_sidecar_total_block_count :: u64
  sf_primary_header_start_block :: u64
  sf_tail_header_start_block :: u64
  sf_canonical_metadata_hash :: bytes
  sf_footer_crc64 :: u64

record EncodedSidecarIndex =
  esi_header :: SidecarHeader
  esi_blocks :: "bytes list"

record EncodedSidecarTapeFile =
  estf_header :: SidecarHeader
  estf_index :: SidecarIndex
  estf_blocks :: "bytes list"

record DecodedSidecarIndex =
  dsi_header :: SidecarHeader
  dsi_index :: SidecarIndex

record DecodedSidecarTapeFile =
  dstf_header :: SidecarHeader
  dstf_index :: SidecarIndex
  dstf_parity_shards :: "bytes list"

record HeaderCounts =
  hc_k :: u16
  hc_m :: u16
  hc_stripes_per_epoch :: u32
  hc_protected_ordinal_start :: u64
  hc_protected_ordinal_end_exclusive :: u64
  hc_logical_shard_count :: u64
  hc_real_data_shard_count :: u64
  hc_parity_block_count :: u64
  hc_data_crc_count :: u64
  hc_shard_index_block_count :: u64
  hc_sidecar_total_block_count :: u64
  hc_primary_header_start_block :: u64
  hc_tail_header_start_block :: u64
  hc_footer_block_index :: u64
  hc_copy_generation :: u32

definition derive_sidecar_magic :: "(bytes \<Rightarrow> bytes \<Rightarrow> bytes) \<Rightarrow> bytes \<Rightarrow> bytes" where
  "derive_sidecar_magic hmac tape_uuid = take 8 (hmac tape_uuid SIDECAR_MAGIC_MESSAGE)"

definition derive_sidecar_footer_magic :: "(bytes \<Rightarrow> bytes \<Rightarrow> bytes) \<Rightarrow> bytes \<Rightarrow> bytes" where
  "derive_sidecar_footer_magic hmac tape_uuid = take 8 (hmac tape_uuid SIDECAR_FOOTER_MAGIC_MESSAGE)"

definition parity_shard_crc64 :: "bytes \<Rightarrow> u64" where
  "parity_shard_crc64 shard = crc64_xz shard"

definition data_shard_crc64 :: "bytes \<Rightarrow> u64" where
  "data_shard_crc64 block = crc64_xz block"

definition parity_block_position :: "u32 \<Rightarrow> u16 \<Rightarrow> u32 \<Rightarrow> u16 \<Rightarrow> u64 \<Rightarrow> u64 parity_result" where
  "parity_block_position stripe parity S m
     h =
     (if stripe \<ge> S
      then Inl (SidecarParse ''parity stripe index must be below scheme S'')
      else if parity \<ge> m
      then Inl (SidecarParse ''parity index must be below scheme m'')
      else ok_or (SidecarParse ''sidecar parity block position overflows u64'')
        (Option.bind (checked_mul (ucast parity) (ucast S)) (\<lambda>offset.
         Option.bind (checked_add h offset) (\<lambda>position.
         checked_add position (ucast stripe)))))"

definition checked_sidecar_total_blocks :: "u64 \<Rightarrow> u64 \<Rightarrow> u64 parity_result" where
  "checked_sidecar_total_blocks h p =
     ok_or (SidecarParse ''sidecar total block count overflows'')
       (Option.bind (checked_add h p) (\<lambda>v. Option.bind (checked_add v h) (\<lambda>v. checked_add v 1)))"

definition checked_sidecar_shard_product :: "u64 \<Rightarrow> u64 \<Rightarrow> u64 parity_result" where
  "checked_sidecar_shard_product stripes shards =
     ok_or (SidecarParse ''sidecar shard product overflows'') (checked_mul stripes shards)"

section \<open>Checks\<close>

definition validate_shard_counts :: "HeaderCounts \<Rightarrow> unit parity_result" where
  "validate_shard_counts c =
     (if hc_k c = 0 \<or> hc_m c = 0 \<or> hc_stripes_per_epoch c = 0
      then Inl (SidecarParse ''sidecar k, m, and S must all be non-zero'')
      else
      rbind (ok_or (SidecarParse ''sidecar protected ordinal range is inverted'')
        (checked_sub (hc_protected_ordinal_end_exclusive c) (hc_protected_ordinal_start c))) (\<lambda>range_len.
      if range_len = 0 then Inl (SidecarParse ''sidecar protects zero real ordinals'')
      else
      let expected_logical = ucast (hc_stripes_per_epoch c) * ucast (hc_k c) :: u128
      in if ucast (hc_logical_shard_count c) \<noteq> expected_logical
      then Inl (SidecarParse ''sidecar logical_shard_count {logical_shard_count} != S*k {expected_logical}'')
      else if hc_real_data_shard_count c \<noteq> range_len
      then Inl (SidecarParse ''sidecar real_data_shard_count {real_data_shard_count} != range length {range_len}'')
      else if hc_real_data_shard_count c > hc_logical_shard_count c
      then Inl (SidecarParse ''sidecar real data count exceeds logical shard count'')
      else
      rbind (checked_sidecar_shard_product (ucast (hc_stripes_per_epoch c)) (ucast (hc_m c))) (\<lambda>product.
      rbind (if unat product < 2 ^ 32 then Inr product
        else Inl (SidecarParse ''sidecar parity block count overflows u32'')) (\<lambda>expected_parity.
      if hc_parity_block_count c \<noteq> expected_parity
      then Inl (SidecarParse ''sidecar parity_block_count {parity_block_count} != S*m {expected_parity}'')
      else if hc_data_crc_count c \<noteq> hc_real_data_shard_count c
      then Inl (SidecarParse ''sidecar data_crc_count {data_crc_count} != real data count {expected_data_crc_count}'')
      else if hc_copy_generation c \<noteq> 0
      then Inl (SidecarParse ''unsupported sidecar copy_generation: {copy_generation}'')
      else Inr ()))))"

definition validate_sidecar_layout ::
  "u64 \<Rightarrow> u64 \<Rightarrow> u64 \<Rightarrow> u64 \<Rightarrow> u64 \<Rightarrow> u64 \<Rightarrow> unit parity_result" where
  "validate_sidecar_layout shard_index_block_count parity_block_count sidecar_total_block_count
     primary_header_start_block tail_header_start_block footer_block_index =
     (if shard_index_block_count = 0 then Inl (SidecarParse ''sidecar header block count is zero'')
      else if primary_header_start_block \<noteq> 0
      then Inl (SidecarParse ''sidecar primary_header_start_block {primary_header_start_block} != 0'')
      else
      rbind (ok_or (SidecarParse ''sidecar tail header start overflows'')
        (checked_add shard_index_block_count parity_block_count)) (\<lambda>expected_tail.
      if tail_header_start_block \<noteq> expected_tail
      then Inl (SidecarParse ''sidecar tail_header_start_block {tail_header_start_block} != expected {expected_tail}'')
      else
      rbind (ok_or (SidecarParse ''sidecar footer block index overflows'')
        (checked_add expected_tail shard_index_block_count)) (\<lambda>expected_footer.
      if footer_block_index \<noteq> expected_footer
      then Inl (SidecarParse ''sidecar footer_block_index {footer_block_index} != expected {expected_footer}'')
      else
      rbind (checked_sidecar_total_blocks shard_index_block_count parity_block_count) (\<lambda>expected_total.
      if sidecar_total_block_count \<noteq> expected_total
      then Inl (SidecarParse ''sidecar_total_block_count {sidecar_total_block_count} != expected {expected_total}'')
      else Inr ()))))"

definition validate_header_counts :: "HeaderCounts \<Rightarrow> unit parity_result" where
  "validate_header_counts c =
     rbind (validate_shard_counts c) (\<lambda>_.
       validate_sidecar_layout (hc_shard_index_block_count c) (hc_parity_block_count c)
         (hc_sidecar_total_block_count c) (hc_primary_header_start_block c)
         (hc_tail_header_start_block c) (hc_footer_block_index c))"

text \<open>The counts that several functions derive from a descriptor.\<close>

definition descriptor_range :: "SidecarDescriptor \<Rightarrow> u64 parity_result" where
  "descriptor_range d =
     ok_or (SidecarParse ''sidecar protected ordinal range is inverted'')
       (checked_sub (sd_protected_ordinal_end_exclusive d) (sd_protected_ordinal_start d))"

definition descriptor_parity :: "SidecarDescriptor \<Rightarrow> u32 parity_result" where
  "descriptor_parity d =
     ok_or (SidecarParse ''sidecar parity block count overflows u32'')
       (checked_mul (sd_stripes_per_epoch d) (ucast (sd_m d)))"

definition validate_descriptor :: "SidecarDescriptor \<Rightarrow> nat parity_result" where
  "validate_descriptor d =
     (let block_size = unat (sd_block_size d)
      in if block_size < SIDECAR_HEADER_LEN + 8
      then Inl (SidecarParse ''sidecar block_size smaller than header plus trailing CRC'')
      else
      rbind (descriptor_range d) (\<lambda>real.
      rbind (descriptor_parity d) (\<lambda>parity.
      rbind (validate_shard_counts
        \<lparr>hc_k = sd_k d, hc_m = sd_m d, hc_stripes_per_epoch = sd_stripes_per_epoch d,
         hc_protected_ordinal_start = sd_protected_ordinal_start d,
         hc_protected_ordinal_end_exclusive = sd_protected_ordinal_end_exclusive d,
         hc_logical_shard_count = ucast (sd_stripes_per_epoch d) * ucast (sd_k d),
         hc_real_data_shard_count = real, hc_parity_block_count = ucast parity,
         hc_data_crc_count = real, hc_shard_index_block_count = 1,
         hc_sidecar_total_block_count = 0, hc_primary_header_start_block = 0,
         hc_tail_header_start_block = 0, hc_footer_block_index = 0, hc_copy_generation = 0\<rparr>) (\<lambda>_.
      Inr block_size))))"

definition validate_index_entry ::
  "SidecarDescriptor \<Rightarrow> nat \<times> ParityShardIndexEntry \<Rightarrow> unit parity_result" where
  "validate_index_entry d = (\<lambda>(i, entry).
     if psi_stripe_index entry \<noteq> word_of_nat (i div unat (sd_m d))
       \<or> psi_parity_index entry \<noteq> word_of_nat (i mod unat (sd_m d))
     then Inl (SidecarParse ''sidecar parity index entry {i} is ({}, {}), expected ({expected_stripe}, {expected_parity})'')
     else Inr ())"

definition validate_index_shape :: "SidecarDescriptor \<Rightarrow> SidecarIndex \<Rightarrow> unit parity_result" where
  "validate_index_shape d index =
     rbind (descriptor_parity d) (\<lambda>expected_parity.
     if length (si_parity_entries index) \<noteq> unat expected_parity
     then Inl (SidecarParse ''sidecar parity index has {} entries, expected {expected_parity}'')
     else
     rbind (descriptor_range d) (\<lambda>expected_data.
     if length (si_data_shard_crc64s index) \<noteq> unat expected_data
     then Inl (SidecarParse ''sidecar data CRC index has {} entries, expected {expected_data}'')
     else
     try_fold (\<lambda>_. validate_index_entry d) () (List.enumerate 0 (si_parity_entries index))))"

definition header_descriptor :: "SidecarHeader \<Rightarrow> SidecarDescriptor" where
  "header_descriptor h =
     \<lparr>sd_tape_uuid = sh_tape_uuid h, sd_epoch_id = sh_epoch_id h, sd_k = sh_k h, sd_m = sh_m h,
      sd_stripes_per_epoch = sh_stripes_per_epoch h, sd_block_size = sh_block_size h,
      sd_protected_ordinal_start = sh_protected_ordinal_start h,
      sd_protected_ordinal_end_exclusive = sh_protected_ordinal_end_exclusive h\<rparr>"

definition validate_index_order :: "SidecarHeader \<Rightarrow> SidecarIndex \<Rightarrow> unit parity_result" where
  "validate_index_order h index = validate_index_shape (header_descriptor h) index"

definition compute_index_layout :: "nat \<Rightarrow> nat \<Rightarrow> nat \<Rightarrow> (u64 \<times> u64) parity_result" where
  "compute_index_layout block_size parity_count data_count =
     rbind (ok_or (SidecarParse ''sidecar block size overflows u64'') (u64_of_usize block_size)) (\<lambda>b.
     rbind (ok_or (SidecarParse ''sidecar parity entry count overflows u64'') (u64_of_usize parity_count)) (\<lambda>p.
     rbind (ok_or (SidecarParse ''sidecar data CRC count overflows u64'') (u64_of_usize data_count)) (\<lambda>d.
     rbind (checked_sidecar_index_capacity_layout b p d) (\<lambda>layout.
     Inr (sil_block_count layout, sil_inline_entry_bytes layout)))))"

section \<open>Encoding\<close>

text \<open>Counts and positions that \<open>compute_canonical_metadata_hash\<close> and \<open>build_header\<close> compute in the
  same way, with the same errors: real shards, parity blocks, tail start, footer index and total.\<close>

definition descriptor_layout ::
  "SidecarDescriptor \<Rightarrow> u64 \<Rightarrow> (u64 \<times> u64 \<times> u64 \<times> u64 \<times> u64) parity_result" where
  "descriptor_layout d shard_index_block_count =
     rbind (descriptor_range d) (\<lambda>real_data_shard_count.
     rbind (descriptor_parity d) (\<lambda>parity.
     let parity_block_count = ucast parity
     in
     rbind (ok_or (SidecarParse ''sidecar tail header start overflows'')
       (checked_add shard_index_block_count parity_block_count)) (\<lambda>tail_header_start_block.
     rbind (ok_or (SidecarParse ''sidecar footer block index overflows'')
       (checked_add tail_header_start_block shard_index_block_count)) (\<lambda>footer_block_index.
     rbind (checked_sidecar_total_blocks shard_index_block_count parity_block_count)
       (\<lambda>sidecar_total_block_count.
     Inr (real_data_shard_count, parity_block_count, tail_header_start_block, footer_block_index,
       sidecar_total_block_count))))))"

definition compute_canonical_metadata_hash ::
  "(bytes \<Rightarrow> bytes) \<Rightarrow> (bytes \<Rightarrow> bytes \<Rightarrow> bytes) \<Rightarrow> SidecarDescriptor \<Rightarrow> SidecarIndex \<Rightarrow> u64 \<Rightarrow> u64 \<Rightarrow>
     bytes parity_result" where
  "compute_canonical_metadata_hash sha256 hmac d index shard_index_block_count inline_index_entry_bytes =
     rbind (descriptor_layout d shard_index_block_count)
     (\<lambda>(real_data_shard_count, parity_block_count, tail_header_start_block, footer_block_index,
        sidecar_total_block_count).
     Inr (sha256 (SIDECAR_METADATA_HASH_DOMAIN @ derive_sidecar_magic hmac (sd_tape_uuid d) @
       sd_tape_uuid d @ le_bytes 8 (sd_epoch_id d) @ le_bytes 2 (sd_k d) @ le_bytes 2 (sd_m d) @
       le_bytes 4 (sd_stripes_per_epoch d) @ le_bytes 4 (sd_block_size d) @
       le_bytes 4 SIDECAR_SCHEMA_VERSION @ le_bytes 8 (sd_protected_ordinal_start d) @
       le_bytes 8 (sd_protected_ordinal_end_exclusive d) @
       le_bytes 8 (ucast (sd_stripes_per_epoch d) * ucast (sd_k d) :: u64) @
       le_bytes 8 real_data_shard_count @ le_bytes 8 parity_block_count @
       le_bytes 8 real_data_shard_count @ le_bytes 8 shard_index_block_count @
       le_bytes 8 inline_index_entry_bytes @ le_bytes 8 sidecar_total_block_count @
       le_bytes 8 (0 :: u64) @ le_bytes 8 tail_header_start_block @ le_bytes 8 footer_block_index @
       concat (map parity_entry_bytes (si_parity_entries index)) @
       concat (map (le_bytes 8) (si_data_shard_crc64s index)))))"

definition sidecar_build_header ::
  "(bytes \<Rightarrow> bytes \<Rightarrow> bytes) \<Rightarrow> SidecarDescriptor \<Rightarrow> u64 \<Rightarrow> u64 \<Rightarrow> SidecarCopyKind \<Rightarrow> bytes \<Rightarrow>
     SidecarHeader parity_result" where
  "sidecar_build_header hmac d shard_index_block_count inline_index_entry_bytes copy_kind
     canonical_metadata_hash =
     rbind (descriptor_layout d shard_index_block_count)
     (\<lambda>(real_data_shard_count, parity_block_count, tail_header_start_block, footer_block_index,
        sidecar_total_block_count).
     Inr \<lparr>sh_magic = derive_sidecar_magic hmac (sd_tape_uuid d), sh_tape_uuid = sd_tape_uuid d,
       sh_epoch_id = sd_epoch_id d, sh_k = sd_k d, sh_m = sd_m d,
       sh_stripes_per_epoch = sd_stripes_per_epoch d, sh_block_size = sd_block_size d,
       sh_schema_version = SIDECAR_SCHEMA_VERSION,
       sh_protected_ordinal_start = sd_protected_ordinal_start d,
       sh_protected_ordinal_end_exclusive = sd_protected_ordinal_end_exclusive d,
       sh_logical_shard_count = ucast (sd_stripes_per_epoch d) * ucast (sd_k d),
       sh_real_data_shard_count = real_data_shard_count, sh_parity_block_count = parity_block_count,
       sh_data_crc_count = real_data_shard_count,
       sh_shard_index_block_count = shard_index_block_count,
       sh_inline_index_entry_bytes = inline_index_entry_bytes,
       sh_sidecar_total_block_count = sidecar_total_block_count,
       sh_primary_header_start_block = 0, sh_tail_header_start_block = tail_header_start_block,
       sh_footer_block_index = footer_block_index, sh_copy_kind = copy_kind, sh_copy_generation = 0,
       sh_canonical_metadata_hash = canonical_metadata_hash, sh_header_crc64 = 0,
       sh_block0_crc64 = 0\<rparr>)"

definition sidecar_header_fields :: "SidecarHeader \<Rightarrow> (nat \<times> bytes) list" where
  "sidecar_header_fields h =
     [(0x00, sh_magic h),
      (0x08, sh_tape_uuid h),
      (0x18, le_bytes 8 (sh_epoch_id h)),
      (0x20, le_bytes 2 (sh_k h)),
      (0x22, le_bytes 2 (sh_m h)),
      (0x24, le_bytes 4 (sh_stripes_per_epoch h)),
      (0x28, le_bytes 4 (sh_block_size h)),
      (0x2C, le_bytes 4 (sh_schema_version h)),
      (0x30, le_bytes 8 (sh_protected_ordinal_start h)),
      (0x38, le_bytes 8 (sh_protected_ordinal_end_exclusive h)),
      (0x40, le_bytes 8 (sh_logical_shard_count h)),
      (0x48, le_bytes 8 (sh_real_data_shard_count h)),
      (0x50, le_bytes 8 (sh_parity_block_count h)),
      (0x58, le_bytes 8 (sh_data_crc_count h)),
      (0x60, le_bytes 8 (sh_shard_index_block_count h)),
      (0x68, le_bytes 8 (sh_inline_index_entry_bytes h)),
      (0x70, le_bytes 8 (sh_sidecar_total_block_count h)),
      (0x78, le_bytes 8 (sh_primary_header_start_block h)),
      (0x80, le_bytes 8 (sh_tail_header_start_block h)),
      (0x88, le_bytes 8 (sh_footer_block_index h)),
      (0x90, le_bytes 2 (SidecarCopyKind_to_u16 (sh_copy_kind h))),
      (0x92, le_bytes 2 (0 :: u16)),
      (0x94, le_bytes 4 (sh_copy_generation h)),
      (0x98, sh_canonical_metadata_hash h),
      (0xB8, le_bytes 8 (0 :: u64))]"

definition write_header_without_crc :: "SidecarHeader \<Rightarrow> bytes \<Rightarrow> bytes" where
  "write_header_without_crc h block0 = write_fields (sidecar_header_fields h) block0"

definition finalize_header_block :: "SidecarHeader \<Rightarrow> bytes \<Rightarrow> SidecarHeader \<times> bytes" where
  "finalize_header_block h block0 =
     (let block0 = write_header_without_crc h (copy_at 0 (replicate SIDECAR_HEADER_LEN 0) block0);
          header_crc64 = crc64_xz (take SIDECAR_HEADER_CRC_OFFSET block0);
          block0 = copy_at SIDECAR_HEADER_CRC_OFFSET (le_bytes 8 header_crc64) block0;
          crc_offset = length block0 - 8;
          block0_crc64 = crc64_xz (take crc_offset block0)
      in (h\<lparr>sh_header_crc64 := header_crc64, sh_block0_crc64 := block0_crc64\<rparr>,
          copy_at crc_offset (le_bytes 8 block0_crc64) block0))"

definition encode_sidecar_index_blocks ::
  "(bytes \<Rightarrow> bytes) \<Rightarrow> (bytes \<Rightarrow> bytes \<Rightarrow> bytes) \<Rightarrow> SidecarDescriptor \<Rightarrow> SidecarIndex \<Rightarrow>
     EncodedSidecarIndex parity_result" where
  "encode_sidecar_index_blocks sha256 hmac d index =
     rbind (validate_descriptor d) (\<lambda>block_size.
     rbind (validate_index_shape d index) (\<lambda>_.
     rbind (compute_index_layout block_size (length (si_parity_entries index))
       (length (si_data_shard_crc64s index))) (\<lambda>(expected_h, expected_inline).
     rbind (pack_index_blocks block_size index) (\<lambda>blocks.
     rbind (compute_canonical_metadata_hash sha256 hmac d index expected_h expected_inline)
       (\<lambda>canonical_metadata_hash.
     rbind (sidecar_build_header hmac d expected_h expected_inline Primary canonical_metadata_hash)
       (\<lambda>header.
     let (header, block0) = finalize_header_block header (blocks ! 0)
     in Inr \<lparr>esi_header = header, esi_blocks = blocks[0 := block0]\<rparr>))))))"

definition shard_entry ::
  "SidecarDescriptor \<Rightarrow> nat \<Rightarrow> nat \<times> bytes \<Rightarrow> ParityShardIndexEntry parity_result" where
  "shard_entry d block_size = (\<lambda>(i, shard).
     if length shard \<noteq> block_size
     then Inl (SidecarParse ''sidecar parity shard {i} length {} != block_size {block_size}'')
     else Inr \<lparr>psi_stripe_index = word_of_nat (i div unat (sd_m d)),
       psi_parity_index = word_of_nat (i mod unat (sd_m d)),
       psi_parity_shard_crc64 = parity_shard_crc64 shard\<rparr>)"

definition sidecar_metadata ::
  "(bytes \<Rightarrow> bytes) \<Rightarrow> (bytes \<Rightarrow> bytes \<Rightarrow> bytes) \<Rightarrow> SidecarDescriptor \<Rightarrow> bytes list \<Rightarrow> u64 list \<Rightarrow>
     (EncodedSidecarIndex \<times> SidecarIndex) parity_result" where
  "sidecar_metadata sha256 hmac d parity_shards data_shard_crc64s =
     rbind (validate_descriptor d) (\<lambda>block_size.
     rbind (descriptor_parity d) (\<lambda>expected_parity_shards.
     if length parity_shards \<noteq> unat expected_parity_shards
     then Inl (SidecarParse ''sidecar has {} parity shards, expected {expected_parity_shards}'')
     else
     rbind (try_map (shard_entry d block_size) (List.enumerate 0 parity_shards)) (\<lambda>parity_entries.
     let index = \<lparr>si_parity_entries = parity_entries, si_data_shard_crc64s = data_shard_crc64s\<rparr>
     in
     rbind (encode_sidecar_index_blocks sha256 hmac d index) (\<lambda>encoded_index.
     Inr (encoded_index, index)))))"

definition sidecar_footer_fields ::
  "(bytes \<Rightarrow> bytes \<Rightarrow> bytes) \<Rightarrow> SidecarHeader \<Rightarrow> (nat \<times> bytes) list" where
  "sidecar_footer_fields hmac h =
     [(0x00, derive_sidecar_footer_magic hmac (sh_tape_uuid h)),
      (0x08, le_bytes 2 SIDECAR_FOOTER_VERSION),
      (0x0A, le_bytes 2 (0 :: u16)),
      (0x0C, le_bytes 4 (0 :: u32)),
      (0x10, sh_tape_uuid h),
      (0x20, le_bytes 8 (sh_epoch_id h)),
      (0x28, le_bytes 8 (sh_protected_ordinal_start h)),
      (0x30, le_bytes 8 (sh_protected_ordinal_end_exclusive h)),
      (0x38, le_bytes 8 (sh_shard_index_block_count h)),
      (0x40, le_bytes 8 (sh_parity_block_count h)),
      (0x48, le_bytes 8 (sh_sidecar_total_block_count h)),
      (0x50, le_bytes 8 (sh_primary_header_start_block h)),
      (0x58, le_bytes 8 (sh_tail_header_start_block h)),
      (0x60, sh_canonical_metadata_hash h)]"

definition encode_sidecar_footer_block ::
  "(bytes \<Rightarrow> bytes \<Rightarrow> bytes) \<Rightarrow> SidecarHeader \<Rightarrow> bytes parity_result" where
  "encode_sidecar_footer_block hmac h =
     (let block_size = unat (sh_block_size h)
      in if block_size < SIDECAR_FOOTER_LEN
      then Inl (SidecarParse ''sidecar block_size smaller than footer locator'')
      else
      let block = write_fields (sidecar_footer_fields hmac h) (replicate block_size 0)
      in Inr (copy_at SIDECAR_FOOTER_CRC_OFFSET
        (le_bytes 8 (crc64_xz (take SIDECAR_FOOTER_CRC_OFFSET block))) block))"

text \<open>The body of the two nested loops that move the shards into emission order.\<close>

definition emit_shard ::
  "SidecarDescriptor \<Rightarrow> u64 \<Rightarrow> bytes list \<times> bytes option list \<Rightarrow> nat \<times> nat \<Rightarrow>
     (bytes list \<times> bytes option list) parity_result" where
  "emit_shard d shard_index_block_count = (\<lambda>(blocks, parity_shards) (parity, stripe).
     let entry_index = stripe * unat (sd_m d) + parity
     in
     rbind (parity_block_position (word_of_nat stripe) (word_of_nat parity)
       (sd_stripes_per_epoch d) (sd_m d) shard_index_block_count) (\<lambda>block_position.
     if block_position \<noteq> word_of_nat (length blocks)
     then Inl (SidecarParse ''sidecar parity locator disagrees with physical emission order'')
     else if entry_index \<ge> length parity_shards then Inl (Invariant ''index out of bounds'')
     else
     rbind (ok_or (Invariant ''duplicate parity block position'') (parity_shards ! entry_index))
       (\<lambda>shard.
     Inr (blocks @ [shard], parity_shards[entry_index := None]))))"

definition encode_sidecar_owned ::
  "(bytes \<Rightarrow> bytes) \<Rightarrow> (bytes \<Rightarrow> bytes \<Rightarrow> bytes) \<Rightarrow> SidecarDescriptor \<Rightarrow> bytes list \<Rightarrow> u64 list \<Rightarrow>
     EncodedSidecarTapeFile parity_result" where
  "encode_sidecar_owned sha256 hmac d parity_shards data_shard_crc64s =
     rbind (sidecar_metadata sha256 hmac d parity_shards data_shard_crc64s) (\<lambda>(encoded_index, index).
     let header = esi_header encoded_index
     in if length parity_shards + unat (sh_shard_index_block_count header) + 1 \<ge> 2 ^ 64
     then Inl (SidecarParse ''sidecar output block capacity overflows usize'')
     else
     rbind (try_fold (emit_shard d (sh_shard_index_block_count header))
       (esi_blocks encoded_index, map Some parity_shards)
       (List.product [0..<unat (sd_m d)] [0..<unat (sd_stripes_per_epoch d)])) (\<lambda>(blocks, _).
     rbind (pack_index_blocks (unat (sd_block_size d)) index) (\<lambda>tail_blocks.
     rbind (sidecar_build_header hmac d (sh_shard_index_block_count header)
       (sh_inline_index_entry_bytes header) Tail (sh_canonical_metadata_hash header)) (\<lambda>tail_header.
     let (tail_header, block0) = finalize_header_block tail_header (tail_blocks ! 0)
     in
     rbind (encode_sidecar_footer_block hmac header) (\<lambda>footer_block.
     Inr \<lparr>estf_header = header, estf_index = index,
          estf_blocks = blocks @ tail_blocks[0 := block0] @ [footer_block]\<rparr>)))))"

definition encode_sidecar_tape_file ::
  "(bytes \<Rightarrow> bytes) \<Rightarrow> (bytes \<Rightarrow> bytes \<Rightarrow> bytes) \<Rightarrow> SidecarDescriptor \<Rightarrow> bytes list \<Rightarrow> u64 list \<Rightarrow>
     EncodedSidecarTapeFile parity_result" where
  "encode_sidecar_tape_file = encode_sidecar_owned"

section \<open>Parsing\<close>

definition header_counts :: "SidecarHeader \<Rightarrow> HeaderCounts" where
  "header_counts h =
     \<lparr>hc_k = sh_k h, hc_m = sh_m h, hc_stripes_per_epoch = sh_stripes_per_epoch h,
      hc_protected_ordinal_start = sh_protected_ordinal_start h,
      hc_protected_ordinal_end_exclusive = sh_protected_ordinal_end_exclusive h,
      hc_logical_shard_count = sh_logical_shard_count h,
      hc_real_data_shard_count = sh_real_data_shard_count h,
      hc_parity_block_count = sh_parity_block_count h, hc_data_crc_count = sh_data_crc_count h,
      hc_shard_index_block_count = sh_shard_index_block_count h,
      hc_sidecar_total_block_count = sh_sidecar_total_block_count h,
      hc_primary_header_start_block = sh_primary_header_start_block h,
      hc_tail_header_start_block = sh_tail_header_start_block h,
      hc_footer_block_index = sh_footer_block_index h, hc_copy_generation = sh_copy_generation h\<rparr>"

text \<open>The fields of block 0; the caller has decoded the copy kind and checked the length.\<close>

definition read_header :: "bytes \<Rightarrow> SidecarCopyKind \<Rightarrow> SidecarHeader" where
  "read_header block0 copy_kind =
     \<lparr>sh_magic = slice 0x00 8 block0, sh_tape_uuid = slice 0x08 16 block0,
      sh_epoch_id = le_word (slice 0x18 8 block0), sh_k = le_word (slice 0x20 2 block0),
      sh_m = le_word (slice 0x22 2 block0), sh_stripes_per_epoch = le_word (slice 0x24 4 block0),
      sh_block_size = le_word (slice 0x28 4 block0), sh_schema_version = le_word (slice 0x2C 4 block0),
      sh_protected_ordinal_start = le_word (slice 0x30 8 block0),
      sh_protected_ordinal_end_exclusive = le_word (slice 0x38 8 block0),
      sh_logical_shard_count = le_word (slice 0x40 8 block0),
      sh_real_data_shard_count = le_word (slice 0x48 8 block0),
      sh_parity_block_count = le_word (slice 0x50 8 block0),
      sh_data_crc_count = le_word (slice 0x58 8 block0),
      sh_shard_index_block_count = le_word (slice 0x60 8 block0),
      sh_inline_index_entry_bytes = le_word (slice 0x68 8 block0),
      sh_sidecar_total_block_count = le_word (slice 0x70 8 block0),
      sh_primary_header_start_block = le_word (slice 0x78 8 block0),
      sh_tail_header_start_block = le_word (slice 0x80 8 block0),
      sh_footer_block_index = le_word (slice 0x88 8 block0), sh_copy_kind = copy_kind,
      sh_copy_generation = le_word (slice 0x94 4 block0),
      sh_canonical_metadata_hash = slice 0x98 32 block0,
      sh_header_crc64 = le_word (slice SIDECAR_HEADER_CRC_OFFSET 8 block0),
      sh_block0_crc64 = le_word (slice (length block0 - 8) 8 block0)\<rparr>"

definition parse_sidecar_header_block ::
  "(bytes \<Rightarrow> bytes \<Rightarrow> bytes) \<Rightarrow> bytes \<Rightarrow> bytes \<Rightarrow> SidecarHeader parity_result" where
  "parse_sidecar_header_block hmac block0 expected_tape_uuid =
     (if length block0 < SIDECAR_HEADER_LEN + 8
      then Inl (SidecarParse ''sidecar block0 too short: got {}, need at least {}'')
      else if slice 0x00 8 block0 \<noteq> derive_sidecar_magic hmac expected_tape_uuid
      then Inl (SidecarParse ''sidecar magic mismatch'')
      else if slice 0x08 16 block0 \<noteq> expected_tape_uuid
      then Inl (SidecarParse ''sidecar tape UUID mismatch'')
      else
      rbind (SidecarCopyKind_from_u16 (le_word (slice 0x90 2 block0))) (\<lambda>copy_kind.
      if le_word (slice 0x92 2 block0) \<noteq> (0 :: u16)
      then Inl (SidecarParse ''sidecar copy-kind reserved field non-zero: 0x{copy_kind_reserved:04x}'')
      else if le_word (slice 0xB8 8 block0) \<noteq> (0 :: u64)
      then Inl (SidecarParse ''sidecar header reserved field non-zero: 0x{header_reserved:016x}'')
      else
      let h = read_header block0 copy_kind;
          crc_offset = unat (sh_block_size h) - 8
      in if sh_schema_version h \<noteq> SIDECAR_SCHEMA_VERSION
      then Inl (SidecarParse ''unsupported sidecar schema version: got {schema_version}, accept {SIDECAR_SCHEMA_VERSION}'')
      else if unat (sh_block_size h) \<noteq> length block0
      then Inl (SidecarParse ''sidecar block_size {block_size} does not match block0 length {}'')
      else if unat (sh_block_size h) < SIDECAR_HEADER_LEN + 8
      then Inl (SidecarParse ''sidecar block_size smaller than header plus trailing CRC'')
      else if sh_header_crc64 h \<noteq> crc64_xz (take SIDECAR_HEADER_CRC_OFFSET block0)
      then Inl (SidecarParse ''sidecar header CRC mismatch: stored 0x{header_crc64:016x}, computed 0x{computed_header_crc64:016x}'')
      else if sh_block0_crc64 h \<noteq> crc64_xz (take crc_offset block0)
      then Inl (SidecarParse ''sidecar block0 CRC mismatch: stored 0x{block0_crc64:016x}, computed 0x{computed_block0_crc64:016x}'')
      else
      rbind (validate_header_counts (header_counts h)) (\<lambda>_.
      rbind (compute_index_layout (unat (sh_block_size h)) (unat (sh_parity_block_count h))
        (unat (sh_data_crc_count h))) (\<lambda>(expected_h, expected_inline).
      if sh_shard_index_block_count h \<noteq> expected_h
      then Inl (SidecarParse ''sidecar shard_index_block_count {shard_index_block_count} != expected {expected_h}'')
      else if sh_inline_index_entry_bytes h \<noteq> expected_inline
      then Inl (SidecarParse ''sidecar inline_index_entry_bytes {inline_index_entry_bytes} != expected {expected_inline}'')
      else
      let inline_end = SIDECAR_HEADER_LEN + unat (sh_inline_index_entry_bytes h)
      in if inline_end \<ge> 2 ^ 64 then Inl (SidecarParse ''sidecar inline index end overflows usize'')
      else if inline_end > crc_offset
      then Inl (SidecarParse ''sidecar inline index exceeds block0 capacity'')
      else
      rbind (sidecar_ensure_zero_filled (slice inline_end (crc_offset - inline_end) block0)
        ''block0 index padding'') (\<lambda>_.
      Inr h)))))"

definition classify_sidecar_header_block ::
  "(bytes \<Rightarrow> bytes \<Rightarrow> bytes) \<Rightarrow> bytes \<Rightarrow> bytes \<Rightarrow> SidecarHeader option parity_result" where
  "classify_sidecar_header_block hmac block0 expected_tape_uuid =
     (if length block0 < 8 \<or> take 8 block0 \<noteq> derive_sidecar_magic hmac expected_tape_uuid
      then Inr None
      else
      rbind (parse_sidecar_header_block hmac block0 expected_tape_uuid) (\<lambda>header.
      if sh_copy_kind header \<noteq> Primary
      then Inl (SidecarParse ''sidecar file starts with {:?} header copy, expected primary'')
      else Inr (Some header)))"

definition read_footer :: "bytes \<Rightarrow> SidecarFooter" where
  "read_footer block =
     \<lparr>sf_magic = slice 0x00 8 block, sf_sidecar_footer_version = le_word (slice 0x08 2 block),
      sf_tape_uuid = slice 0x10 16 block, sf_epoch_id = le_word (slice 0x20 8 block),
      sf_protected_ordinal_start = le_word (slice 0x28 8 block),
      sf_protected_ordinal_end_exclusive = le_word (slice 0x30 8 block),
      sf_sidecar_header_block_count = le_word (slice 0x38 8 block),
      sf_parity_shard_block_count = le_word (slice 0x40 8 block),
      sf_sidecar_total_block_count = le_word (slice 0x48 8 block),
      sf_primary_header_start_block = le_word (slice 0x50 8 block),
      sf_tail_header_start_block = le_word (slice 0x58 8 block),
      sf_canonical_metadata_hash = slice 0x60 32 block,
      sf_footer_crc64 = le_word (slice SIDECAR_FOOTER_CRC_OFFSET 8 block)\<rparr>"

definition parse_sidecar_footer_block ::
  "(bytes \<Rightarrow> bytes \<Rightarrow> bytes) \<Rightarrow> bytes \<Rightarrow> bytes \<Rightarrow> SidecarFooter parity_result" where
  "parse_sidecar_footer_block hmac footer_block expected_tape_uuid =
     (if length footer_block < SIDECAR_FOOTER_LEN
      then Inl (SidecarParse ''sidecar footer block too short: got {}, need at least {SIDECAR_FOOTER_LEN}'')
      else
      let footer = read_footer footer_block
      in if sf_magic footer \<noteq> derive_sidecar_footer_magic hmac expected_tape_uuid
      then Inl (SidecarParse ''sidecar footer magic mismatch'')
      else if sf_sidecar_footer_version footer \<noteq> SIDECAR_FOOTER_VERSION
      then Inl (SidecarParse ''unsupported sidecar footer version: got {sidecar_footer_version}, accept {SIDECAR_FOOTER_VERSION}'')
      else if le_word (slice 0x0A 2 footer_block) \<noteq> (0 :: u16) \<or> le_word (slice 0x0C 4 footer_block) \<noteq> (0 :: u32)
      then Inl (SidecarParse ''sidecar footer reserved fields are non-zero'')
      else if sf_tape_uuid footer \<noteq> expected_tape_uuid
      then Inl (SidecarParse ''sidecar footer tape UUID mismatch'')
      else if sf_footer_crc64 footer \<noteq> crc64_xz (take SIDECAR_FOOTER_CRC_OFFSET footer_block)
      then Inl (SidecarParse ''sidecar footer CRC mismatch: stored 0x{footer_crc64:016x}, computed 0x{computed:016x}'')
      else
      rbind (sidecar_ensure_zero_filled (drop SIDECAR_FOOTER_LEN footer_block) ''sidecar footer padding'') (\<lambda>_.
      rbind (ok_or (SidecarParse ''sidecar footer total block count is zero'')
        (checked_sub (sf_sidecar_total_block_count footer) 1)) (\<lambda>footer_block_index.
      rbind (validate_sidecar_layout (sf_sidecar_header_block_count footer)
        (sf_parity_shard_block_count footer) (sf_sidecar_total_block_count footer)
        (sf_primary_header_start_block footer) (sf_tail_header_start_block footer)
        footer_block_index) (\<lambda>_.
      Inr footer))))"

definition validate_spill_block_crc :: "bytes \<Rightarrow> unit parity_result" where
  "validate_spill_block_crc block =
     (let crc_offset = length block - 8
      in if le_word (slice crc_offset 8 block) \<noteq> crc64_xz (take crc_offset block)
      then Inl (SidecarParse ''sidecar index block {block_index} CRC mismatch: stored 0x{stored:016x}, computed 0x{computed:016x}'')
      else Inr ())"

definition validate_index_block :: "nat \<Rightarrow> nat \<times> bytes \<Rightarrow> unit parity_result" where
  "validate_index_block block_size = (\<lambda>(i, block).
     if length block \<noteq> block_size
     then Inl (SidecarParse ''sidecar index block {i} length {} != block_size {block_size}'')
     else if i > 0 then validate_spill_block_crc block
     else Inr ())"

definition parse_sidecar_index_blocks ::
  "(bytes \<Rightarrow> bytes) \<Rightarrow> (bytes \<Rightarrow> bytes \<Rightarrow> bytes) \<Rightarrow> bytes list \<Rightarrow> bytes \<Rightarrow>
     DecodedSidecarIndex parity_result" where
  "parse_sidecar_index_blocks sha256 hmac blocks expected_tape_uuid =
     (case blocks of
        [] \<Rightarrow> Inl (SidecarParse ''sidecar has no header block'')
      | block0 # _ \<Rightarrow>
          rbind (parse_sidecar_header_block hmac block0 expected_tape_uuid) (\<lambda>header.
          let block_size = unat (sh_block_size header);
              h = unat (sh_shard_index_block_count header)
          in if length blocks < h
          then Inl (SidecarParse ''sidecar has {} index blocks, header requires {h}'')
          else
          rbind (try_fold (\<lambda>_. validate_index_block block_size) () (List.enumerate 0 (take h blocks))) (\<lambda>_.
          rbind (parse_index_entries header blocks) (\<lambda>index.
          rbind (validate_index_order header index) (\<lambda>_.
          rbind (compute_canonical_metadata_hash sha256 hmac (header_descriptor header) index
            (sh_shard_index_block_count header) (sh_inline_index_entry_bytes header)) (\<lambda>expected_hash.
          if sh_canonical_metadata_hash header \<noteq> expected_hash
          then Inl (SidecarParse ''sidecar canonical metadata hash mismatch'')
          else Inr \<lparr>dsi_header = header, dsi_index = index\<rparr>))))))"

definition sidecar_validate_header_matches_footer ::
  "SidecarHeader \<Rightarrow> SidecarFooter \<Rightarrow> unit parity_result" where
  "sidecar_validate_header_matches_footer header footer =
     (if sh_tape_uuid header \<noteq> sf_tape_uuid footer
         \<or> sh_epoch_id header \<noteq> sf_epoch_id footer
         \<or> sh_protected_ordinal_start header \<noteq> sf_protected_ordinal_start footer
         \<or> sh_protected_ordinal_end_exclusive header \<noteq> sf_protected_ordinal_end_exclusive footer
         \<or> sh_shard_index_block_count header \<noteq> sf_sidecar_header_block_count footer
         \<or> sh_parity_block_count header \<noteq> sf_parity_shard_block_count footer
         \<or> sh_sidecar_total_block_count header \<noteq> sf_sidecar_total_block_count footer
         \<or> sh_primary_header_start_block header \<noteq> sf_primary_header_start_block footer
         \<or> sh_tail_header_start_block header \<noteq> sf_tail_header_start_block footer
         \<or> sh_canonical_metadata_hash header \<noteq> sf_canonical_metadata_hash footer
      then Inl (SidecarParse ''sidecar header/index copy does not match footer locator'')
      else Inr ())"

definition sidecar_header_metadata_matches :: "SidecarHeader \<Rightarrow> SidecarHeader \<Rightarrow> bool" where
  "sidecar_header_metadata_matches left right \<longleftrightarrow>
     sh_magic left = sh_magic right
     \<and> sh_tape_uuid left = sh_tape_uuid right
     \<and> sh_epoch_id left = sh_epoch_id right
     \<and> sh_k left = sh_k right
     \<and> sh_m left = sh_m right
     \<and> sh_stripes_per_epoch left = sh_stripes_per_epoch right
     \<and> sh_block_size left = sh_block_size right
     \<and> sh_schema_version left = sh_schema_version right
     \<and> sh_protected_ordinal_start left = sh_protected_ordinal_start right
     \<and> sh_protected_ordinal_end_exclusive left = sh_protected_ordinal_end_exclusive right
     \<and> sh_logical_shard_count left = sh_logical_shard_count right
     \<and> sh_real_data_shard_count left = sh_real_data_shard_count right
     \<and> sh_parity_block_count left = sh_parity_block_count right
     \<and> sh_data_crc_count left = sh_data_crc_count right
     \<and> sh_shard_index_block_count left = sh_shard_index_block_count right
     \<and> sh_inline_index_entry_bytes left = sh_inline_index_entry_bytes right
     \<and> sh_sidecar_total_block_count left = sh_sidecar_total_block_count right
     \<and> sh_primary_header_start_block left = sh_primary_header_start_block right
     \<and> sh_tail_header_start_block left = sh_tail_header_start_block right
     \<and> sh_footer_block_index left = sh_footer_block_index right
     \<and> sh_copy_generation left = sh_copy_generation right
     \<and> sh_canonical_metadata_hash left = sh_canonical_metadata_hash right"

definition parse_sidecar_index_copy ::
  "(bytes \<Rightarrow> bytes) \<Rightarrow> (bytes \<Rightarrow> bytes \<Rightarrow> bytes) \<Rightarrow> bytes list \<Rightarrow> bytes \<Rightarrow> SidecarFooter \<Rightarrow>
     SidecarCopyKind \<Rightarrow> DecodedSidecarIndex parity_result" where
  "parse_sidecar_index_copy sha256 hmac blocks expected_tape_uuid footer expected_copy_kind =
     rbind (parse_sidecar_index_blocks sha256 hmac blocks expected_tape_uuid) (\<lambda>decoded.
     if sh_copy_kind (dsi_header decoded) \<noteq> expected_copy_kind
     then Inl (SidecarParse ''sidecar {:?} copy decoded as {:?}'')
     else
     rbind (sidecar_validate_header_matches_footer (dsi_header decoded) footer) (\<lambda>_.
     Inr decoded))"

definition choose_sidecar_copy ::
  "DecodedSidecarIndex parity_result \<Rightarrow> DecodedSidecarIndex parity_result \<Rightarrow>
     DecodedSidecarIndex parity_result" where
  "choose_sidecar_copy primary tail =
     (case (primary, tail) of
        (Inr primary, Inr tail) \<Rightarrow>
          if \<not> sidecar_header_metadata_matches (dsi_header primary) (dsi_header tail)
             \<or> dsi_index primary \<noteq> dsi_index tail
          then Inl (SidecarParse ''sidecar primary and tail metadata copies disagree'')
          else Inr primary
      | (Inr primary, Inl _) \<Rightarrow> Inr primary
      | (Inl _, Inr tail) \<Rightarrow> Inr tail
      | (Inl _, Inl _) \<Rightarrow>
          Inl (SidecarParse ''no usable sidecar header/index copy: primary={primary_err}; tail={tail_err}''))"

definition read_shard ::
  "DecodedSidecarIndex \<Rightarrow> bytes list \<Rightarrow> ParityShardIndexEntry \<Rightarrow> bytes parity_result" where
  "read_shard decoded blocks entry =
     rbind (parity_block_position (psi_stripe_index entry) (psi_parity_index entry)
       (sh_stripes_per_epoch (dsi_header decoded)) (sh_m (dsi_header decoded))
       (sh_shard_index_block_count (dsi_header decoded))) (\<lambda>position.
     if unat position \<ge> length blocks then Inl (Invariant ''index out of bounds'')
     else
     let shard = blocks ! unat position
     in if length shard \<noteq> unat (sh_block_size (dsi_header decoded))
     then Inl (SidecarParse ''sidecar parity shard {i} block length {} != block_size {block_size}'')
     else if parity_shard_crc64 shard \<noteq> psi_parity_shard_crc64 entry
     then Inl (SidecarParse ''sidecar parity shard {i} ({}, {}) CRC mismatch: stored 0x{:016x}, computed 0x{computed:016x}'')
     else Inr shard)"

definition parse_sidecar_tape_file ::
  "(bytes \<Rightarrow> bytes) \<Rightarrow> (bytes \<Rightarrow> bytes \<Rightarrow> bytes) \<Rightarrow> bytes list \<Rightarrow> bytes \<Rightarrow>
     DecodedSidecarTapeFile parity_result" where
  "parse_sidecar_tape_file sha256 hmac blocks expected_tape_uuid =
     (if blocks = [] then Inl (SidecarParse ''sidecar has no footer block'')
      else
      rbind (parse_sidecar_footer_block hmac (last blocks) expected_tape_uuid) (\<lambda>footer.
      if length blocks \<noteq> unat (sf_sidecar_total_block_count footer)
      then Inl (SidecarParse ''sidecar tape file has {} blocks, expected exactly {expected_blocks}'')
      else
      let h = unat (sf_sidecar_header_block_count footer);
          tail_start = unat (sf_tail_header_start_block footer);
          tail_end = tail_start + h
      in if tail_end \<ge> 2 ^ 64
      then Inl (SidecarParse ''sidecar tail header range overflows usize'')
      else if h = 0 \<or> tail_end > length blocks - 1
      then Inl (SidecarParse ''sidecar tail header range is outside file'')
      else
      let primary = parse_sidecar_index_copy sha256 hmac (take h blocks) expected_tape_uuid footer Primary;
          tail = parse_sidecar_index_copy sha256 hmac (slice tail_start h blocks) expected_tape_uuid footer Tail
      in
      rbind (choose_sidecar_copy primary tail) (\<lambda>decoded.
      rbind (try_map (read_shard decoded blocks) (si_parity_entries (dsi_index decoded))) (\<lambda>parity_shards.
      Inr \<lparr>dstf_header = dsi_header decoded, dstf_index = dsi_index decoded,
           dstf_parity_shards = parity_shards\<rparr>))))"

section \<open>Value-level readings of the checks\<close>

lemma descriptor_range_Inr: "descriptor_range d = Inr r \<longleftrightarrow>
    unat (sd_protected_ordinal_end_exclusive d) = unat (sd_protected_ordinal_start d) + unat r"
  by (simp add: descriptor_range_def checked_simps)

lemma descriptor_parity_Inr: "descriptor_parity d = Inr p \<longleftrightarrow>
    unat (sd_stripes_per_epoch d) * unat (sd_m d) = unat p"
  by (simp add: descriptor_parity_def checked_simps)

lemma checked_total_Inr: "checked_sidecar_total_blocks h p = Inr t \<longleftrightarrow> 2 * unat h + unat p + 1 = unat t"
proof
  assume "checked_sidecar_total_blocks h p = Inr t"
  then show "2 * unat h + unat p + 1 = unat t"
    by (auto simp: checked_sidecar_total_blocks_def checked_simps bind_eq_Some_conv)
next
  assume t: "2 * unat h + unat p + 1 = unat t"
  then obtain a b :: u64 where "unat a = unat h + unat p" "unat b = 2 * unat h + unat p"
    using unat_exists [of "unat h + unat p"] unat_exists [of "2 * unat h + unat p"] unat_u64_less [of t] by force
  then have "checked_add h p = Some a" "checked_add a h = Some b" "checked_add b 1 = Some t"
    using t by (simp_all add: checked_simps)
  then show "checked_sidecar_total_blocks h p = Inr t" by (simp add: checked_sidecar_total_blocks_def)
qed

lemma validate_sidecar_layout_Inr:
  "validate_sidecar_layout h p n prim tail foot = Inr () \<longleftrightarrow>
     h \<noteq> 0 \<and> prim = 0 \<and> unat tail = unat h + unat p \<and> unat foot = 2 * unat h + unat p \<and>
     unat n = 2 * unat h + unat p + 1"
proof -
  have "validate_sidecar_layout h p n prim tail foot = Inr () \<longleftrightarrow>
      h \<noteq> 0 \<and> prim = 0 \<and> unat h + unat p = unat tail \<and> unat tail + unat h = unat foot \<and>
      2 * unat h + unat p + 1 = unat n"
    by (auto simp: validate_sidecar_layout_def checked_simps checked_total_Inr)
  then show ?thesis by auto
qed

lemma shard_product_Inr:
  "checked_sidecar_shard_product (ucast (S :: u32)) (ucast (m :: u16)) = Inr q \<longleftrightarrow> unat S * unat m = unat q"
  by (simp add: checked_sidecar_shard_product_def checked_simps)

lemma unat_logical: "unat (ucast (S :: u32) * ucast (k :: u16) :: u64) = unat S * unat k"
  and unat_logical128: "unat (ucast S * ucast k :: u128) = unat S * unat k"
proof -
  have "unat S * unat k \<le> 4294967296 * 65536"
    using unat_u32_less [of S] unat_u16_less [of k] by (intro mult_mono) simp_all
  moreover have "unat (ucast k :: u128) = unat k" by (simp add: unat_ucast_up)
  ultimately show "unat (ucast (S :: u32) * ucast (k :: u16) :: u64) = unat S * unat k"
    "unat (ucast S * ucast k :: u128) = unat S * unat k"
    by (simp_all add: unat_mult_exact)
qed

lemma validate_shard_counts_Inr:
  "validate_shard_counts c = Inr () \<longleftrightarrow>
     hc_k c \<noteq> 0 \<and> hc_m c \<noteq> 0 \<and> hc_stripes_per_epoch c \<noteq> 0 \<and>
     0 < unat (hc_real_data_shard_count c) \<and>
     unat (hc_protected_ordinal_end_exclusive c) =
       unat (hc_protected_ordinal_start c) + unat (hc_real_data_shard_count c) \<and>
     unat (hc_logical_shard_count c) = unat (hc_stripes_per_epoch c) * unat (hc_k c) \<and>
     unat (hc_real_data_shard_count c) \<le> unat (hc_logical_shard_count c) \<and>
     unat (hc_parity_block_count c) = unat (hc_stripes_per_epoch c) * unat (hc_m c) \<and>
     unat (hc_parity_block_count c) < 2 ^ 32 \<and>
     hc_data_crc_count c = hc_real_data_shard_count c \<and> hc_copy_generation c = 0"
proof -
  have l: "ucast (hc_logical_shard_count c) = (ucast (hc_stripes_per_epoch c) * ucast (hc_k c) :: u128) \<longleftrightarrow>
      unat (hc_logical_shard_count c) = unat (hc_stripes_per_epoch c) * unat (hc_k c)"
    by (simp add: word_unat_eq_iff unat_logical128)
  show ?thesis
    unfolding validate_shard_counts_def Let_def l
    by (auto simp: checked_simps shard_product_Inr word_less_nat_alt unat_gt_0 not_less
        intro!: exI [of _ "hc_parity_block_count c"])
qed

lemma unat_word_of_nat32: "i < 2 ^ 32 \<Longrightarrow> unat (word_of_nat i :: u32) = i"
  and unat_word_of_nat16: "i < 2 ^ 16 \<Longrightarrow> unat (word_of_nat i :: u16) = i"
  by (simp_all add: unsigned_of_nat take_bit_nat_eq_self_iff)

lemma validate_descriptor_Inr:
  "validate_descriptor d = Inr b \<longleftrightarrow> b = unat (sd_block_size d) \<and> 0xD0 \<le> b \<and>
     sd_k d \<noteq> 0 \<and> sd_m d \<noteq> 0 \<and> sd_stripes_per_epoch d \<noteq> 0 \<and>
     unat (sd_protected_ordinal_start d) < unat (sd_protected_ordinal_end_exclusive d) \<and>
     unat (sd_protected_ordinal_end_exclusive d) \<le>
       unat (sd_protected_ordinal_start d) + unat (sd_stripes_per_epoch d) * unat (sd_k d) \<and>
     unat (sd_stripes_per_epoch d) * unat (sd_m d) < 2 ^ 32"
proof -
  have "validate_descriptor d = Inr b \<longleftrightarrow> b = unat (sd_block_size d) \<and> 0xD0 \<le> b \<and>
      sd_k d \<noteq> 0 \<and> sd_m d \<noteq> 0 \<and> sd_stripes_per_epoch d \<noteq> 0 \<and>
      (\<exists>r :: u64. unat (sd_protected_ordinal_end_exclusive d) = unat (sd_protected_ordinal_start d) + unat r \<and>
        0 < unat r \<and> unat r \<le> unat (sd_stripes_per_epoch d) * unat (sd_k d)) \<and>
      (\<exists>p :: u32. unat (sd_stripes_per_epoch d) * unat (sd_m d) = unat p)" (is "_ = ?rhs")
    unfolding validate_descriptor_def Let_def guard_Inr rbind_eq_Inr
      descriptor_range_Inr descriptor_parity_Inr
    by (auto simp: validate_shard_counts_Inr SIDECAR_HEADER_LEN_def unat_logical unat_u32_less) blast
  also have "(\<exists>r :: u64. unat (sd_protected_ordinal_end_exclusive d) = unat (sd_protected_ordinal_start d) + unat r \<and>
        0 < unat r \<and> unat r \<le> unat (sd_stripes_per_epoch d) * unat (sd_k d)) \<longleftrightarrow>
     unat (sd_protected_ordinal_start d) < unat (sd_protected_ordinal_end_exclusive d) \<and>
     unat (sd_protected_ordinal_end_exclusive d) \<le>
       unat (sd_protected_ordinal_start d) + unat (sd_stripes_per_epoch d) * unat (sd_k d)"
    (is "?l \<longleftrightarrow> ?r")
  proof
    assume ?r
    moreover obtain r :: u64 where "unat r =
        unat (sd_protected_ordinal_end_exclusive d) - unat (sd_protected_ordinal_start d)"
      using unat_exists [of "unat (sd_protected_ordinal_end_exclusive d) - unat (sd_protected_ordinal_start d)"]
        unat_u64_less [of "sd_protected_ordinal_end_exclusive d"]
      by (auto simp: less_imp_diff_less)
    ultimately show ?l by (intro exI [of _ r]) auto
  qed auto
  also have "(\<exists>p :: u32. unat (sd_stripes_per_epoch d) * unat (sd_m d) = unat p) \<longleftrightarrow>
      unat (sd_stripes_per_epoch d) * unat (sd_m d) < 2 ^ 32" (is "?l \<longleftrightarrow> ?r")
  proof
    assume ?r
    then show ?l
      by (intro exI [of _ "word_of_nat (unat (sd_stripes_per_epoch d) * unat (sd_m d))"])
        (simp add: unat_word_of_nat32 del: of_nat_mult)
  qed (auto simp: unat_u32_less)
  finally show ?thesis by simp
qed

lemma parity_block_position_Inr:
  "parity_block_position s p S m h = Inr q \<longleftrightarrow> s < S \<and> p < m \<and>
     unat q = unat h + unat p * unat S + unat s"
proof -
  have "parity_block_position s p S m h = Inr q \<longleftrightarrow> s < S \<and> p < m \<and>
      (\<exists>(o' :: u64) (b :: u64). unat p * unat S = unat o' \<and> unat h + unat o' = unat b \<and> unat b + unat s = unat q)"
    by (simp add: parity_block_position_def checked_simps bind_eq_Some_conv not_le)
  also have "(\<exists>(o' :: u64) (b :: u64). unat p * unat S = unat o' \<and> unat h + unat o' = unat b \<and> unat b + unat s = unat q) \<longleftrightarrow>
      unat q = unat h + unat p * unat S + unat s" (is "?l \<longleftrightarrow> ?r")
  proof
    assume ?r
    then obtain a b :: u64 where "unat a = unat p * unat S" "unat b = unat h + unat p * unat S"
      using unat_exists [of "unat p * unat S"] unat_exists [of "unat h + unat p * unat S"] unat_u64_less [of q] by force
    then show ?l using \<open>?r\<close> by (intro exI [of _ a] exI [of _ b]) simp
  qed auto
  finally show ?thesis .
qed

lemma descriptor_layout_Inr:
  "descriptor_layout d h = Inr (r, p, t, f, n) \<longleftrightarrow>
     unat (sd_protected_ordinal_end_exclusive d) = unat (sd_protected_ordinal_start d) + unat r \<and>
     unat p = unat (sd_stripes_per_epoch d) * unat (sd_m d) \<and> unat p < 2 ^ 32 \<and>
     unat t = unat h + unat p \<and> unat f = 2 * unat h + unat p \<and> unat n = 2 * unat h + unat p + 1"
proof -
  have "descriptor_layout d h = Inr (r, p, t, f, n) \<longleftrightarrow>
     unat (sd_protected_ordinal_end_exclusive d) = unat (sd_protected_ordinal_start d) + unat r \<and>
     (\<exists>q :: u32. unat (sd_stripes_per_epoch d) * unat (sd_m d) = unat q \<and> p = ucast q) \<and>
     unat h + unat p = unat t \<and> unat t + unat h = unat f \<and> 2 * unat h + unat p + 1 = unat n"
    unfolding descriptor_layout_def rbind_eq_Inr descriptor_range_Inr descriptor_parity_Inr Let_def
    by (auto simp: checked_simps checked_total_Inr) blast
  also have "(\<exists>q :: u32. unat (sd_stripes_per_epoch d) * unat (sd_m d) = unat q \<and> p = ucast q) \<longleftrightarrow>
     unat p = unat (sd_stripes_per_epoch d) * unat (sd_m d) \<and> unat p < 2 ^ 32" (is "?l \<longleftrightarrow> ?r")
  proof
    assume ?r
    then have "unat (ucast p :: u32) = unat p" by (intro unat_ucast_down) simp
    then show ?l using \<open>?r\<close> by (intro exI [of _ "ucast p"] conjI word_eq_of_unat) simp_all
  qed (auto simp: unat_u32_less)
  finally show ?thesis by auto
qed

section \<open>A written header or footer parses back\<close>

definition header_wf :: "SidecarHeader \<Rightarrow> bool" where
  "header_wf h \<longleftrightarrow> length (sh_magic h) = 8 \<and> length (sh_tape_uuid h) = 16 \<and>
     length (sh_canonical_metadata_hash h) = 32"

lemma sidecar_header_fields_fit: "header_wf h \<Longrightarrow> fields_fit 0 0xC0 (sidecar_header_fields h)"
  by (simp add: header_wf_def sidecar_header_fields_def)

lemma sidecar_copy_kind_roundtrip [simp]:
  "SidecarCopyKind_from_u16 (SidecarCopyKind_to_u16 c) = Inr c"
  by (cases c) (simp_all add: SidecarCopyKind_from_u16_def)

lemma finalized:
  assumes "finalize_header_block h block0 = (h', x)" "header_wf h" "length block0 = b" "0xD0 \<le> b"
  shows "length x = b" "carries x (sidecar_header_fields h)"
    "le_word (slice 0xC0 8 x) = crc64_xz (take 0xC0 x)"
    "le_word (slice (b - 8) 8 x) = crc64_xz (take (b - 8) x)"
    "\<And>off n. 0xC8 \<le> off \<Longrightarrow> off + n \<le> b - 8 \<Longrightarrow> slice off n x = slice off n block0"
    "h' = h\<lparr>sh_header_crc64 := crc64_xz (take 0xC0 x), sh_block0_crc64 := crc64_xz (take (b - 8) x)\<rparr>"
proof -
  let ?z = "copy_at 0 (replicate 0xC8 0) block0"
  let ?w = "write_fields (sidecar_header_fields h) ?z"
  let ?c = "copy_at 0xC0 (le_bytes 8 (crc64_xz (take 0xC0 ?w))) ?w"
  note fit = sidecar_header_fields_fit [OF assms(2)]
  have z: "length ?z = b" using assms(3,4) by simp
  then have w: "length ?w = b" using length_write_fields [OF fit, of ?z] assms(4) by simp
  then have c: "length ?c = b" using assms(4) by simp
  have x: "x = copy_at (b - 8) (le_bytes 8 (crc64_xz (take (b - 8) ?c))) ?c"
    "h' = h\<lparr>sh_header_crc64 := crc64_xz (take 0xC0 ?w), sh_block0_crc64 := crc64_xz (take (b - 8) ?c)\<rparr>"
    using assms(1) c
    by (auto simp: finalize_header_block_def Let_def write_header_without_crc_def SIDECAR_HEADER_LEN_def
        SIDECAR_HEADER_CRC_OFFSET_def)
  show "length x = b" using c assms(4) by (simp add: x)
  have t: "take (b - 8) x = take (b - 8) ?c" using c by (simp add: x take_copy_after)
  have t2: "take 0xC0 x = take 0xC0 ?w"
  proof -
    have "take 0xC0 (take (b - 8) x) = take 0xC0 (take (b - 8) ?c)" by (simp only: t)
    moreover have "min 0xC0 (b - 8) = 0xC0" using assms(4) by simp
    ultimately show ?thesis using assms(4) w by (simp add: take_copy_after)
  qed
  show "carries x (sidecar_header_fields h)"
    using carries_prefix [OF carries_write_fields [OF fit, of ?z] fit t2] z assms(4) by simp
  have "slice 0xC0 8 x = slice 0xC0 8 ?c"
    using slice_prefix [OF t] assms(4) by simp
  also have "\<dots> = le_bytes 8 (crc64_xz (take 0xC0 ?w))" using w assms(4) by (simp add: slice_copy_same)
  finally show "le_word (slice 0xC0 8 x) = crc64_xz (take 0xC0 x)"
    by (simp add: le_word_le_bytes_full t2)
  have "slice (b - 8) 8 x = le_bytes 8 (crc64_xz (take (b - 8) ?c))"
    using c assms(4) by (simp add: x slice_copy_same)
  then show "le_word (slice (b - 8) 8 x) = crc64_xz (take (b - 8) x)"
    by (simp add: le_word_le_bytes_full t)
  show "h' = h\<lparr>sh_header_crc64 := crc64_xz (take 0xC0 x), sh_block0_crc64 := crc64_xz (take (b - 8) x)\<rparr>"
    by (simp only: x(2) t t2)
  fix off n assume o: "0xC8 \<le> off" "off + n \<le> b - 8"
  have "slice off n x = slice off n ?c" using slice_prefix [OF t o(2)] .
  also have "\<dots> = slice off n ?w" using o w assms(4) by (simp add: slice_copy_other)
  also have "\<dots> = slice off n ?z" using slice_write_fields_outside [OF fit, of ?z off n] z assms(4) o by simp
  also have "\<dots> = slice off n block0" using o assms(3,4) by (simp add: slice_copy_other)
  finally show "slice off n x = slice off n block0" .
qed

lemma read_header_carries:
  assumes "carries x (sidecar_header_fields h)" "header_wf h" "length x = b"
    "le_word (slice 0xC0 8 x) = c0" "le_word (slice (b - 8) 8 x) = c1"
  shows "read_header x (sh_copy_kind h) = h\<lparr>sh_header_crc64 := c0, sh_block0_crc64 := c1\<rparr>"
    "slice 0 8 x = sh_magic h" "slice 8 16 x = sh_tape_uuid h"
    "le_word (slice 0x90 2 x) = SidecarCopyKind_to_u16 (sh_copy_kind h)"
    "le_word (slice 0x92 2 x) = (0 :: u16)" "le_word (slice 0xB8 8 x) = (0 :: u64)"
  using assms
  by (simp_all add: carries_def sidecar_header_fields_def header_wf_def read_header_def
      SIDECAR_HEADER_CRC_OFFSET_def le_word_le_bytes_full)

lemma parse_finalized_header:
  assumes fin: "finalize_header_block h block0 = (h', x)" and wf: "header_wf h"
    and len: "length block0 = b" "0xD0 \<le> b" "unat (sh_block_size h) = b"
    and magic: "sh_magic h = derive_sidecar_magic hmac (sh_tape_uuid h)"
    and schema: "sh_schema_version h = SIDECAR_SCHEMA_VERSION"
    and counts: "validate_header_counts (header_counts h) = Inr ()"
    and layout: "compute_index_layout b (unat (sh_parity_block_count h)) (unat (sh_data_crc_count h)) =
      Inr (sh_shard_index_block_count h, sh_inline_index_entry_bytes h)"
    and inl: "0xC8 + unat (sh_inline_index_entry_bytes h) = e" "e \<le> b - 8"
      "list_all (\<lambda>b. b = 0) (slice e (b - 8 - e) block0)"
  shows "parse_sidecar_header_block hmac x (sh_tape_uuid h) = Inr h'"
proof -
  note f = finalized [OF fin wf len(1,2)]
  note r = read_header_carries [OF f(2) wf f(1,3,4)]
  have hc: "header_counts h' = header_counts h" by (simp add: f(6) header_counts_def)
  have same: "sh_block_size h' = sh_block_size h" "sh_schema_version h' = sh_schema_version h"
    "sh_parity_block_count h' = sh_parity_block_count h" "sh_data_crc_count h' = sh_data_crc_count h"
    "sh_shard_index_block_count h' = sh_shard_index_block_count h"
    "sh_inline_index_entry_bytes h' = sh_inline_index_entry_bytes h"
    "sh_header_crc64 h' = crc64_xz (take 0xC0 x)" "sh_block0_crc64 h' = crc64_xz (take (b - 8) x)"
    by (simp_all add: f(6))
  have zero: "list_all (\<lambda>b. b = 0) (slice e (b - 8 - e) x)"
    using f(5) [of e "b - 8 - e"] inl by simp
  have e: "e < 2 ^ 64" using inl(2) len(3) unat_u32_less [of "sh_block_size h"] by simp
  show ?thesis
    unfolding parse_sidecar_header_block_def r(2-6) r(1) [folded f(6)] sidecar_copy_kind_roundtrip
      rbind_Inr Let_def same hc counts layout len(3) f(1) schema
    using zero e inl(1,2) len(2) magic
    by (simp add: SIDECAR_HEADER_LEN_def SIDECAR_HEADER_CRC_OFFSET_def)
qed

section \<open>A written index copy parses back\<close>

lemma packed_geometry:
  assumes "0xD0 \<le> b" "b < 2 ^ 64"
    and "compute_index_layout b (length (si_parity_entries index)) (length (si_data_shard_crc64s index)) = Inr (h, i)"
  obtains c cs where "greedy (b - 8) (b - 0xD0) (index_entries index) = c # cs"
    "pack_index_blocks b index = Inr (copy_at 0xC8 (concat c) (replicate b 0) #
       map (\<lambda>c. write_trailing_crc (copy_at 0 (concat c) (replicate b 0))) cs)"
    "unat h = 1 + length cs" "unat i = length (concat c)" "length (concat c) \<le> b - 0xD0"
    "list_all (\<lambda>c. length (concat c) \<le> b - 8) cs"
proof -
  let ?es = "index_entries index"
  obtain bw p d l where w: "u64_of_usize b = Some bw"
    "u64_of_usize (length (si_parity_entries index)) = Some p"
    "u64_of_usize (length (si_data_shard_crc64s index)) = Some d"
    "checked_sidecar_index_capacity_layout bw p d = Inr l" "h = sil_block_count l" "i = sil_inline_entry_bytes l"
    using assms(3) by (auto simp: compute_index_layout_def)
  have u: "unat bw = b" "unat p = length (si_parity_entries index)" "unat d = length (si_data_shard_crc64s index)"
    using w(1-3) by (auto simp: u64_of_usize_def unat_word_of_nat split: if_splits)
  obtain c cs where g: "greedy (b - 8) (b - 0xD0) ?es = c # cs" using greedy_Cons by blast
  have "16 \<le> b - 8" using assms(1) by simp
  note small = index_entries_small [OF this, of index]
  have "list_all (\<lambda>e. length e \<le> b - 8) ?es" using small by (simp add: list_all_iff)
  note gf = greedy_fits [OF this g]
  have target: "\<exists>r. foldl (place_len (b - 8)) (1, b - 0xD0, 0) (replicate (unat p) 16 @ replicate (unat d) 8)
      = (1 + length cs, r, length (concat c))"
    using greedy_counts [OF _ g, of 1 0] u by (simp add: index_entry_lengths)
  let ?fits = "(p \<noteq> 0 \<longrightarrow> 0xE0 \<le> b) \<and> (p = 0 \<and> d \<noteq> 0 \<longrightarrow> 0xD8 \<le> b)"
  have ok: "?fits \<and> 1 + length cs < 2 ^ 64"
  proof (rule ccontr)
    assume "\<not> (?fits \<and> 1 + length cs < 2 ^ 64)"
    then have "\<exists>e. checked_sidecar_index_capacity_layout bw p d = Inl e"
      using checked_layout_nat(2) [of bw p d] target u(1) assms(1) by auto
    then show False using w(4) by simp
  qed
  then have "unat h = 1 + length cs" "unat i = length (concat c)"
    using checked_layout_nat(1) [of bw p d] target u(1) assms(1) w(4-6) by auto
  moreover have "pack_index_blocks b index = Inr (copy_at 0xC8 (concat c) (replicate b 0) #
       map (\<lambda>c. write_trailing_crc (copy_at 0 (concat c) (replicate b 0))) cs)"
    using packed_blocks [OF assms(1) small _ g] first_entry_fits [OF u(2,3), of b] ok by blast
  ultimately show ?thesis using that [OF g] gf by blast
qed

lemma chunk_at_packed:
  assumes "off + length (concat c) \<le> b - 8" "8 \<le> b"
    and "\<And>o' n. off \<le> o' \<Longrightarrow> o' + n \<le> b - 8 \<Longrightarrow> slice o' n x = slice o' n (copy_at off (concat c) (replicate b 0))"
  shows "chunk_at (b - 8) x off c"
proof -
  let ?l = "length (concat c)"
  have "slice off ?l x = concat c" using assms by (simp add: copy_zero_slice)
  moreover have "slice (off + ?l) (b - 8 - (off + ?l)) x = replicate (b - 8 - (off + ?l)) 0"
    using assms by (simp add: slice_copy_other)
  ultimately show ?thesis using assms(1) by (simp add: chunk_at_def list_all_iff)
qed

lemma spill_block:
  assumes "length (concat c) \<le> b - 8" "8 \<le> b"
  defines "x \<equiv> write_trailing_crc (copy_at 0 (concat c) (replicate b 0))"
  shows "length x = b" "chunk_at (b - 8) x 0 c" "validate_spill_block_crc x = Inr ()"
proof -
  let ?y = "copy_at 0 (concat c) (replicate b (0 :: u8))"
  have y: "length ?y = b" using assms(1) by simp
  then have x: "x = copy_at (b - 8) (le_bytes 8 (crc64_xz (take (b - 8) ?y))) ?y"
    by (simp add: x_def write_trailing_crc_def Let_def)
  show l: "length x = b" using y assms(2) by (simp add: x)
  have t: "take (b - 8) x = take (b - 8) ?y" using y by (simp add: x take_copy_after)
  show "chunk_at (b - 8) x 0 c"
    using slice_prefix [OF t] by (intro chunk_at_packed) (use assms(1,2) in auto)
  have "slice (b - 8) 8 x = le_bytes 8 (crc64_xz (take (b - 8) ?y))"
    using y assms(2) by (simp add: x slice_copy_same)
  then show "validate_spill_block_crc x = Inr ()"
    by (simp add: validate_spill_block_crc_def Let_def l t le_word_le_bytes_full)
qed

lemma header_descriptor_built:
  "sidecar_build_header hmac d n i ck hash = Inr h \<Longrightarrow> header_descriptor h = d"
  by (auto simp: sidecar_build_header_def header_descriptor_def)

lemma built_header:
  assumes "validate_descriptor d = Inr b" "sidecar_build_header hmac d n i ck hash = Inr h" "n \<noteq> 0"
  shows "validate_header_counts (header_counts h) = Inr ()"
    "unat (sh_parity_block_count h) = unat (sd_stripes_per_epoch d) * unat (sd_m d)"
    "unat (sd_protected_ordinal_end_exclusive d) = unat (sd_protected_ordinal_start d) + unat (sh_data_crc_count h)"
    "sh_shard_index_block_count h = n" "sh_inline_index_entry_bytes h = i" "sh_copy_kind h = ck"
    "sh_canonical_metadata_hash h = hash" "sh_magic h = derive_sidecar_magic hmac (sd_tape_uuid d)"
    "sh_tape_uuid h = sd_tape_uuid d" "sh_schema_version h = SIDECAR_SCHEMA_VERSION"
    "sh_block_size h = sd_block_size d" "sh_m h = sd_m d" "sh_stripes_per_epoch h = sd_stripes_per_epoch d"
    "unat (sh_sidecar_total_block_count h) = 2 * unat n + unat (sh_parity_block_count h) + 1"
    "unat (sh_tail_header_start_block h) = unat n + unat (sh_parity_block_count h)"
    "sh_primary_header_start_block h = 0"
proof -
  obtain r p t f k where l: "descriptor_layout d n = Inr (r, p, t, f, k)"
    using assms(2) by (auto simp: sidecar_build_header_def)
  note v = assms(1) [unfolded validate_descriptor_Inr] and l' = l [unfolded descriptor_layout_Inr]
  have h: "h = (case sidecar_build_header hmac d n i ck hash of Inr h \<Rightarrow> h)" by (simp add: assms(2))
  note h = h [unfolded sidecar_build_header_def l rbind_Inr prod.case sum.case]
  show "validate_header_counts (header_counts h) = Inr ()"
    using v l' assms(3)
    by (simp add: h validate_header_counts_def header_counts_def validate_shard_counts_Inr
        validate_sidecar_layout_Inr unat_logical)
  show "unat (sh_parity_block_count h) = unat (sd_stripes_per_epoch d) * unat (sd_m d)"
    "unat (sd_protected_ordinal_end_exclusive d) = unat (sd_protected_ordinal_start d) + unat (sh_data_crc_count h)"
    "sh_shard_index_block_count h = n" "sh_inline_index_entry_bytes h = i" "sh_copy_kind h = ck"
    "sh_canonical_metadata_hash h = hash" "sh_magic h = derive_sidecar_magic hmac (sd_tape_uuid d)"
    "sh_tape_uuid h = sd_tape_uuid d" "sh_schema_version h = SIDECAR_SCHEMA_VERSION"
    "sh_block_size h = sd_block_size d" "sh_m h = sd_m d" "sh_stripes_per_epoch h = sd_stripes_per_epoch d"
    "unat (sh_sidecar_total_block_count h) = 2 * unat n + unat (sh_parity_block_count h) + 1"
    "unat (sh_tail_header_start_block h) = unat n + unat (sh_parity_block_count h)"
    "sh_primary_header_start_block h = 0"
    using l' by (simp_all add: h)
qed

lemma index_shape_lengths:
  "validate_index_shape d index = Inr () \<Longrightarrow>
     length (si_parity_entries index) = unat (sd_stripes_per_epoch d) * unat (sd_m d) \<and>
     unat (sd_protected_ordinal_end_exclusive d) =
       unat (sd_protected_ordinal_start d) + length (si_data_shard_crc64s index)"
  by (auto simp: validate_index_shape_def descriptor_parity_Inr descriptor_range_Inr)

lemma header_descriptor_crc [simp]:
  "header_descriptor (h\<lparr>sh_header_crc64 := a, sh_block0_crc64 := b\<rparr>) = header_descriptor h"
  by (simp add: header_descriptor_def)

text \<open>What the writer of an index copy has computed.\<close>

definition copy_written ::
  "(bytes \<Rightarrow> bytes) \<Rightarrow> (bytes \<Rightarrow> bytes \<Rightarrow> bytes) \<Rightarrow> SidecarDescriptor \<Rightarrow> SidecarIndex \<Rightarrow> SidecarCopyKind \<Rightarrow>
     SidecarHeader \<Rightarrow> SidecarHeader \<Rightarrow> bytes list \<Rightarrow> bool" where
  "copy_written sha256 hmac d index ck h h' blocks \<longleftrightarrow> (\<exists>n i hash pb x.
     validate_descriptor d = Inr (unat (sd_block_size d)) \<and> validate_index_shape d index = Inr () \<and>
     compute_index_layout (unat (sd_block_size d)) (length (si_parity_entries index))
       (length (si_data_shard_crc64s index)) = Inr (n, i) \<and>
     compute_canonical_metadata_hash sha256 hmac d index n i = Inr hash \<and>
     sidecar_build_header hmac d n i ck hash = Inr h \<and>
     pack_index_blocks (unat (sd_block_size d)) index = Inr pb \<and>
     finalize_header_block h (pb ! 0) = (h', x) \<and> blocks = pb[0 := x])"

lemma validate_index_blocks:
  assumes "length x = b" "list_all (\<lambda>x. length x = b \<and> validate_spill_block_crc x = Inr ()) xs"
  shows "try_fold (\<lambda>_. validate_index_block b) () (List.enumerate 0 (x # xs)) = Inr ()"
proof -
  have "try_fold (\<lambda>_. validate_index_block b) () (List.enumerate (Suc k) xs) = Inr ()" for k
    using assms(2) by (induction xs arbitrary: k) (simp_all add: validate_index_block_def)
  then show ?thesis using assms(1) by (simp add: validate_index_block_def)
qed

lemma copy_written_parses:
  assumes w: "copy_written sha256 hmac d index ck h h' blocks"
    and ext: "length (sd_tape_uuid d) = 16" "\<And>bs. length (sha256 bs) = 32" "\<And>k bs. length (hmac k bs) = 32"
  shows "parse_sidecar_index_blocks sha256 hmac blocks (sd_tape_uuid d) = Inr \<lparr>dsi_header = h', dsi_index = index\<rparr>"
    "length blocks = unat (sh_shard_index_block_count h)" "sh_shard_index_block_count h \<noteq> 0"
    "\<exists>a b. h' = h\<lparr>sh_header_crc64 := a, sh_block0_crc64 := b\<rparr>"
proof -
  let ?b = "unat (sd_block_size d)"
  obtain n i hash pb x where s: "validate_descriptor d = Inr ?b" "validate_index_shape d index = Inr ()"
     "compute_index_layout ?b (length (si_parity_entries index)) (length (si_data_shard_crc64s index)) = Inr (n, i)"
     "compute_canonical_metadata_hash sha256 hmac d index n i = Inr hash"
     "sidecar_build_header hmac d n i ck hash = Inr h" "pack_index_blocks ?b index = Inr pb"
     "finalize_header_block h (pb ! 0) = (h', x)" "blocks = pb[0 := x]"
    using w by (auto simp: copy_written_def)
  have b: "0xD0 \<le> ?b" "?b < 2 ^ 64" using s(1) unat_u32_less [of "sd_block_size d"]
    by (simp_all add: validate_descriptor_Inr)
  obtain c cs where g: "greedy (?b - 8) (?b - 0xD0) (index_entries index) = c # cs"
    "pack_index_blocks ?b index = Inr (copy_at 0xC8 (concat c) (replicate ?b 0) #
       map (\<lambda>c. write_trailing_crc (copy_at 0 (concat c) (replicate ?b 0))) cs)"
    "unat n = 1 + length cs" "unat i = length (concat c)" "length (concat c) \<le> ?b - 0xD0"
    "list_all (\<lambda>c. length (concat c) \<le> ?b - 8) cs"
    using packed_geometry [OF b s(3)] .
  define y where "y = copy_at 0xC8 (concat c) (replicate ?b (0 :: u8))"
  define xs where "xs = map (\<lambda>c. write_trailing_crc (copy_at 0 (concat c) (replicate ?b 0))) cs"
  have "pb = y # xs" using s(6) g(2) by (simp add: y_def xs_def)
  then have blocks: "blocks = x # xs" "pb ! 0 = y" using s(8) by simp_all
  have n: "n \<noteq> 0" using g(3) by (auto simp: word_unat_eq_iff)
  note h = built_header [OF s(1,5) n] and lens = index_shape_lengths [OF s(2)]
  have hash: "length hash = 32" using s(4) ext(2) by (auto simp: compute_canonical_metadata_hash_def)
  have wf: "header_wf h" using hash ext by (simp add: header_wf_def h derive_sidecar_magic_def)
  have ly: "length y = ?b" using g(5) b(1) by (simp add: y_def)
  note fin = s(7) [unfolded blocks(2)]
  note f = finalized [OF fin wf ly b(1)]
  show crc: "\<exists>a b. h' = h\<lparr>sh_header_crc64 := a, sh_block0_crc64 := b\<rparr>" using f(6) by blast
  show "length blocks = unat (sh_shard_index_block_count h)" "sh_shard_index_block_count h \<noteq> 0"
    using g(3) n by (simp_all add: blocks h xs_def)
  have P: "unat (sh_parity_block_count h) = length (si_parity_entries index)"
    "unat (sh_data_crc_count h) = length (si_data_shard_crc64s index)"
    using h(2,3) lens by simp_all
  have inl: "0xC8 + unat (sh_inline_index_entry_bytes h) = 0xC8 + length (concat c)"
    "0xC8 + length (concat c) \<le> ?b - 8" using g(4,5) b(1) by (simp_all add: h)
  have chunk: "chunk_at (?b - 8) x 0xC8 c"
    using f(5) inl(2) b(1) by (intro chunk_at_packed) (simp_all add: y_def)
  have zero: "list_all (\<lambda>b. b = 0) (slice (0xC8 + length (concat c)) (?b - 8 - (0xC8 + length (concat c))) y)"
    using f(5) [of "0xC8 + length (concat c)" "?b - 8 - (0xC8 + length (concat c))"] chunk inl(2)
    by (simp add: chunk_at_def)
  have "parse_sidecar_header_block hmac x (sh_tape_uuid h) = Inr h'"
    by (rule parse_finalized_header [OF fin wf ly b(1) _ _ h(10) h(1) _ inl(1,2) zero])
      (use h s(3) P in simp_all)
  then have ph: "parse_sidecar_header_block hmac x (sd_tape_uuid d) = Inr h'" by (simp add: h)
  have spill: "list_all (\<lambda>x. length x = ?b \<and> validate_spill_block_crc x = Inr ()) xs"
    using g(6) b(1) by (auto simp: xs_def list_all_iff spill_block)
  have chunks: "list_all2 (\<lambda>x c. chunk_at (?b - 8) x 0 c) xs cs"
    using g(6) b(1) by (auto simp: xs_def list_all2_conv_all_nth list_all_length spill_block)
  have "reads (?b - 8) (unat n) blocks (0, SIDECAR_HEADER_LEN, SIDECAR_HEADER_LEN + unat i) (index_entries index)"
    unfolding reads_def prod.case
    using g(1,3,4) chunk chunks
    by (intro exI [of _ "?b - 0xD0"] exI [of _ c] exI [of _ cs] exI [of _ x] exI [of _ xs])
      (simp add: blocks SIDECAR_HEADER_LEN_def xs_def)
  moreover have same: "sh_inline_index_entry_bytes h' = i" "sh_block_size h' = sd_block_size d"
    "sh_shard_index_block_count h' = n" "sh_parity_block_count h' = sh_parity_block_count h"
    "sh_data_crc_count h' = sh_data_crc_count h" "sh_canonical_metadata_hash h' = hash"
    "header_descriptor h' = d"
    using crc by (auto simp: h header_descriptor_built [OF s(5)])
  ultimately have pe: "parse_index_entries h' blocks = Inr index"
    using b inl g(4) P by (intro parse_index_entries_reads [of "?b - 8" "unat n"])
      (simp_all add: SIDECAR_HEADER_LEN_def)
  have "length xs = length cs" by (simp add: xs_def)
  then show "parse_sidecar_index_blocks sha256 hmac blocks (sd_tape_uuid d) = Inr \<lparr>dsi_header = h', dsi_index = index\<rparr>"
    unfolding parse_sidecar_index_blocks_def blocks(1) list.case ph rbind_Inr Let_def same
    using validate_index_blocks [OF f(1) spill] pe [unfolded blocks(1)] s(2,4) g(3)
    by (simp add: validate_index_order_def same)
qed

section \<open>The footer\<close>

definition header_footer :: "(bytes \<Rightarrow> bytes \<Rightarrow> bytes) \<Rightarrow> SidecarHeader \<Rightarrow> u64 \<Rightarrow> SidecarFooter" where
  "header_footer hmac h crc =
     \<lparr>sf_magic = derive_sidecar_footer_magic hmac (sh_tape_uuid h),
      sf_sidecar_footer_version = SIDECAR_FOOTER_VERSION, sf_tape_uuid = sh_tape_uuid h,
      sf_epoch_id = sh_epoch_id h, sf_protected_ordinal_start = sh_protected_ordinal_start h,
      sf_protected_ordinal_end_exclusive = sh_protected_ordinal_end_exclusive h,
      sf_sidecar_header_block_count = sh_shard_index_block_count h,
      sf_parity_shard_block_count = sh_parity_block_count h,
      sf_sidecar_total_block_count = sh_sidecar_total_block_count h,
      sf_primary_header_start_block = sh_primary_header_start_block h,
      sf_tail_header_start_block = sh_tail_header_start_block h,
      sf_canonical_metadata_hash = sh_canonical_metadata_hash h, sf_footer_crc64 = crc\<rparr>"

lemma written_footer_parses:
  assumes e: "encode_sidecar_footer_block hmac h = Inr block" and wf: "header_wf h"
    and ext: "\<And>k bs. length (hmac k bs) = 32"
    and counts: "validate_header_counts (header_counts h) = Inr ()"
  shows "\<exists>crc. parse_sidecar_footer_block hmac block (sh_tape_uuid h) = Inr (header_footer hmac h crc)"
proof -
  let ?b = "unat (sh_block_size h)" and ?fs = "sidecar_footer_fields hmac h"
  let ?w = "write_fields ?fs (replicate ?b 0)"
  have fit: "fields_fit 0 0x80 ?fs"
    using wf ext by (simp add: sidecar_footer_fields_def header_wf_def derive_sidecar_footer_magic_def)
  have b: "0x88 \<le> ?b" and block: "block = copy_at 0x80 (le_bytes 8 (crc64_xz (take 0x80 ?w))) ?w"
    using e by (auto simp: encode_sidecar_footer_block_def Let_def SIDECAR_FOOTER_LEN_def SIDECAR_FOOTER_CRC_OFFSET_def
        split: if_splits)
  have w: "length ?w = ?b" using length_write_fields [OF fit, of "replicate ?b 0"] b by simp
  have len: "length block = ?b" using w b by (simp add: block)
  have t: "take 0x80 block = take 0x80 ?w" using w b by (simp add: block take_copy_after)
  have c: "carries block ?fs"
    using carries_prefix [OF carries_write_fields [OF fit, of "replicate ?b 0"] fit t] b by simp
  have crc: "le_word (slice 0x80 8 block) = crc64_xz (take 0x80 block)"
    unfolding t using w b by (simp add: block slice_copy_same le_word_le_bytes_full)
  have "slice 0x88 (?b - 0x88) block = replicate (?b - 0x88) 0"
    using w b slice_write_fields_outside [OF fit, of "replicate ?b 0" "0x88" "?b - 0x88"]
    by (simp add: block slice_copy_other)
  then have zero: "list_all (\<lambda>b. b = 0) (drop 0x88 block)"
    using len by (simp add: slice_def list_all_iff)
  have r: "read_footer block = header_footer hmac h (crc64_xz (take 0x80 block))"
    "le_word (slice 0x0A 2 block) = (0 :: u16)" "le_word (slice 0x0C 4 block) = (0 :: u32)"
    using c wf ext crc
    by (simp_all add: carries_def sidecar_footer_fields_def header_wf_def read_footer_def header_footer_def
      SIDECAR_FOOTER_CRC_OFFSET_def le_word_le_bytes_full derive_sidecar_footer_magic_def)
  have lay: "validate_sidecar_layout (sh_shard_index_block_count h) (sh_parity_block_count h)
      (sh_sidecar_total_block_count h) (sh_primary_header_start_block h) (sh_tail_header_start_block h)
      (sh_footer_block_index h) = Inr ()"
    using counts by (simp add: validate_header_counts_def header_counts_def)
  then have "checked_sub (sh_sidecar_total_block_count h) 1 = Some (sh_footer_block_index h)"
    by (simp add: validate_sidecar_layout_Inr checked_simps)
  then have "parse_sidecar_footer_block hmac block (sh_tape_uuid h) =
      Inr (header_footer hmac h (crc64_xz (take 0x80 block)))"
    unfolding parse_sidecar_footer_block_def r Let_def
    using lay zero len b
    by (simp add: header_footer_def SIDECAR_FOOTER_LEN_def SIDECAR_FOOTER_CRC_OFFSET_def)
  then show ?thesis by blast
qed

section \<open>Emission order\<close>

lemma emit_shards:
  assumes "distinct (map (\<lambda>(p, s). s * unat (sd_m d) + p) qs)"
    and "\<forall>i < length qs. case qs ! i of (p, s) \<Rightarrow> p < unat (sd_m d) \<and> s < unat (sd_stripes_per_epoch d) \<and>
      s * unat (sd_m d) + p < length st \<and> st ! (s * unat (sd_m d) + p) = Some (f (p, s)) \<and>
      unat n + p * unat (sd_stripes_per_epoch d) + s = length blocks + i \<and> length blocks + i < 2 ^ 64"
  shows "\<exists>st'. try_fold (emit_shard d n) (blocks, st) qs = Inr (blocks @ map f qs, st')"
  using assms
proof (induction qs arbitrary: blocks st)
  case (Cons q qs)
  obtain p s where q: "q = (p, s)" by (cases q) auto
  let ?m = "unat (sd_m d)"
  have c: "p < ?m" "s < unat (sd_stripes_per_epoch d)" "s * ?m + p < length st"
    "st ! (s * ?m + p) = Some (f (p, s))"
    "unat n + p * unat (sd_stripes_per_epoch d) + s = length blocks" "length blocks < 2 ^ 64"
    using Cons.prems(2) [rule_format, of 0] by (simp_all add: q)
  have w: "unat (word_of_nat s :: u32) = s" "unat (word_of_nat p :: u16) = p"
    using c(1,2) unat_u32_less [of "sd_stripes_per_epoch d"] unat_u16_less [of "sd_m d"]
    by (simp_all add: unat_word_of_nat32 unat_word_of_nat16)
  then have pos: "parity_block_position (word_of_nat s) (word_of_nat p) (sd_stripes_per_epoch d) (sd_m d) n =
      Inr (word_of_nat (length blocks))"
    using c by (simp add: parity_block_position_Inr word_less_nat_alt unat_word_of_nat)
  have step: "emit_shard d n (blocks, st) (p, s) = Inr (blocks @ [f (p, s)], st[s * ?m + p := None])"
    using pos c(3,4) by (simp add: emit_shard_def Let_def)
  have "\<exists>st'. try_fold (emit_shard d n) (blocks @ [f q], st[s * ?m + p := None]) qs =
      Inr ((blocks @ [f q]) @ map f qs, st')"
  proof (rule Cons.IH)
    show "distinct (map (\<lambda>(p, s). s * ?m + p) qs)" using Cons.prems(1) by simp
    show "\<forall>i < length qs. case qs ! i of (p', s') \<Rightarrow> p' < ?m \<and> s' < unat (sd_stripes_per_epoch d) \<and>
      s' * ?m + p' < length (st[s * ?m + p := None]) \<and> st[s * ?m + p := None] ! (s' * ?m + p') = Some (f (p', s')) \<and>
      unat n + p' * unat (sd_stripes_per_epoch d) + s' = length (blocks @ [f q]) + i \<and>
      length (blocks @ [f q]) + i < 2 ^ 64"
    proof (intro allI impI)
      fix i assume i: "i < length qs"
      obtain p' s' where q': "qs ! i = (p', s')" by (cases "qs ! i") auto
      then have "(p', s') \<in> set qs" using i by (metis nth_mem)
      then have "s' * ?m + p' \<noteq> s * ?m + p" using Cons.prems(1) by (force simp: q)
      then show "case qs ! i of (p', s') \<Rightarrow> p' < ?m \<and> s' < unat (sd_stripes_per_epoch d) \<and>
        s' * ?m + p' < length (st[s * ?m + p := None]) \<and> st[s * ?m + p := None] ! (s' * ?m + p') = Some (f (p', s')) \<and>
        unat n + p' * unat (sd_stripes_per_epoch d) + s' = length (blocks @ [f q]) + i \<and>
        length (blocks @ [f q]) + i < 2 ^ 64"
        using Cons.prems(2) [rule_format, of "Suc i"] i by (simp add: q')
    qed
  qed
  then show ?case using step by (simp add: q)
qed simp

lemma entry_index_inj:
  assumes "s * m + p = s' * m + p'" "p < m" "p' < (m :: nat)"
  shows "s = s' \<and> p = p'"
proof -
  have "(s * m + p) div m = s" "(s * m + p) mod m = p" "(s' * m + p') div m = s'" "(s' * m + p') mod m = p'"
    using assms(2,3) by simp_all
  then show ?thesis using assms(1) by metis
qed

lemma entry_index_less: "p < m \<Longrightarrow> s < S \<Longrightarrow> s * m + p < S * (m :: nat)"
  using mult_le_mono1 [of "Suc s" S m] by simp

definition emission :: "SidecarDescriptor \<Rightarrow> bytes list \<Rightarrow> bytes list" where
  "emission d shards = map (\<lambda>(p, s). shards ! (s * unat (sd_m d) + p))
     (List.product [0..<unat (sd_m d)] [0..<unat (sd_stripes_per_epoch d)])"

lemma emitted:
  assumes "length shards = unat (sd_stripes_per_epoch d) * unat (sd_m d)" "length blocks = unat n"
    and "unat n + length shards < 2 ^ 64"
  shows "\<exists>st'. try_fold (emit_shard d n) (blocks, map Some shards)
      (List.product [0..<unat (sd_m d)] [0..<unat (sd_stripes_per_epoch d)]) =
    Inr (blocks @ emission d shards, st')"
  unfolding emission_def
proof (rule emit_shards)
  let ?m = "unat (sd_m d)" and ?S = "unat (sd_stripes_per_epoch d)"
  let ?qs = "List.product [0..<?m] [0..<?S]"
  have "inj_on (\<lambda>(p, s). s * ?m + p) (set ?qs)"
    by (intro inj_onI) (auto dest: entry_index_inj)
  then show "distinct (map (\<lambda>(p, s). s * ?m + p) ?qs)"
    by (simp add: distinct_map distinct_product)
  show "\<forall>i < length ?qs. case ?qs ! i of (p, s) \<Rightarrow> p < ?m \<and> s < ?S \<and>
      s * ?m + p < length (map Some shards) \<and> map Some shards ! (s * ?m + p) =
        Some (case (p, s) of (p, s) \<Rightarrow> shards ! (s * ?m + p)) \<and>
      unat n + p * ?S + s = length blocks + i \<and> length blocks + i < 2 ^ 64"
  proof (intro allI impI)
    fix i assume "i < length ?qs"
    then have i: "i < ?m * ?S" by simp
    then have "0 < ?S" by (cases "?S") auto
    then have ps: "i div ?S < ?m" "i mod ?S < ?S" using i by (simp_all add: less_mult_imp_div_less)
    have "?qs ! i = (i div ?S, i mod ?S)" using i ps by (simp add: product_nth)
    moreover have "(i mod ?S) * ?m + i div ?S < length shards"
      using entry_index_less [OF ps] assms(1) by simp
    moreover have "length blocks + i < 2 ^ 64" using i assms by (simp add: mult.commute)
    ultimately show "case ?qs ! i of (p, s) \<Rightarrow> p < ?m \<and> s < ?S \<and>
        s * ?m + p < length (map Some shards) \<and> map Some shards ! (s * ?m + p) =
          Some (case (p, s) of (p, s) \<Rightarrow> shards ! (s * ?m + p)) \<and>
        unat n + p * ?S + s = length blocks + i \<and> length blocks + i < 2 ^ 64"
      using ps assms(2) by simp
  qed
qed

lemma length_emission [simp]: "length (emission d shards) = unat (sd_m d) * unat (sd_stripes_per_epoch d)"
  by (simp add: emission_def)

lemma nth_emission:
  assumes "i < unat (sd_stripes_per_epoch d) * unat (sd_m d)"
  shows "emission d shards ! ((i mod unat (sd_m d)) * unat (sd_stripes_per_epoch d) + i div unat (sd_m d)) = shards ! i"
    "(i mod unat (sd_m d)) * unat (sd_stripes_per_epoch d) + i div unat (sd_m d) <
      unat (sd_m d) * unat (sd_stripes_per_epoch d)"
proof -
  let ?m = "unat (sd_m d)" and ?S = "unat (sd_stripes_per_epoch d)"
  have "0 < ?m" using assms by (cases "?m") auto
  then have ps: "i mod ?m < ?m" "i div ?m < ?S" using assms by (simp_all add: less_mult_imp_div_less)
  show lt: "(i mod ?m) * ?S + i div ?m < ?m * ?S" using entry_index_less [OF ps(2,1)] .
  have "((i mod ?m) * ?S + i div ?m) div ?S = i mod ?m" "((i mod ?m) * ?S + i div ?m) mod ?S = i div ?m"
    using ps(2) by simp_all
  then have "List.product [0..<?m] [0..<?S] ! ((i mod ?m) * ?S + i div ?m) = (i mod ?m, i div ?m)"
    using lt ps by (simp add: product_nth)
  then show "emission d shards ! ((i mod ?m) * ?S + i div ?m) = shards ! i"
    unfolding emission_def using lt by (simp add: mult.commute)
qed

section \<open>The encoded tape file\<close>

definition entry_of :: "SidecarDescriptor \<Rightarrow> nat \<times> bytes \<Rightarrow> ParityShardIndexEntry" where
  "entry_of d = (\<lambda>(i, shard). \<lparr>psi_stripe_index = word_of_nat (i div unat (sd_m d)),
     psi_parity_index = word_of_nat (i mod unat (sd_m d)), psi_parity_shard_crc64 = parity_shard_crc64 shard\<rparr>)"

definition shard_index :: "SidecarDescriptor \<Rightarrow> bytes list \<Rightarrow> u64 list \<Rightarrow> SidecarIndex" where
  "shard_index d shards crcs =
     \<lparr>si_parity_entries = map (entry_of d) (List.enumerate 0 shards), si_data_shard_crc64s = crcs\<rparr>"

lemma try_map_iff:
  assumes "\<And>x y. f x = Inr y \<longleftrightarrow> P x \<and> y = g x"
  shows "try_map f xs = Inr ys \<longleftrightarrow> list_all P xs \<and> ys = map g xs"
  by (induction xs arbitrary: ys) (auto simp: assms)

lemma shard_entries:
  "try_map (shard_entry d b) (List.enumerate 0 shards) = Inr es \<longleftrightarrow>
     list_all (\<lambda>x. length x = b) shards \<and> es = map (entry_of d) (List.enumerate 0 shards)"
proof -
  have "shard_entry d b x = Inr y \<longleftrightarrow> length (snd x) = b \<and> y = entry_of d x" for x y
    by (cases x) (auto simp: shard_entry_def entry_of_def)
  note try_map_iff [of "shard_entry d b", OF this]
  moreover have "list_all (\<lambda>x. length (snd x) = b) (List.enumerate 0 shards) \<longleftrightarrow> list_all (\<lambda>x. length x = b) shards"
    by (simp add: list_all_length nth_enumerate_eq)
  ultimately show ?thesis by simp
qed

lemma encode_sidecar_Inr:
  assumes "encode_sidecar_owned sha256 hmac d shards crcs = Inr tf"
    and ext: "length (sd_tape_uuid d) = 16" "\<And>bs. length (sha256 bs) = 32" "\<And>k bs. length (hmac k bs) = 32"
  obtains P T hp ht ht' fb where
    "copy_written sha256 hmac d (estf_index tf) Primary hp (estf_header tf) P"
    "copy_written sha256 hmac d (estf_index tf) Tail ht ht' T"
    "ht = hp\<lparr>sh_copy_kind := Tail\<rparr>"
    "encode_sidecar_footer_block hmac (estf_header tf) = Inr fb"
    "estf_blocks tf = P @ emission d shards @ T @ [fb]"
    "estf_index tf = shard_index d shards crcs"
    "length shards = unat (sd_stripes_per_epoch d) * unat (sd_m d)"
    "list_all (\<lambda>x. length x = unat (sd_block_size d)) shards"
proof -
  obtain ei index blocks st tb th fb where e:
    "sidecar_metadata sha256 hmac d shards crcs = Inr (ei, index)"
    "length shards + unat (sh_shard_index_block_count (esi_header ei)) + 1 < 2 ^ 64"
    "try_fold (emit_shard d (sh_shard_index_block_count (esi_header ei))) (esi_blocks ei, map Some shards)
       (List.product [0..<unat (sd_m d)] [0..<unat (sd_stripes_per_epoch d)]) = Inr (blocks, st)"
    "pack_index_blocks (unat (sd_block_size d)) index = Inr tb"
    "sidecar_build_header hmac d (sh_shard_index_block_count (esi_header ei))
       (sh_inline_index_entry_bytes (esi_header ei)) Tail (sh_canonical_metadata_hash (esi_header ei)) = Inr th"
    "encode_sidecar_footer_block hmac (esi_header ei) = Inr fb"
    "tf = \<lparr>estf_header = esi_header ei, estf_index = index, estf_blocks = blocks @ tb[0 := snd (finalize_header_block th (tb ! 0))] @ [fb]\<rparr>"
    using assms(1) unfolding encode_sidecar_owned_def Let_def case_prod_unfold
    by (auto simp: not_le)
  obtain th' x where fin: "finalize_header_block th (tb ! 0) = (th', x)" by (cases "finalize_header_block th (tb ! 0)")
  obtain b where m: "validate_descriptor d = Inr b" "length shards = unat (sd_stripes_per_epoch d) * unat (sd_m d)"
    "list_all (\<lambda>x. length x = b) shards" "index = shard_index d shards crcs"
    "encode_sidecar_index_blocks sha256 hmac d index = Inr ei"
    using e(1) unfolding sidecar_metadata_def Let_def
    by (auto simp: descriptor_parity_Inr shard_entries shard_index_def)
  have b: "b = unat (sd_block_size d)" using m(1) by (simp add: validate_descriptor_Inr)
  obtain n i pb hash hp where i0: "validate_index_shape d index = Inr ()"
    "compute_index_layout b (length (si_parity_entries index)) (length (si_data_shard_crc64s index)) = Inr (n, i)"
    "pack_index_blocks b index = Inr pb" "compute_canonical_metadata_hash sha256 hmac d index n i = Inr hash"
    "sidecar_build_header hmac d n i Primary hash = Inr hp"
    "ei = \<lparr>esi_header = fst (finalize_header_block hp (pb ! 0)),
      esi_blocks = pb[0 := snd (finalize_header_block hp (pb ! 0))]\<rparr>"
    using m(5) unfolding encode_sidecar_index_blocks_def m(1) Let_def case_prod_unfold
    by auto
  obtain hp' x0 where fin0: "finalize_header_block hp (pb ! 0) = (hp', x0)"
    by (cases "finalize_header_block hp (pb ! 0)")
  then have "ei = \<lparr>esi_header = hp', esi_blocks = pb[0 := x0]\<rparr>" using i0(6) by simp
  note i = i0(1-5) fin0 this
  have P: "copy_written sha256 hmac d index Primary hp hp' (pb[0 := x0])"
    unfolding copy_written_def using m(1) i b by blast
  note p = copy_written_parses [OF P ext]
  obtain a c where crc: "hp' = hp\<lparr>sh_header_crc64 := a, sh_block0_crc64 := c\<rparr>" using p(4) by blast
  have hp: "sh_shard_index_block_count hp' = n" "sh_inline_index_entry_bytes hp' = i"
    "sh_canonical_metadata_hash hp' = hash"
    using i(5) by (auto simp: crc sidecar_build_header_def)
  have th: "sidecar_build_header hmac d n i Tail hash = Inr th" using e(5) by (simp add: i(7) hp)
  have T: "copy_written sha256 hmac d index Tail th th' (tb[0 := x])"
    unfolding copy_written_def using m(1) i(1,2,4) th e(4) fin b by blast
  have "th = hp\<lparr>sh_copy_kind := Tail\<rparr>"
    using i(5) th by (auto simp: sidecar_build_header_def)
  moreover have "blocks = pb[0 := x0] @ emission d shards"
  proof -
    have "sh_shard_index_block_count hp = n" using hp by (simp add: crc)
    then obtain st' where "try_fold (emit_shard d n) (pb[0 := x0], map Some shards)
       (List.product [0..<unat (sd_m d)] [0..<unat (sd_stripes_per_epoch d)]) =
        Inr (pb[0 := x0] @ emission d shards, st')"
      using emitted [OF m(2), of "pb[0 := x0]" n] p(2) e(2) by (auto simp: i(7) hp)
    then show ?thesis using e(3) by (simp add: i(7) hp)
  qed
  ultimately show ?thesis
    using that [of hp "pb[0 := x0]" th th' "tb[0 := x]" fb] P T e(6) e(7) [unfolded fin snd_conv] m(2-4) by (simp add: i(7) b)
qed

section \<open>What a parsed copy guarantees\<close>

text \<open>The input of the canonical metadata hash, read off a header.\<close>

definition header_metadata_bytes :: "SidecarHeader \<Rightarrow> SidecarIndex \<Rightarrow> bytes" where
  "header_metadata_bytes h index =
     SIDECAR_METADATA_HASH_DOMAIN @ sh_magic h @ sh_tape_uuid h @ le_bytes 8 (sh_epoch_id h) @
     le_bytes 2 (sh_k h) @ le_bytes 2 (sh_m h) @ le_bytes 4 (sh_stripes_per_epoch h) @
     le_bytes 4 (sh_block_size h) @ le_bytes 4 (sh_schema_version h) @
     le_bytes 8 (sh_protected_ordinal_start h) @ le_bytes 8 (sh_protected_ordinal_end_exclusive h) @
     le_bytes 8 (sh_logical_shard_count h) @ le_bytes 8 (sh_real_data_shard_count h) @
     le_bytes 8 (sh_parity_block_count h) @ le_bytes 8 (sh_data_crc_count h) @
     le_bytes 8 (sh_shard_index_block_count h) @ le_bytes 8 (sh_inline_index_entry_bytes h) @
     le_bytes 8 (sh_sidecar_total_block_count h) @ le_bytes 8 (sh_primary_header_start_block h) @
     le_bytes 8 (sh_tail_header_start_block h) @ le_bytes 8 (sh_footer_block_index h) @
     concat (map parity_entry_bytes (si_parity_entries index)) @
     concat (map (le_bytes 8) (si_data_shard_crc64s index))"

lemma metadata_hash_of_header:
  assumes "validate_header_counts (header_counts h) = Inr ()" "sh_magic h = derive_sidecar_magic hmac (sh_tape_uuid h)"
    and "sh_schema_version h = SIDECAR_SCHEMA_VERSION"
  shows "compute_canonical_metadata_hash sha256 hmac (header_descriptor h) index
    (sh_shard_index_block_count h) (sh_inline_index_entry_bytes h) = Inr (sha256 (header_metadata_bytes h index))"
proof -
  have c: "validate_shard_counts (header_counts h) = Inr ()"
    "validate_sidecar_layout (sh_shard_index_block_count h) (sh_parity_block_count h)
      (sh_sidecar_total_block_count h) (sh_primary_header_start_block h) (sh_tail_header_start_block h)
      (sh_footer_block_index h) = Inr ()"
    using assms(1) by (auto simp: validate_header_counts_def header_counts_def)
  note c1 = c(1) [unfolded validate_shard_counts_Inr header_counts_def HeaderCounts.simps]
    and c2 = c(2) [unfolded validate_sidecar_layout_Inr]
  have log: "(ucast (sh_stripes_per_epoch h) * ucast (sh_k h) :: u64) = sh_logical_shard_count h"
    using c1 by (intro word_eq_of_unat) (simp add: unat_logical)
  have "descriptor_layout (header_descriptor h) (sh_shard_index_block_count h) =
      Inr (sh_real_data_shard_count h, sh_parity_block_count h, sh_tail_header_start_block h,
        sh_footer_block_index h, sh_sidecar_total_block_count h)"
    unfolding descriptor_layout_Inr using c1 c2 by (simp add: header_descriptor_def)
  then show ?thesis
    using assms(2,3) c1 c2 log
    by (simp add: compute_canonical_metadata_hash_def header_descriptor_def header_metadata_bytes_def)
qed

lemma parsed_header:
  assumes "parse_sidecar_header_block hmac block uuid = Inr h"
  shows "sh_magic h = derive_sidecar_magic hmac uuid \<and> sh_tape_uuid h = uuid \<and>
    sh_schema_version h = SIDECAR_SCHEMA_VERSION \<and> validate_header_counts (header_counts h) = Inr () \<and>
    length (sh_magic h) = 8 \<and> length uuid = 16"
proof -
  obtain ck where h: "h = read_header block ck" "\<not> length block < SIDECAR_HEADER_LEN + 8"
    "slice 0 8 block = derive_sidecar_magic hmac uuid" "slice 8 16 block = uuid"
    "sh_schema_version h = SIDECAR_SCHEMA_VERSION" "validate_header_counts (header_counts h) = Inr ()"
    using assms unfolding parse_sidecar_header_block_def Let_def by (auto split: if_splits)
  then have m: "sh_magic h = slice 0 8 block" "sh_tape_uuid h = slice 8 16 block" by (simp_all add: read_header_def)
  have "length (slice 0 8 block) = 8" "length (slice 8 16 block) = 16"
    using h(2) by (simp_all add: SIDECAR_HEADER_LEN_def)
  then show ?thesis using h(3-6) m by metis
qed

lemma parsed_copy:
  assumes "parse_sidecar_index_blocks sha256 hmac blocks uuid = Inr dec"
  defines "h \<equiv> dsi_header dec" and "index \<equiv> dsi_index dec"
  shows "sh_magic h = derive_sidecar_magic hmac uuid" "sh_tape_uuid h = uuid" "length (sh_magic h) = 8"
    "length uuid = 16" "sh_schema_version h = SIDECAR_SCHEMA_VERSION"
    "validate_header_counts (header_counts h) = Inr ()"
    "validate_index_shape (header_descriptor h) index = Inr ()"
    "sh_canonical_metadata_hash h = sha256 (header_metadata_bytes h index)"
proof -
  obtain block0 rest where b: "blocks = block0 # rest" "parse_sidecar_header_block hmac block0 uuid = Inr h"
    "validate_index_order h index = Inr ()" "compute_canonical_metadata_hash sha256 hmac (header_descriptor h) index
        (sh_shard_index_block_count h) (sh_inline_index_entry_bytes h) = Inr (sh_canonical_metadata_hash h)"
    using assms(1) unfolding parse_sidecar_index_blocks_def Let_def h_def index_def
    by (auto split: list.splits if_splits)
  note p = parsed_header [OF b(2)]
  then show "sh_magic h = derive_sidecar_magic hmac uuid" "sh_tape_uuid h = uuid" "length (sh_magic h) = 8"
    "length uuid = 16" "sh_schema_version h = SIDECAR_SCHEMA_VERSION"
    "validate_header_counts (header_counts h) = Inr ()" by blast+
  show "validate_index_shape (header_descriptor h) index = Inr ()"
    using b(3) by (simp add: validate_index_order_def)
  show "sh_canonical_metadata_hash h = sha256 (header_metadata_bytes h index)"
    using metadata_hash_of_header [of h hmac sha256 index] p b(4) by simp
qed

lemma le_bytes_inj [simp]:
  "le_bytes 2 (a :: u16) = le_bytes 2 a' \<longleftrightarrow> a = a'" "le_bytes 4 (b :: u32) = le_bytes 4 b' \<longleftrightarrow> b = b'"
  "le_bytes 8 (c :: u64) = le_bytes 8 c' \<longleftrightarrow> c = c'"
  by (metis le_word_le_bytes_full)+

lemma parity_entry_bytes_inj: "parity_entry_bytes a = parity_entry_bytes b \<Longrightarrow> a = b"
  by (simp add: parity_entry_bytes_def)

lemma concat_map_inj:
  assumes "\<And>x. length (f x) = n" "inj f" "length xs = length ys"
    "concat (map f xs) @ r = concat (map f ys) @ r'"
  shows "xs = ys \<and> r = r'"
  using assms(3,4)
proof (induction xs ys rule: list_induct2)
  case (Cons x xs y ys)
  then show ?case using assms(1,2) by (simp add: inj_eq)
qed simp

lemma same_metadata:
  assumes "header_metadata_bytes h index = header_metadata_bytes h' index'"
    and a: "length (sh_magic h) = 8" "length (sh_magic h') = 8"
      "length (sh_tape_uuid h) = 16" "length (sh_tape_uuid h') = 16"
    and v: "validate_index_shape (header_descriptor h) index = Inr ()"
      "validate_index_shape (header_descriptor h') index' = Inr ()"
  shows "sh_magic h = sh_magic h' \<and> header_descriptor h = header_descriptor h' \<and>
    sh_schema_version h = sh_schema_version h' \<and> sh_logical_shard_count h = sh_logical_shard_count h' \<and>
    sh_real_data_shard_count h = sh_real_data_shard_count h' \<and>
    sh_parity_block_count h = sh_parity_block_count h' \<and> sh_data_crc_count h = sh_data_crc_count h' \<and>
    sh_shard_index_block_count h = sh_shard_index_block_count h' \<and>
    sh_inline_index_entry_bytes h = sh_inline_index_entry_bytes h' \<and>
    sh_sidecar_total_block_count h = sh_sidecar_total_block_count h' \<and>
    sh_primary_header_start_block h = sh_primary_header_start_block h' \<and>
    sh_tail_header_start_block h = sh_tail_header_start_block h' \<and>
    sh_footer_block_index h = sh_footer_block_index h' \<and> index = index'"
proof -
  let ?es = "\<lambda>i. concat (map parity_entry_bytes (si_parity_entries i)) @ concat (map (le_bytes 8) (si_data_shard_crc64s i))"
  have e: "sh_magic h = sh_magic h'" "sh_tape_uuid h = sh_tape_uuid h'" "sh_epoch_id h = sh_epoch_id h'"
    "sh_k h = sh_k h'" "sh_m h = sh_m h'" "sh_stripes_per_epoch h = sh_stripes_per_epoch h'"
    "sh_block_size h = sh_block_size h'" "sh_schema_version h = sh_schema_version h'"
    "sh_protected_ordinal_start h = sh_protected_ordinal_start h'"
    "sh_protected_ordinal_end_exclusive h = sh_protected_ordinal_end_exclusive h'"
    "sh_logical_shard_count h = sh_logical_shard_count h'"
    "sh_real_data_shard_count h = sh_real_data_shard_count h'"
    "sh_parity_block_count h = sh_parity_block_count h'" "sh_data_crc_count h = sh_data_crc_count h'"
    "sh_shard_index_block_count h = sh_shard_index_block_count h'"
    "sh_inline_index_entry_bytes h = sh_inline_index_entry_bytes h'"
    "sh_sidecar_total_block_count h = sh_sidecar_total_block_count h'"
    "sh_primary_header_start_block h = sh_primary_header_start_block h'"
    "sh_tail_header_start_block h = sh_tail_header_start_block h'"
    "sh_footer_block_index h = sh_footer_block_index h'" "?es index = ?es index'"
    using assms(1) a by (simp_all add: header_metadata_bytes_def)
  have d: "header_descriptor h = header_descriptor h'" using e by (simp add: header_descriptor_def)
  have l: "length (si_parity_entries index) = length (si_parity_entries index')"
    "length (si_data_shard_crc64s index) = length (si_data_shard_crc64s index')"
    using index_shape_lengths [OF v(1)] index_shape_lengths [OF v(2)] by (simp_all add: d)
  have ps: "si_parity_entries index = si_parity_entries index'"
    "concat (map (le_bytes 8) (si_data_shard_crc64s index)) = concat (map (le_bytes 8) (si_data_shard_crc64s index'))"
    using concat_map_inj [of parity_entry_bytes 16, OF _ _ l(1) e(21)] parity_entry_bytes_inj
    by (auto simp: inj_def)
  then have "si_data_shard_crc64s index = si_data_shard_crc64s index'"
    using concat_map_inj [of "le_bytes 8" 8 "si_data_shard_crc64s index" "si_data_shard_crc64s index'" "[]" "[]"] l(2)
    by (simp add: inj_def)
  then have "index = index'" using ps(1) by simp
  then show ?thesis using e d by simp
qed

lemma same_metadata_matches:
  assumes "parse_sidecar_index_blocks sha256 hmac blocks uuid = Inr dec"
    "parse_sidecar_index_blocks sha256 hmac blocks' uuid = Inr dec'"
    "header_metadata_bytes (dsi_header dec) (dsi_index dec) = header_metadata_bytes (dsi_header dec') (dsi_index dec')"
  shows "sidecar_header_metadata_matches (dsi_header dec) (dsi_header dec')" "dsi_index dec = dsi_index dec'"
    "header_descriptor (dsi_header dec) = header_descriptor (dsi_header dec')"
proof -
  note p = parsed_copy [OF assms(1)] and p' = parsed_copy [OF assms(2)]
  note s = same_metadata [OF assms(3) p(3) p'(3) _ _ p(7) p'(7)]
  have "sh_copy_generation (dsi_header dec) = 0" "sh_copy_generation (dsi_header dec') = 0"
    using p(6) p'(6) by (simp_all add: validate_header_counts_def validate_shard_counts_Inr header_counts_def)
  moreover have "sh_canonical_metadata_hash (dsi_header dec) = sh_canonical_metadata_hash (dsi_header dec')"
    using p(8) p'(8) assms(3) by simp
  ultimately show "sidecar_header_metadata_matches (dsi_header dec) (dsi_header dec')" "dsi_index dec = dsi_index dec'"
    "header_descriptor (dsi_header dec) = header_descriptor (dsi_header dec')"
    using s p(2,4) p'(2) unfolding sidecar_header_metadata_matches_def header_descriptor_def by auto
qed

section \<open>Reading the written file\<close>

lemma written_file:
  assumes "encode_sidecar_owned sha256 hmac d shards crcs = Inr tf"
    and ext: "length (sd_tape_uuid d) = 16" "\<And>bs. length (sha256 bs) = 32" "\<And>k bs. length (hmac k bs) = 32"
  defines "n \<equiv> unat (sh_shard_index_block_count (estf_header tf))" and "h \<equiv> estf_header tf"
  obtains p t t' fb crc where
    "estf_blocks tf = p @ emission d shards @ t @ [fb]" "length p = n" "length t = n" "n \<noteq> 0"
    "parse_sidecar_footer_block hmac fb (sd_tape_uuid d) = Inr (header_footer hmac h crc)"
    "parse_sidecar_index_copy sha256 hmac p (sd_tape_uuid d) (header_footer hmac h crc) Primary =
       Inr \<lparr>dsi_header = h, dsi_index = estf_index tf\<rparr>"
    "parse_sidecar_index_copy sha256 hmac t (sd_tape_uuid d) (header_footer hmac h crc) Tail =
       Inr \<lparr>dsi_header = t', dsi_index = estf_index tf\<rparr>"
    "header_metadata_bytes t' (estf_index tf) = header_metadata_bytes h (estf_index tf)"
    "header_descriptor h = d" "estf_index tf = shard_index d shards crcs"
    "length shards = unat (sd_stripes_per_epoch d) * unat (sd_m d)"
    "list_all (\<lambda>x. length x = unat (sd_block_size d)) shards"
    "unat (sh_sidecar_total_block_count h) = 2 * n + length shards + 1"
    "unat (sh_tail_header_start_block h) = n + length shards"
proof -
  obtain p t hp ht t' fb where e:
    "copy_written sha256 hmac d (estf_index tf) Primary hp (estf_header tf) p"
    "copy_written sha256 hmac d (estf_index tf) Tail ht t' t" "ht = hp\<lparr>sh_copy_kind := Tail\<rparr>"
    "encode_sidecar_footer_block hmac (estf_header tf) = Inr fb"
    "estf_blocks tf = p @ emission d shards @ t @ [fb]" "estf_index tf = shard_index d shards crcs"
    "length shards = unat (sd_stripes_per_epoch d) * unat (sd_m d)"
    "list_all (\<lambda>x. length x = unat (sd_block_size d)) shards"
    using encode_sidecar_Inr [OF assms(1) ext] .
  note cp = copy_written_parses [OF e(1) ext] and ct = copy_written_parses [OF e(2) ext]
  obtain a b a' b' where crc: "h = hp\<lparr>sh_header_crc64 := a, sh_block0_crc64 := b\<rparr>"
    "t' = ht\<lparr>sh_header_crc64 := a', sh_block0_crc64 := b'\<rparr>"
    using cp(4) ct(4) by (auto simp: h_def)
  obtain n' i hash where bh: "validate_descriptor d = Inr (unat (sd_block_size d))"
    "sidecar_build_header hmac d n' i Primary hash = Inr hp"
    using e(1) by (auto simp: copy_written_def)
  have n': "sh_shard_index_block_count hp = n'" using bh(2) by (auto simp: sidecar_build_header_def)
  have "n' \<noteq> 0" using cp(3) n' by simp
  note B = built_header [OF bh this] and pc = parsed_copy [OF cp(1), simplified]
  have hd: "header_descriptor h = d" using header_descriptor_built [OF bh(2)] by (simp add: crc)
  have len: "length p = n" "length t = n" "n \<noteq> 0"
    using cp(2,3) ct(2) by (simp_all add: n_def h_def [symmetric] crc e(3) unat_eq_0)
  have "length (sh_canonical_metadata_hash h) = 32" using pc(8) ext(2) by (simp add: h_def)
  then have "header_wf h" using pc(1-4) ext by (simp add: header_wf_def h_def)
  then obtain c where f: "parse_sidecar_footer_block hmac fb (sd_tape_uuid d) = Inr (header_footer hmac h c)"
    using written_footer_parses [OF e(4)] ext pc(2,6) by (auto simp: h_def)
  have cpy: "parse_sidecar_index_copy sha256 hmac p (sd_tape_uuid d) (header_footer hmac h c) Primary =
       Inr \<lparr>dsi_header = h, dsi_index = estf_index tf\<rparr>"
    using cp(1) B(6) by (simp add: parse_sidecar_index_copy_def sidecar_validate_header_matches_footer_def
        header_footer_def h_def [symmetric] crc)
  have cpt: "parse_sidecar_index_copy sha256 hmac t (sd_tape_uuid d) (header_footer hmac h c) Tail =
       Inr \<lparr>dsi_header = t', dsi_index = estf_index tf\<rparr>"
    using ct(1) by (simp add: parse_sidecar_index_copy_def sidecar_validate_header_matches_footer_def
        header_footer_def crc e(3))
  have m: "header_metadata_bytes t' (estf_index tf) = header_metadata_bytes h (estf_index tf)"
    by (simp add: crc e(3) header_metadata_bytes_def)
  have tot: "unat (sh_sidecar_total_block_count h) = 2 * n + length shards + 1"
    "unat (sh_tail_header_start_block h) = n + length shards"
    using B(2,14,15) e(7) by (simp_all add: n_def h_def [symmetric] crc n')
  show ?thesis
    by (rule that [OF e(5) len f cpy cpt m hd e(6-8) tot])
qed

lemma try_map_nthI:
  "length ys = length xs \<Longrightarrow> (\<And>i. i < length xs \<Longrightarrow> f (xs ! i) = Inr (ys ! i)) \<Longrightarrow> try_map f xs = Inr ys"
proof (induction xs arbitrary: ys)
  case (Cons x xs)
  obtain y ys' where ys: "ys = y # ys'" using Cons.prems(1) by (cases ys) auto
  have "f x = Inr y" using Cons.prems(2) [of 0] by (simp add: ys)
  moreover have "try_map f xs = Inr ys'"
    using Cons.prems(1) Cons.prems(2) [of "Suc _"] by (intro Cons.IH) (simp_all add: ys)
  ultimately show ?case by (simp add: ys)
qed simp

lemma read_shards:
  assumes "header_descriptor (dsi_header dec) = d" "unat (sh_shard_index_block_count (dsi_header dec)) = length p"
    and "dsi_index dec = shard_index d shards crcs"
    and len: "length shards = unat (sd_stripes_per_epoch d) * unat (sd_m d)"
      "list_all (\<lambda>x. length x = unat (sd_block_size d)) shards"
    and fit: "length p + length shards < 2 ^ 64"
  shows "try_map (read_shard dec (p @ emission d shards @ rest)) (si_parity_entries (dsi_index dec)) = Inr shards"
proof (rule try_map_nthI)
  show "length shards = length (si_parity_entries (dsi_index dec))" by (simp add: assms(3) shard_index_def)
  fix i assume "i < length (si_parity_entries (dsi_index dec))"
  then have i: "i < length shards" by (simp add: assms(3) shard_index_def)
  let ?m = "unat (sd_m d)" and ?S = "unat (sd_stripes_per_epoch d)"
  let ?q = "(i mod ?m) * ?S + i div ?m" and ?bs = "p @ emission d shards @ rest"
  have h: "sh_stripes_per_epoch (dsi_header dec) = sd_stripes_per_epoch d" "sh_m (dsi_header dec) = sd_m d"
    "sh_block_size (dsi_header dec) = sd_block_size d"
    using assms(1) by (auto simp: header_descriptor_def)
  have e: "si_parity_entries (dsi_index dec) ! i = entry_of d (i, shards ! i)"
    using i by (simp add: assms(3) shard_index_def nth_enumerate_eq)
  note q = nth_emission [OF i [unfolded len(1)]]
  have "0 < ?m" using i len(1) by (cases "?m") auto
  then have ps: "i mod ?m < ?m" "i div ?m < ?S" using i len(1) by (simp_all add: less_mult_imp_div_less)
  have "?m < 2 ^ 16" "?S < 2 ^ 32" using unat_u16_less [of "sd_m d"] unat_u32_less [of "sd_stripes_per_epoch d"] by simp_all
  then have w: "unat (word_of_nat (i div ?m) :: u32) = i div ?m" "unat (word_of_nat (i mod ?m) :: u16) = i mod ?m"
    using ps by (intro unat_word_of_nat32 unat_word_of_nat16; linarith)+
  have lt: "length p + ?q < 2 ^ 64" using q(2) fit len(1) by (simp add: mult.commute)
  then have u: "unat (word_of_nat (length p + ?q) :: u64) = length p + ?q" by (rule unat_word_of_nat)
  have pos: "parity_block_position (word_of_nat (i div ?m)) (word_of_nat (i mod ?m)) (sd_stripes_per_epoch d) (sd_m d)
      (sh_shard_index_block_count (dsi_header dec)) = Inr (word_of_nat (length p + ?q))"
    unfolding parity_block_position_Inr w u assms(2) word_less_nat_alt using ps by simp
  have nth: "?bs ! (length p + ?q) = shards ! i" "length p + ?q < length ?bs"
    using q by (simp_all add: nth_append)
  have sl: "length (shards ! i) = unat (sd_block_size d)" using len(2) i by (simp add: list_all_length)
  show "read_shard dec ?bs (si_parity_entries (dsi_index dec) ! i) = Inr (shards ! i)"
    unfolding e read_shard_def entry_of_def prod.case ParityShardIndexEntry.simps h pos rbind_Inr u Let_def nth(1)
    using nth(2) sl by simp
qed

lemma parse_with_copies:
  assumes "encode_sidecar_owned sha256 hmac d shards crcs = Inr tf"
    and ext: "length (sd_tape_uuid d) = 16" "\<And>bs. length (sha256 bs) = 32" "\<And>k bs. length (hmac k bs) = 32"
    and "estf_blocks tf = p @ emission d shards @ t @ [fb]"
      "parse_sidecar_footer_block hmac fb (sd_tape_uuid d) = Inr ft" "ft = header_footer hmac (estf_header tf) crc"
      "length p' = unat (sh_shard_index_block_count (estf_header tf))" "length t' = length p'" "p' \<noteq> []"
      "unat (sh_sidecar_total_block_count (estf_header tf)) = 2 * length p' + length shards + 1"
      "unat (sh_tail_header_start_block (estf_header tf)) = length p' + length shards"
      "length shards = unat (sd_stripes_per_epoch d) * unat (sd_m d)"
  shows "parse_sidecar_tape_file sha256 hmac (p' @ emission d shards @ t' @ [fb]) (sd_tape_uuid d) =
    rbind (choose_sidecar_copy (parse_sidecar_index_copy sha256 hmac p' (sd_tape_uuid d) ft Primary)
        (parse_sidecar_index_copy sha256 hmac t' (sd_tape_uuid d) ft Tail)) (\<lambda>decoded.
    rbind (try_map (read_shard decoded (p' @ emission d shards @ t' @ [fb]))
        (si_parity_entries (dsi_index decoded))) (\<lambda>parity_shards.
    Inr \<lparr>dstf_header = dsi_header decoded, dstf_index = dsi_index decoded, dstf_parity_shards = parity_shards\<rparr>))"
proof -
  let ?bs = "p' @ emission d shards @ t' @ [fb]"
  have f: "unat (sf_sidecar_header_block_count ft) = length p'"
    "unat (sf_tail_header_start_block ft) = length p' + length shards"
    "unat (sf_sidecar_total_block_count ft) = 2 * length p' + length shards + 1"
    using assms(8,11,12) by (simp_all add: assms(7) header_footer_def)
  have le: "length (emission d shards) = length shards" using assms(13) by (simp add: mult.commute)
  have s: "slice (length p' + length shards) (length p') ?bs = t'" "take (length p') ?bs = p'"
    "length ?bs = 2 * length p' + length shards + 1" "last ?bs = fb" "?bs \<noteq> []"
    using le assms(9) by (simp_all add: slice_def)
  have lt: "length p' + length shards + length p' < 2 ^ 64"
    using f(3) unat_u64_less [of "sf_sidecar_total_block_count ft"] by simp
  show ?thesis
    unfolding parse_sidecar_tape_file_def s(4) assms(6) rbind_Inr Let_def f s(1-3)
    using lt assms(10) s(5) by simp
qed

text \<open>A copy that carries the metadata that was written.\<close>

definition carries_metadata ::
  "(bytes \<Rightarrow> bytes) \<Rightarrow> (bytes \<Rightarrow> bytes \<Rightarrow> bytes) \<Rightarrow> bytes \<Rightarrow> EncodedSidecarTapeFile \<Rightarrow> DecodedSidecarIndex \<Rightarrow> bool" where
  "carries_metadata sha256 hmac uuid tf dec \<longleftrightarrow>
     (\<exists>c. parse_sidecar_index_blocks sha256 hmac c uuid = Inr dec) \<and>
     header_metadata_bytes (dsi_header dec) (dsi_index dec) =
       header_metadata_bytes (estf_header tf) (estf_index tf)"

lemma choose_carrying:
  assumes "\<And>dec. primary = Inr dec \<Longrightarrow> carries_metadata sha256 hmac uuid tf dec"
    "\<And>dec. tail = Inr dec \<Longrightarrow> carries_metadata sha256 hmac uuid tf dec"
    "(\<exists>dec. primary = Inr dec) \<or> (\<exists>dec. tail = Inr dec)"
  shows "\<exists>dec. choose_sidecar_copy primary tail = Inr dec \<and> carries_metadata sha256 hmac uuid tf dec"
proof (cases primary; cases tail)
  fix x y assume xy: "primary = Inr x" "tail = Inr y"
  then obtain c c' where "parse_sidecar_index_blocks sha256 hmac c uuid = Inr x"
    "parse_sidecar_index_blocks sha256 hmac c' uuid = Inr y"
    "header_metadata_bytes (dsi_header x) (dsi_index x) = header_metadata_bytes (dsi_header y) (dsi_index y)"
    using assms(1) [OF xy(1)] assms(2) [OF xy(2)] by (auto simp: carries_metadata_def)
  note same_metadata_matches [OF this]
  then show ?thesis using assms(1) xy by (simp add: choose_sidecar_copy_def)
qed (use assms in \<open>auto simp: choose_sidecar_copy_def\<close>)

lemma index_copy_parsed:
  assumes "parse_sidecar_index_copy sha256 hmac c uuid (header_footer hmac h crc) ck = Inr dec"
  shows "parse_sidecar_index_blocks sha256 hmac c uuid = Inr dec"
    "sh_canonical_metadata_hash (dsi_header dec) = sh_canonical_metadata_hash h"
  using assms
  by (auto simp: parse_sidecar_index_copy_def sidecar_validate_header_matches_footer_def header_footer_def
      split: if_splits)

lemma parse_damaged_copies:
  assumes e: "encode_sidecar_owned sha256 hmac d shards crcs = Inr tf"
    and ext: "length (sd_tape_uuid d) = 16" "\<And>bs. length (sha256 bs) = 32" "\<And>k bs. length (hmac k bs) = 32"
    and w: "estf_blocks tf = p @ emission d shards @ t @ [fb]" "length p = n" "length t = n"
      "n = unat (sh_shard_index_block_count (estf_header tf))"
    and d: "length p' = n" "length t' = n" "p' = p \<or> t' = t"
    and no_collision: "\<And>c dec. c = p' \<or> c = t' \<Longrightarrow> parse_sidecar_index_blocks sha256 hmac c (sd_tape_uuid d) = Inr dec \<Longrightarrow>
      sha256 (header_metadata_bytes (dsi_header dec) (dsi_index dec)) =
        sha256 (header_metadata_bytes (estf_header tf) (estf_index tf)) \<Longrightarrow>
      header_metadata_bytes (dsi_header dec) (dsi_index dec) = header_metadata_bytes (estf_header tf) (estf_index tf)"
  shows "\<exists>dec. parse_sidecar_tape_file sha256 hmac (p' @ emission d shards @ t' @ [fb]) (sd_tape_uuid d) = Inr dec \<and>
    dstf_parity_shards dec = shards \<and> dstf_index dec = estf_index tf \<and> header_descriptor (dstf_header dec) = d"
proof -
  obtain p0 t0 ht fb0 crc where f:
    "estf_blocks tf = p0 @ emission d shards @ t0 @ [fb0]" "length p0 = n" "length t0 = n" "n \<noteq> 0"
    "parse_sidecar_footer_block hmac fb0 (sd_tape_uuid d) = Inr (header_footer hmac (estf_header tf) crc)"
    "parse_sidecar_index_copy sha256 hmac p0 (sd_tape_uuid d) (header_footer hmac (estf_header tf) crc) Primary =
       Inr \<lparr>dsi_header = estf_header tf, dsi_index = estf_index tf\<rparr>"
    "parse_sidecar_index_copy sha256 hmac t0 (sd_tape_uuid d) (header_footer hmac (estf_header tf) crc) Tail =
       Inr \<lparr>dsi_header = ht, dsi_index = estf_index tf\<rparr>"
    "header_metadata_bytes ht (estf_index tf) = header_metadata_bytes (estf_header tf) (estf_index tf)"
    "header_descriptor (estf_header tf) = d" "estf_index tf = shard_index d shards crcs"
    "length shards = unat (sd_stripes_per_epoch d) * unat (sd_m d)"
    "list_all (\<lambda>x. length x = unat (sd_block_size d)) shards"
    "unat (sh_sidecar_total_block_count (estf_header tf)) = 2 * n + length shards + 1"
    "unat (sh_tail_header_start_block (estf_header tf)) = n + length shards"
    using written_file [OF e ext, folded w(4)] .
  have same: "p0 = p" "t0 = t" "fb0 = fb" using f(1-3) w(1-3) by auto
  let ?ft = "header_footer hmac (estf_header tf) crc" and ?u = "sd_tape_uuid d"
  let ?prim = "parse_sidecar_index_copy sha256 hmac p' ?u ?ft Primary"
  let ?tail = "parse_sidecar_index_copy sha256 hmac t' ?u ?ft Tail"
  have wh: "sh_canonical_metadata_hash (estf_header tf) = sha256 (header_metadata_bytes (estf_header tf) (estf_index tf))"
    using parsed_copy(8) [OF index_copy_parsed(1) [OF f(6)]] by simp
  have good: "carries_metadata sha256 hmac ?u tf dec"
    if c: "parse_sidecar_index_copy sha256 hmac c ?u ?ft ck = Inr dec" "c = p' \<or> c = t'" for c ck dec
  proof -
    note i = index_copy_parsed [OF c(1)]
    have "sha256 (header_metadata_bytes (dsi_header dec) (dsi_index dec)) =
        sha256 (header_metadata_bytes (estf_header tf) (estf_index tf))"
      using i(2) wh parsed_copy(8) [OF i(1)] by simp
    then show ?thesis using no_collision [OF c(2) i(1)] i(1) by (auto simp: carries_metadata_def)
  qed
  have "(\<exists>dec. ?prim = Inr dec) \<or> (\<exists>dec. ?tail = Inr dec)" using d(3) f(6,7) same by auto
  then obtain dec where dec: "choose_sidecar_copy ?prim ?tail = Inr dec" "carries_metadata sha256 hmac ?u tf dec"
    using choose_carrying [of ?prim sha256 hmac ?u tf ?tail] good by blast
  obtain c where c: "parse_sidecar_index_blocks sha256 hmac c ?u = Inr dec"
    "header_metadata_bytes (dsi_header dec) (dsi_index dec) = header_metadata_bytes (estf_header tf) (estf_index tf)"
    using dec(2) by (auto simp: carries_metadata_def)
  have q: "sidecar_header_metadata_matches (dsi_header dec) (estf_header tf)" "dsi_index dec = estf_index tf"
    "header_descriptor (dsi_header dec) = d"
    using same_metadata_matches [OF c(1) index_copy_parsed(1) [OF f(6)]] c(2) f(9) by simp_all
  have qn: "unat (sh_shard_index_block_count (dsi_header dec)) = length p'"
    using q(1) d(1) w(4) by (simp add: sidecar_header_metadata_matches_def)
  have "length p' + length shards < 2 ^ 64"
    using f(13) d(1) unat_u64_less [of "sh_sidecar_total_block_count (estf_header tf)"] by simp
  note rs = read_shards [OF q(3) qn q(2) [unfolded f(10)] f(11,12) this, of "t' @ [fb]"]
  have "p' \<noteq> []" using d(1) f(4) by auto
  then have "parse_sidecar_tape_file sha256 hmac (p' @ emission d shards @ t' @ [fb]) ?u =
      Inr \<lparr>dstf_header = dsi_header dec, dstf_index = dsi_index dec, dstf_parity_shards = shards\<rparr>"
    using parse_with_copies [OF e ext w(1), of ?ft crc p' t'] f(5,11,13,14) d(1,2) w(4) rs dec(1) same by simp
  then show ?thesis using q by simp
qed

section \<open>When encoding succeeds\<close>

lemma length_greedy: "length (greedy spill rem es) \<le> 1 + length es"
  by (induction spill rem es rule: greedy.induct) (auto split: list.splits)

lemma index_layout_total:
  fixes index :: SidecarIndex
  assumes "0xE0 \<le> b" "b < 2 ^ 32"
    and "length (si_parity_entries index) + length (si_data_shard_crc64s index) < 2 ^ 62"
  shows "\<exists>n i. compute_index_layout b (length (si_parity_entries index)) (length (si_data_shard_crc64s index)) = Inr (n, i) \<and>
    unat n \<le> 1 + length (si_parity_entries index) + length (si_data_shard_crc64s index)"
proof -
  let ?P = "length (si_parity_entries index)" and ?D = "length (si_data_shard_crc64s index)"
  obtain bw p d :: u64 where u: "unat bw = b" "unat p = ?P" "unat d = ?D"
    using unat_exists [of b] unat_exists [of ?P] unat_exists [of ?D] assms(2,3) by auto
  obtain c cs where g: "greedy (b - 8) (b - 0xD0) (index_entries index) = c # cs" using greedy_Cons by blast
  have target: "\<exists>r. foldl (place_len (b - 8)) (1, b - 0xD0, 0) (replicate (unat p) 16 @ replicate (unat d) 8)
      = (1 + length cs, r, length (concat c))"
    using greedy_counts [OF _ g, of 1 0] u by (simp add: index_entry_lengths)
  have cs: "length cs \<le> ?P + ?D"
    using length_greedy [of "b - 8" "b - 0xD0" "index_entries index"] g by (simp add: index_entries_def)
  then have small: "1 + length cs < 2 ^ 64" using assms(3) by simp
  obtain l where "checked_sidecar_index_capacity_layout bw p d = Inr l" "unat (sil_block_count l) = 1 + length cs"
    using checked_layout_nat(1) [of bw p d] target small u(1) assms(1) by auto
  moreover have "u64_of_usize b = Some bw" "u64_of_usize ?P = Some p" "u64_of_usize ?D = Some d"
    using u64_of_usize_unat [of bw] u64_of_usize_unat [of p] u64_of_usize_unat [of d] by (simp_all only: u)
  ultimately show ?thesis using cs by (simp add: compute_index_layout_def)
qed

lemma index_layout_room:
  fixes index :: SidecarIndex
  assumes "0xD0 \<le> b" "si_parity_entries index \<noteq> []"
    and "compute_index_layout b (length (si_parity_entries index)) (length (si_data_shard_crc64s index)) = Inr l"
  shows "0xE0 \<le> b"
proof (rule ccontr)
  assume n: "\<not> 0xE0 \<le> b"
  obtain bw p d l' where w: "u64_of_usize b = Some bw"
    "u64_of_usize (length (si_parity_entries index)) = Some p"
    "checked_sidecar_index_capacity_layout bw p d = Inr l'"
    using assms(3) by (auto simp: compute_index_layout_def)
  have u: "unat bw = b" "unat p = length (si_parity_entries index)"
    using w(1,2) by (auto simp: u64_of_usize_def unat_word_of_nat split: if_splits)
  have "p \<noteq> 0" using u(2) assms(2) by auto
  then have "\<exists>e. checked_sidecar_index_capacity_layout bw p d = Inl e"
    using checked_layout_nat(2) [of bw p d] u(1) assms(1) n by auto
  then show False using w(3) by simp
qed

lemma descriptor_layout_total:
  assumes "validate_descriptor d = Inr b"
    and "2 * unat n + unat (sd_stripes_per_epoch d) * unat (sd_m d) + 1 < 2 ^ 64"
  shows "\<exists>l. descriptor_layout d n = Inr l"
proof -
  let ?P = "unat (sd_stripes_per_epoch d) * unat (sd_m d)"
  note v = assms(1) [unfolded validate_descriptor_Inr]
  obtain r :: u64 where r: "unat r = unat (sd_protected_ordinal_end_exclusive d) - unat (sd_protected_ordinal_start d)"
    using unat_exists [of "unat (sd_protected_ordinal_end_exclusive d) - unat (sd_protected_ordinal_start d)"]
      unat_u64_less [of "sd_protected_ordinal_end_exclusive d"] by (auto simp: less_imp_diff_less)
  obtain p :: u64 where "unat p = ?P" using unat_exists [of ?P] assms(2) by auto
  moreover obtain t :: u64 where "unat t = unat n + ?P" using unat_exists [of "unat n + ?P"] assms(2) by auto
  moreover obtain f :: u64 where "unat f = 2 * unat n + ?P" using unat_exists [of "2 * unat n + ?P"] assms(2) by auto
  moreover obtain k :: u64 where "unat k = 2 * unat n + ?P + 1"
    using unat_exists [of "2 * unat n + ?P + 1"] assms(2) by auto
  ultimately have "descriptor_layout d n = Inr (r, p, t, f, k)"
    unfolding descriptor_layout_Inr using v r by simp
  then show ?thesis by blast
qed

lemma shard_index_shape:
  assumes "validate_descriptor d = Inr b" "length shards = unat (sd_stripes_per_epoch d) * unat (sd_m d)"
    and "unat (sd_protected_ordinal_end_exclusive d) = unat (sd_protected_ordinal_start d) + length crcs"
  shows "validate_index_shape d (shard_index d shards crcs) = Inr ()"
proof -
  have P: "unat (sd_stripes_per_epoch d) * unat (sd_m d) < 2 ^ 32" using assms(1) by (simp add: validate_descriptor_Inr)
  have "length crcs < 2 ^ 64" using assms(3) unat_u64_less [of "sd_protected_ordinal_end_exclusive d"] by simp
  then have r: "descriptor_range d = Inr (word_of_nat (length crcs))" "unat (word_of_nat (length crcs) :: u64) = length crcs"
    using assms(3) by (simp_all add: descriptor_range_Inr unat_word_of_nat)
  have p: "descriptor_parity d = Inr (word_of_nat (length shards))" "unat (word_of_nat (length shards) :: u32) = length shards"
    using P assms(2) by (simp_all add: descriptor_parity_Inr unat_word_of_nat32 del: of_nat_mult)
  have step: "validate_index_entry d (i, entry_of d (i, x)) = Inr ()" for i x
    by (simp add: validate_index_entry_def entry_of_def)
  have ent: "try_fold (\<lambda>_. validate_index_entry d) () (List.enumerate k (map (entry_of d) (List.enumerate k xs))) = Inr ()" for k xs
    by (induction xs arbitrary: k) (simp_all add: step)
  show ?thesis
    unfolding validate_index_shape_def p(1) r(1) rbind_Inr p(2) r(2)
    using ent [of 0 shards] by (simp add: shard_index_def)
qed

lemma encode_sidecar_total:
  assumes ext: "length (sd_tape_uuid d) = 16" "\<And>bs. length (sha256 bs) = 32" "\<And>k bs. length (hmac k bs) = 32"
    and v: "validate_descriptor d = Inr (unat (sd_block_size d))" "0xE0 \<le> unat (sd_block_size d)"
      "length shards = unat (sd_stripes_per_epoch d) * unat (sd_m d)"
      "list_all (\<lambda>x. length x = unat (sd_block_size d)) shards"
      "unat (sd_protected_ordinal_end_exclusive d) = unat (sd_protected_ordinal_start d) + length crcs"
  shows "\<exists>tf. encode_sidecar_owned sha256 hmac d shards crcs = Inr tf"
proof -
  let ?b = "unat (sd_block_size d)" and ?S = "unat (sd_stripes_per_epoch d)"
  define index where "index = shard_index d shards crcs"
  have P: "length shards < 2 ^ 32" using v(1,3) by (simp add: validate_descriptor_Inr)
  have "?S * unat (sd_k d) \<le> 4294967296 * 65536"
    using unat_u32_less [of "sd_stripes_per_epoch d"] unat_u16_less [of "sd_k d"] by (intro mult_mono) simp_all
  then have D: "length crcs \<le> 2 ^ 48" using v(1,5) by (simp add: validate_descriptor_Inr)
  have len: "length (si_parity_entries index) = length shards" "length (si_data_shard_crc64s index) = length crcs"
    by (simp_all add: index_def shard_index_def)
  obtain n i where l: "compute_index_layout ?b (length (si_parity_entries index)) (length (si_data_shard_crc64s index)) = Inr (n, i)"
    "unat n \<le> 1 + length shards + length crcs"
    using index_layout_total [OF v(2), of index] P D unat_u32_less [of "sd_block_size d"] len by auto
  have b: "0xD0 \<le> ?b" "?b < 2 ^ 64" using v(2) unat_u32_less [of "sd_block_size d"] by simp_all
  obtain pb where pb: "pack_index_blocks ?b index = Inr pb" using packed_geometry [OF b l(1)] by metis
  obtain ly where ly: "descriptor_layout d n = Inr ly"
    using descriptor_layout_total [OF v(1), of n] l(2) P D v(3) by auto
  obtain hash where hash: "compute_canonical_metadata_hash sha256 hmac d index n i = Inr hash"
    by (cases ly) (simp add: compute_canonical_metadata_hash_def ly)
  have head: "\<exists>h. sidecar_build_header hmac d n i ck hash = Inr h" for ck
    by (cases ly) (simp add: sidecar_build_header_def ly)
  obtain hp ht where h: "sidecar_build_header hmac d n i Primary hash = Inr hp"
    "sidecar_build_header hmac d n i Tail hash = Inr ht" using head by blast
  obtain hp' x where fin: "finalize_header_block hp (pb ! 0) = (hp', x)" by (cases "finalize_header_block hp (pb ! 0)")
  obtain ht' y where fin': "finalize_header_block ht (pb ! 0) = (ht', y)" by (cases "finalize_header_block ht (pb ! 0)")
  have shape: "validate_index_shape d index = Inr ()"
    using shard_index_shape [OF v(1,3,5)] by (simp add: index_def)
  have enc: "encode_sidecar_index_blocks sha256 hmac d index = Inr \<lparr>esi_header = hp', esi_blocks = pb[0 := x]\<rparr>"
    unfolding encode_sidecar_index_blocks_def v(1) rbind_Inr shape l(1) prod.case pb hash h(1) Let_def fin ..
  have "unat (word_of_nat (length shards) :: u32) = length shards" "descriptor_parity d = Inr (word_of_nat (length shards))"
    using P v(3) by (simp_all add: descriptor_parity_Inr unat_word_of_nat32 del: of_nat_mult)
  then have md: "sidecar_metadata sha256 hmac d shards crcs = Inr (\<lparr>esi_header = hp', esi_blocks = pb[0 := x]\<rparr>, index)"
    unfolding sidecar_metadata_def v(1) rbind_Inr Let_def
    using shard_entries [of d ?b shards "map (entry_of d) (List.enumerate 0 shards)"] v(4) enc
    by (simp add: index_def shard_index_def)
  have w: "copy_written sha256 hmac d index Primary hp hp' (pb[0 := x])"
    unfolding copy_written_def using v(1) shape l(1) hash h(1) pb fin by blast
  note cp = copy_written_parses [OF w ext]
  obtain a c where crc: "hp' = hp\<lparr>sh_header_crc64 := a, sh_block0_crc64 := c\<rparr>" using cp(4) by blast
  have hp: "sh_shard_index_block_count hp = n" "sh_inline_index_entry_bytes hp = i"
    "sh_canonical_metadata_hash hp = hash" "sh_block_size hp = sd_block_size d"
    using h(1) by (auto simp: sidecar_build_header_def)
  obtain st where em: "try_fold (emit_shard d n) (pb[0 := x], map Some shards)
       (List.product [0..<unat (sd_m d)] [0..<?S]) = Inr (pb[0 := x] @ emission d shards, st)"
    using emitted [OF v(3), of "pb[0 := x]" n] cp(2) hp(1) l(2) P D by auto
  obtain fb where fb: "encode_sidecar_footer_block hmac hp' = Inr fb"
    using v(2) by (simp add: encode_sidecar_footer_block_def Let_def SIDECAR_FOOTER_LEN_def crc hp)
  have "length shards + unat n + 1 < 2 ^ 64" using l(2) P D by simp
  then show ?thesis
    unfolding encode_sidecar_owned_def md rbind_Inr prod.case Let_def
    using em fb pb h(2) fin' by (simp add: crc hp)
qed

lemma encode_sidecar_requires:
  assumes ext: "length (sd_tape_uuid d) = 16" "\<And>bs. length (sha256 bs) = 32" "\<And>k bs. length (hmac k bs) = 32"
    and "\<exists>tf. encode_sidecar_tape_file sha256 hmac d shards crcs = Inr tf"
  shows "0xE0 \<le> unat (sd_block_size d) \<and> sd_k d \<noteq> 0 \<and> sd_m d \<noteq> 0 \<and> sd_stripes_per_epoch d \<noteq> 0 \<and>
    unat (sd_stripes_per_epoch d) * unat (sd_m d) < 2 ^ 32 \<and>
    length shards = unat (sd_stripes_per_epoch d) * unat (sd_m d) \<and>
    list_all (\<lambda>x. length x = unat (sd_block_size d)) shards \<and>
    0 < length crcs \<and> length crcs \<le> unat (sd_stripes_per_epoch d) * unat (sd_k d) \<and>
    unat (sd_protected_ordinal_end_exclusive d) = unat (sd_protected_ordinal_start d) + length crcs"
proof -
  obtain tf where e: "encode_sidecar_owned sha256 hmac d shards crcs = Inr tf"
    using assms(4) by (auto simp: encode_sidecar_tape_file_def)
  obtain p hp where w: "copy_written sha256 hmac d (shard_index d shards crcs) Primary hp (estf_header tf) p"
    "length shards = unat (sd_stripes_per_epoch d) * unat (sd_m d)"
    "list_all (\<lambda>x. length x = unat (sd_block_size d)) shards"
    using encode_sidecar_Inr [OF e ext] by metis
  then obtain l where v: "validate_descriptor d = Inr (unat (sd_block_size d))"
    "validate_index_shape d (shard_index d shards crcs) = Inr ()"
    "compute_index_layout (unat (sd_block_size d)) (length (si_parity_entries (shard_index d shards crcs)))
      (length (si_data_shard_crc64s (shard_index d shards crcs))) = Inr l"
    by (auto simp: copy_written_def)
  note d = v(1) [unfolded validate_descriptor_Inr] and i = index_shape_lengths [OF v(2)]
  have "0 < unat (sd_stripes_per_epoch d) * unat (sd_m d)" using d by (simp add: unat_gt_0)
  then have "si_parity_entries (shard_index d shards crcs) \<noteq> []" using i by auto
  then have "0xE0 \<le> unat (sd_block_size d)" using index_layout_room [OF _ _ v(3)] d by blast
  then show ?thesis using d i w(2,3) by (simp add: shard_index_def)
qed

lemma parse_encoded:
  assumes ext: "length (sd_tape_uuid d) = 16" "\<And>bs. length (sha256 bs) = 32" "\<And>k bs. length (hmac k bs) = 32"
    and "encode_sidecar_tape_file sha256 hmac d shards crcs = Inr tf"
  shows "parse_sidecar_tape_file sha256 hmac (estf_blocks tf) (sd_tape_uuid d) =
      Inr \<lparr>dstf_header = estf_header tf, dstf_index = estf_index tf, dstf_parity_shards = shards\<rparr>"
proof -
  have e: "encode_sidecar_owned sha256 hmac d shards crcs = Inr tf"
    using assms(4) by (simp add: encode_sidecar_tape_file_def)
  define n where "n = unat (sh_shard_index_block_count (estf_header tf))"
  obtain p t ht fb crc where f:
    "estf_blocks tf = p @ emission d shards @ t @ [fb]" "length p = n" "length t = n" "n \<noteq> 0"
    "parse_sidecar_footer_block hmac fb (sd_tape_uuid d) = Inr (header_footer hmac (estf_header tf) crc)"
    "parse_sidecar_index_copy sha256 hmac p (sd_tape_uuid d) (header_footer hmac (estf_header tf) crc) Primary =
       Inr \<lparr>dsi_header = estf_header tf, dsi_index = estf_index tf\<rparr>"
    "parse_sidecar_index_copy sha256 hmac t (sd_tape_uuid d) (header_footer hmac (estf_header tf) crc) Tail =
       Inr \<lparr>dsi_header = ht, dsi_index = estf_index tf\<rparr>"
    "header_metadata_bytes ht (estf_index tf) = header_metadata_bytes (estf_header tf) (estf_index tf)"
    "header_descriptor (estf_header tf) = d" "estf_index tf = shard_index d shards crcs"
    "length shards = unat (sd_stripes_per_epoch d) * unat (sd_m d)"
    "list_all (\<lambda>x. length x = unat (sd_block_size d)) shards"
    "unat (sh_sidecar_total_block_count (estf_header tf)) = 2 * n + length shards + 1"
    "unat (sh_tail_header_start_block (estf_header tf)) = n + length shards"
    using written_file [OF e ext, folded n_def] .
  have ch: "choose_sidecar_copy (Inr \<lparr>dsi_header = estf_header tf, dsi_index = estf_index tf\<rparr>)
      (Inr \<lparr>dsi_header = ht, dsi_index = estf_index tf\<rparr>) = Inr \<lparr>dsi_header = estf_header tf, dsi_index = estf_index tf\<rparr>"
    using same_metadata_matches [OF index_copy_parsed(1) [OF f(6)] index_copy_parsed(1) [OF f(7)]] f(8)
    by (simp add: choose_sidecar_copy_def)
  have "length p + length shards < 2 ^ 64"
    using f(2,13) unat_u64_less [of "sh_sidecar_total_block_count (estf_header tf)"] by simp
  note rs = read_shards [of "\<lparr>dsi_header = estf_header tf, dsi_index = estf_index tf\<rparr>" d p shards crcs, OF _ _ _ f(11,12) this]
  have "p \<noteq> []" using f(2,4) by auto
  then show ?thesis
    unfolding f(1)
    using parse_with_copies [OF e ext f(1,5) refl, of p t] f(2-4,9-14) rs ch n_def
    by (simp add: f(6,7))
qed

section \<open>Claims\<close>

text \<open>C32: The sidecar encoder and parser are inverse to each other. A sidecar can be written exactly when the
  descriptor is valid, a block has room for the header and one index entry, and the caller supplies
  \<open>S * m\<close> full-block parity shards and one CRC for every protected ordinal; the strict parser then returns
  the written header and index and the shards in the order in which they were supplied.\<close>

theorem parse_encode_sidecar_tape_file:
  assumes "length (sd_tape_uuid d) = 16" "\<forall>bs. length (sha256 bs) = 32" "\<forall>k bs. length (hmac k bs) = 32"
  shows "((\<exists>tf. encode_sidecar_tape_file sha256 hmac d shards crcs = Inr tf) \<longleftrightarrow>
      0xE0 \<le> unat (sd_block_size d) \<and> sd_k d \<noteq> 0 \<and> sd_m d \<noteq> 0 \<and> sd_stripes_per_epoch d \<noteq> 0 \<and>
      unat (sd_stripes_per_epoch d) * unat (sd_m d) < 2 ^ 32 \<and>
      length shards = unat (sd_stripes_per_epoch d) * unat (sd_m d) \<and>
      list_all (\<lambda>x. length x = unat (sd_block_size d)) shards \<and>
      0 < length crcs \<and> length crcs \<le> unat (sd_stripes_per_epoch d) * unat (sd_k d) \<and>
      unat (sd_protected_ordinal_end_exclusive d) = unat (sd_protected_ordinal_start d) + length crcs) \<and>
    (encode_sidecar_tape_file sha256 hmac d shards crcs = Inr tf \<longrightarrow>
      parse_sidecar_tape_file sha256 hmac (estf_blocks tf) (sd_tape_uuid d) =
        Inr \<lparr>dstf_header = estf_header tf, dstf_index = estf_index tf, dstf_parity_shards = shards\<rparr>)"
  (is "(?l \<longleftrightarrow> ?r) \<and> _")
proof -
  have ext: "length (sd_tape_uuid d) = 16" "length (sha256 bs) = 32" "length (hmac k bs) = 32" for bs k
    using assms by simp_all
  have "?l" if ?r
    using encode_sidecar_total [OF ext, of shards crcs] that
    by (simp add: encode_sidecar_tape_file_def validate_descriptor_Inr)
  moreover have "?r" if ?l using encode_sidecar_requires [OF ext that] .
  ultimately show ?thesis using parse_encoded [of d sha256 hmac shards crcs tf, OF ext] by blast
qed

definition sample_descriptor :: SidecarDescriptor where
  "sample_descriptor =
     \<lparr>sd_tape_uuid = replicate 16 7, sd_epoch_id = 3, sd_k = 1, sd_m = 1, sd_stripes_per_epoch = 2,
      sd_block_size = 256, sd_protected_ordinal_start = 10, sd_protected_ordinal_end_exclusive = 12\<rparr>"

definition sample_shards :: "bytes list" where
  "sample_shards = [replicate 256 1, replicate 256 2]"

theorem parse_encode_sidecar_tape_file_witness:
  "\<exists>tf. encode_sidecar_tape_file (\<lambda>_. replicate 32 0) (\<lambda>_ _. replicate 32 5) sample_descriptor sample_shards [8, 9] = Inr tf \<and>
     parse_sidecar_tape_file (\<lambda>_. replicate 32 0) (\<lambda>_ _. replicate 32 5) (estf_blocks tf) (replicate 16 7) =
       Inr \<lparr>dstf_header = estf_header tf, dstf_index = estf_index tf, dstf_parity_shards = sample_shards\<rparr>"
  using parse_encode_sidecar_tape_file [of sample_descriptor "\<lambda>_. replicate 32 0" "\<lambda>_ _. replicate 32 5"
      sample_shards "[8, 9]"]
  by (auto simp: sample_descriptor_def sample_shards_def)

text \<open>C31: A written parity sidecar survives the loss of either of its two metadata copies. Replace the
  primary copy or the tail copy by arbitrary blocks: the parser still returns every parity shard in
  stripe-major order, the complete index and the described geometry, unless one of the two copies is
  accepted with other metadata that has the same SHA-256 hash as the metadata that was written.\<close>

theorem sidecar_survives_copy_damage:
  assumes "encode_sidecar_tape_file sha256 hmac d shards crcs = Inr tf"
    and "length (sd_tape_uuid d) = 16" "\<forall>bs. length (sha256 bs) = 32" "\<forall>k bs. length (hmac k bs) = 32"
    and "n = unat (sh_shard_index_block_count (estf_header tf))" "length a = n" "length b = n"
    and "a = take n (estf_blocks tf) \<or> b = slice (n + length shards) n (estf_blocks tf)"
  shows "(\<exists>dec. parse_sidecar_tape_file sha256 hmac
        (a @ slice n (length shards) (estf_blocks tf) @ b @ [last (estf_blocks tf)]) (sd_tape_uuid d) = Inr dec \<and>
      dstf_parity_shards dec = shards \<and> dstf_index dec = estf_index tf \<and> header_descriptor (dstf_header dec) = d) \<or>
    (\<exists>copy \<in> {a, b}. \<exists>dec. parse_sidecar_index_blocks sha256 hmac copy (sd_tape_uuid d) = Inr dec \<and>
      header_metadata_bytes (dsi_header dec) (dsi_index dec) \<noteq>
        header_metadata_bytes (estf_header tf) (estf_index tf) \<and>
      sha256 (header_metadata_bytes (dsi_header dec) (dsi_index dec)) =
        sha256 (header_metadata_bytes (estf_header tf) (estf_index tf)))"
proof -
  have e: "encode_sidecar_owned sha256 hmac d shards crcs = Inr tf"
    using assms(1) by (simp add: encode_sidecar_tape_file_def)
  have ext: "length (sha256 bs) = 32" "length (hmac k bs) = 32" for bs k using assms(3,4) by simp_all
  obtain p t fb where w: "estf_blocks tf = p @ emission d shards @ t @ [fb]" "length p = n" "length t = n"
    "length shards = unat (sd_stripes_per_epoch d) * unat (sd_m d)"
    by (rule written_file [OF e assms(2) ext, folded assms(5)])
  have le: "length (emission d shards) = length shards" using w(4) by (simp add: mult.commute)
  have s: "slice n (length shards) (estf_blocks tf) = emission d shards" "last (estf_blocks tf) = fb"
    "take n (estf_blocks tf) = p" "slice (n + length shards) n (estf_blocks tf) = t"
    using w(2,3) le by (simp_all add: w(1) slice_def)
  show ?thesis
    unfolding s(1,2)
    using parse_damaged_copies [OF e assms(2) ext w(1-3) assms(5-7)] assms(8) unfolding s(3,4) by blast
qed

theorem sidecar_survives_copy_damage_witness:
  "\<exists>tf n dec. encode_sidecar_tape_file (\<lambda>_. replicate 32 0) (\<lambda>_ _. replicate 32 5) sample_descriptor sample_shards [8, 9] = Inr tf \<and>
     parse_sidecar_tape_file (\<lambda>_. replicate 32 0) (\<lambda>_ _. replicate 32 5)
       (take n (estf_blocks tf) @ slice n 2 (estf_blocks tf) @ replicate n [] @ [last (estf_blocks tf)])
       (replicate 16 7) = Inr dec \<and> dstf_parity_shards dec = sample_shards"
proof -
  let ?sha = "\<lambda>_. replicate 32 0 :: bytes" and ?hmac = "\<lambda>_ _. replicate 32 5 :: bytes"
  have ext: "length (sd_tape_uuid sample_descriptor) = 16" "length (?sha bs) = 32" "length (?hmac k bs) = 32" for k bs :: bytes
    by (simp_all add: sample_descriptor_def)
  obtain tf where tf: "encode_sidecar_owned ?sha ?hmac sample_descriptor sample_shards [8, 9] = Inr tf"
    using encode_sidecar_total [OF ext, of sample_shards "[8, 9]"]
    by (auto simp: sample_descriptor_def sample_shards_def validate_descriptor_Inr)
  define n where "n = unat (sh_shard_index_block_count (estf_header tf))"
  obtain p t fb crc where w: "estf_blocks tf = p @ emission sample_descriptor sample_shards @ t @ [fb]" "length p = n" "n \<noteq> 0"
    "parse_sidecar_index_copy ?sha ?hmac p (sd_tape_uuid sample_descriptor) (header_footer ?hmac (estf_header tf) crc) Primary =
       Inr \<lparr>dsi_header = estf_header tf, dsi_index = estf_index tf\<rparr>"
    by (rule written_file [OF tf ext, folded n_def])
  have "parse_sidecar_index_blocks ?sha ?hmac (replicate n []) (sd_tape_uuid sample_descriptor) =
      Inl (SidecarParse ''sidecar block0 too short: got {}, need at least {}'')"
    using w(3) by (cases n) (simp_all add: parse_sidecar_index_blocks_def parse_sidecar_header_block_def)
  then have "\<exists>dec. parse_sidecar_tape_file ?sha ?hmac
       (take n (estf_blocks tf) @ slice n 2 (estf_blocks tf) @ replicate n [] @ [last (estf_blocks tf)])
       (sd_tape_uuid sample_descriptor) = Inr dec \<and> dstf_parity_shards dec = sample_shards"
    using sidecar_survives_copy_damage [of ?sha ?hmac sample_descriptor sample_shards "[8, 9]" tf n p "replicate n []"]
      tf ext w index_copy_parsed(1) [OF w(4)]
    by (auto simp: encode_sidecar_tape_file_def n_def [symmetric] sample_shards_def numeral_2_eq_2)
  then show ?thesis using tf by (auto simp: encode_sidecar_tape_file_def sample_descriptor_def)
qed

end
