(* ===== verification/EpochAccumulator.thy ===== *)
theory EpochAccumulator
  imports ReedSolomon CheckValue SidecarFile
begin

text \<open>
  The incremental epoch parity of \<open>crates/remanence-parity/src/closeout.rs\<close>: the accumulator that the
  original write path and the closeout read-back share, its hand-over to the sidecar encoder, and the
  rebuild of a committed range whose sidecar is still owed. The codec's multiply-add kernel and the
  adapter that reads committed blocks are parameters; a reader operation maps the adapter's state to a
  result and a new state. The lemmas show that an accumulator always holds the Reed-Solomon parity of
  the blocks pushed so far, padded with zero blocks, and that a rebuild from tape returns exactly the
  accumulator of the original write or reports a check mismatch.
\<close>

section \<open>The accumulator\<close>

record CommittedExtent =
  ce_tape_file_number :: u64
  ce_first_ordinal :: u64
  ce_block_count :: u64
  ce_physical_start_lba :: u64

record UncoveredRange =
  ur_epoch_id :: u64
  ur_w :: u64
  ur_t :: u64
  ur_extents :: "CommittedExtent list"
  ur_check :: CheckValue

record EpochAccumulator =
  ea_tape_uuid :: bytes
  ea_scheme :: ParityScheme
  ea_block_size :: u32
  ea_epoch_id :: u64
  ea_epoch_start :: u64
  ea_next_ordinal :: u64
  ea_codec :: ReedSolomonCodec
  ea_parity_accumulators :: "bytes list list"
  ea_current_epoch_data_crc64s :: "u64 list"
  ea_check :: CheckValueBuilder

definition reservation_bytes :: "ParityScheme \<Rightarrow> u32 \<Rightarrow> u64 parity_result" where
  "reservation_bytes scheme block_size =
     (let s = ucast (stripes_per_neighborhood scheme)
      in ok_or (Invariant ''epoch reservation overflows'')
        (Option.bind (checked_mul s (ucast (parity_blocks_per_stripe scheme))) (\<lambda>v.
         Option.bind (checked_mul v (ucast block_size)) (\<lambda>v.
         Option.bind (checked_mul s (ucast (data_blocks_per_stripe scheme))) (\<lambda>n.
         Option.bind (checked_mul n 8) (\<lambda>n. checked_add v n))))))"

text \<open>
  \<open>std::mem::size_of\<close> of the container types is fixed by the compiler, so the four sizes are a
  parameter of the working-set bound.
\<close>

record type_sizes =
  size_of_vec :: u64
  size_of_index_entry :: u64
  size_of_extent :: u64
  size_of_accumulator :: u64

definition DEFAULT_TAPE_IO_BATCH_BLOCKS :: u32 where
  "DEFAULT_TAPE_IO_BATCH_BLOCKS = 16"

definition working_reservation_bytes ::
  "type_sizes \<Rightarrow> ParityScheme \<Rightarrow> u32 \<Rightarrow> u64 \<Rightarrow> u64 parity_result" where
  "working_reservation_bytes sizes scheme block_size extent_count =
     rbind (ParityScheme_validate scheme) (\<lambda>_.
     rbind (reservation_bytes scheme block_size) (\<lambda>core.
     let s = ucast (stripes_per_neighborhood scheme);
         m = ucast (parity_blocks_per_stripe scheme);
         k = ucast (data_blocks_per_stripe scheme)
     in
     rbind (ok_or (Invariant ''closeout parity count overflows'') (checked_mul s m)) (\<lambda>p.
     rbind (ok_or (Invariant ''closeout data count overflows'') (checked_mul s k)) (\<lambda>d.
     rbind (checked_sidecar_index_capacity_layout (ucast block_size) p d) (\<lambda>layout.
     let h = sil_block_count layout
     in ok_or (Invariant ''closeout working reservation overflows'')
       (Option.bind (checked_mul p 4) (\<lambda>p4.
        Option.bind (checked_add s p4) (\<lambda>n.
        Option.bind (checked_add n m) (\<lambda>n.
        Option.bind (checked_mul n (size_of_vec sizes)) (\<lambda>headers.
        Option.bind (checked_mul p (size_of_index_entry sizes)) (\<lambda>e.
        Option.bind (checked_mul d 8) (\<lambda>d8.
        Option.bind (checked_add e d8) (\<lambda>e.
        Option.bind (checked_mul e 6) (\<lambda>index.
        Option.bind (checked_mul h 3) (\<lambda>h3.
        Option.bind (checked_add h3 3) (\<lambda>n.
        Option.bind (checked_add n (ucast DEFAULT_TAPE_IO_BATCH_BLOCKS)) (\<lambda>n.
        Option.bind (checked_mul n (ucast block_size)) (\<lambda>scratch.
        Option.bind (checked_mul extent_count (size_of_extent sizes)) (\<lambda>e.
        Option.bind (checked_mul e 3) (\<lambda>extents.
        Option.bind (checked_add core headers) (\<lambda>total.
        Option.bind (checked_mul m k) (\<lambda>mk.
        Option.bind (checked_add total mk) (\<lambda>total.
        Option.bind (checked_add total index) (\<lambda>total.
        Option.bind (checked_add total scratch) (\<lambda>total.
        Option.bind (checked_add total extents) (\<lambda>total.
        checked_add total (size_of_accumulator sizes)))))))))))))))))))))))))))"

definition EpochAccumulator_new ::
  "bytes \<Rightarrow> ParityScheme \<Rightarrow> u32 \<Rightarrow> u64 \<Rightarrow> u64 \<Rightarrow> EpochAccumulator parity_result" where
  "EpochAccumulator_new tape_uuid scheme block_size epoch epoch_start =
     rbind (ParityScheme_validate scheme) (\<lambda>_.
     if block_size = 0 then Inl (Invariant ''epoch block size is zero'')
     else
     rbind (reservation_bytes scheme block_size) (\<lambda>_.
     rbind (ReedSolomonCodec_new scheme) (\<lambda>codec.
     Inr \<lparr>ea_tape_uuid = tape_uuid, ea_scheme = scheme, ea_block_size = block_size,
          ea_epoch_id = epoch, ea_epoch_start = epoch_start, ea_next_ordinal = epoch_start,
          ea_codec = codec,
          ea_parity_accumulators =
            map (\<lambda>_. new_parity_accumulators codec (unat block_size))
              [0..<unat (stripes_per_neighborhood scheme)],
          ea_current_epoch_data_crc64s = [], ea_check = CheckValueBuilder_new\<rparr>)))"

definition from_rebuilt ::
  "bytes \<Rightarrow> ParityScheme \<Rightarrow> u32 \<Rightarrow> u64 \<Rightarrow> u64 \<Rightarrow> u64 \<Rightarrow> bytes list list \<Rightarrow> u64 list \<Rightarrow>
     EpochAccumulator parity_result" where
  "from_rebuilt tape_uuid scheme block_size epoch epoch_start next_ordinal parity_accumulators
     block_crcs =
     rbind (ParityScheme_validate scheme) (\<lambda>_.
     rbind (ok_or (Invariant ''rebuilt epoch range reversed'')
       (checked_sub next_ordinal epoch_start)) (\<lambda>count.
     if block_size = 0
       \<or> count \<noteq> word_of_nat (length block_crcs)
       \<or> count > ucast (stripes_per_neighborhood scheme) * ucast (data_blocks_per_stripe scheme)
       \<or> length parity_accumulators \<noteq> unat (stripes_per_neighborhood scheme)
       \<or> list_ex (\<lambda>stripe. length stripe \<noteq> unat (parity_blocks_per_stripe scheme)
           \<or> list_ex (\<lambda>shard. length shard \<noteq> unat block_size) stripe) parity_accumulators
     then Inl (Invariant ''rebuilt epoch geometry mismatch'')
     else
     rbind (ReedSolomonCodec_new scheme) (\<lambda>codec.
     Inr \<lparr>ea_tape_uuid = tape_uuid, ea_scheme = scheme, ea_block_size = block_size,
          ea_epoch_id = epoch, ea_epoch_start = epoch_start, ea_next_ordinal = next_ordinal,
          ea_codec = codec, ea_parity_accumulators = parity_accumulators,
          ea_current_epoch_data_crc64s = block_crcs,
          ea_check = foldl CheckValueBuilder_push CheckValueBuilder_new block_crcs\<rparr>)))"

definition push_block ::
  "mul_slice_xor \<Rightarrow> KernelKind \<Rightarrow> EpochAccumulator \<Rightarrow> u64 \<Rightarrow> bytes \<Rightarrow> failure + EpochAccumulator" where
  "push_block msx kern acc ordinal block =
     (if ordinal \<noteq> ea_next_ordinal acc
      then Inl (Error (Invariant ''epoch ordinal is not consecutive''))
      else
      rbind (ok_or (Error (Invariant ''epoch ordinal overflows'')) (checked_add ordinal 1)) (\<lambda>next.
      rbind (ok_or (Panic ''attempt to subtract with overflow'')
        (checked_sub ordinal (ea_epoch_start acc))) (\<lambda>offset.
      let s = ucast (stripes_per_neighborhood (ea_scheme acc))
      in if offset \<ge> s * ucast (data_blocks_per_stripe (ea_scheme acc))
           \<or> length block \<noteq> unat (ea_block_size acc)
      then Inl (Error (Invariant ''epoch block exceeds geometry''))
      else if unat (offset mod s) \<ge> length (ea_parity_accumulators acc)
      then Inl (Error (Invariant ''epoch parity accumulators unavailable''))
      else
      rbind (accumulate msx kern (ea_codec acc) (unat (offset div s)) block
        (ea_parity_accumulators acc ! unat (offset mod s))) (\<lambda>accumulators.
      let crc = data_shard_crc64 block
      in Inr (acc\<lparr>ea_parity_accumulators :=
                  (ea_parity_accumulators acc)[unat (offset mod s) := accumulators],
                ea_current_epoch_data_crc64s := ea_current_epoch_data_crc64s acc @ [crc],
                ea_check := CheckValueBuilder_push (ea_check acc) crc,
                ea_next_ordinal := next\<rparr>)))))"

definition restart_empty :: "EpochAccumulator \<Rightarrow> u64 \<Rightarrow> u64 \<Rightarrow> EpochAccumulator parity_result" where
  "restart_empty acc epoch epoch_start =
     (if ea_current_epoch_data_crc64s acc \<noteq> []
      then Inl (Invariant ''cannot rebase a populated epoch'')
      else Inr (acc\<lparr>ea_epoch_id := epoch, ea_epoch_start := epoch_start,
                  ea_next_ordinal := epoch_start, ea_check := CheckValueBuilder_new\<rparr>))"

text \<open>\<open>take_parity_shards\<close> changes the accumulator on both paths, so it returns the new state beside
  the result.\<close>

definition take_parity_shards ::
  "EpochAccumulator \<Rightarrow> nat \<Rightarrow> bytes list parity_result \<times> EpochAccumulator" where
  "take_parity_shards acc block_size =
     (if block_size \<noteq> unat (ea_block_size acc)
        \<or> length (ea_parity_accumulators acc) \<noteq> unat (stripes_per_neighborhood (ea_scheme acc))
        \<or> list_ex (\<lambda>stripe. length stripe \<noteq> codec_m (ea_codec acc)
            \<or> list_ex (\<lambda>shard. length shard \<noteq> block_size) stripe) (ea_parity_accumulators acc)
      then (Inl (Invariant ''epoch parity shape mismatch''), acc\<lparr>ea_parity_accumulators := []\<rparr>)
      else (Inr (concat (ea_parity_accumulators acc)), acc\<lparr>ea_parity_accumulators := []\<rparr>))"

definition covered_end :: "EpochAccumulator \<Rightarrow> u64" where
  "covered_end acc = ea_next_ordinal acc"

definition EpochAccumulator_check_value :: "EpochAccumulator \<Rightarrow> CheckValue" where
  "EpochAccumulator_check_value acc = CheckValueBuilder_value (ea_check acc)"

definition into_sidecar ::
  "(bytes \<Rightarrow> bytes) \<Rightarrow> (bytes \<Rightarrow> bytes \<Rightarrow> bytes) \<Rightarrow> EpochAccumulator \<Rightarrow>
     EncodedSidecarTapeFile parity_result" where
  "into_sidecar sha256 hmac acc =
     (let descriptor =
        \<lparr>sd_tape_uuid = ea_tape_uuid acc, sd_epoch_id = ea_epoch_id acc,
         sd_k = data_blocks_per_stripe (ea_scheme acc), sd_m = parity_blocks_per_stripe (ea_scheme acc),
         sd_stripes_per_epoch = stripes_per_neighborhood (ea_scheme acc),
         sd_block_size = ea_block_size acc, sd_protected_ordinal_start = ea_epoch_start acc,
         sd_protected_ordinal_end_exclusive = ea_next_ordinal acc\<rparr>
      in encode_sidecar_owned sha256 hmac descriptor (concat (ea_parity_accumulators acc))
           (ea_current_epoch_data_crc64s acc))"

section \<open>Rebuilding a committed range\<close>

datatype CloseoutError =
    CheckMismatch CheckValue CheckValue
  | Boundary u64
  | CloseoutTapeIo TapeIoError
  | Memory
  | ParityFailure ParityError

text \<open>A failing kernel assertion unwinds through every caller.\<close>

datatype closeout_failure = Unwind string | Closeout "CloseoutError"

fun of_failure :: "failure \<Rightarrow> closeout_failure" where
  "of_failure (Panic msg) = Unwind msg"
| "of_failure (Error e) = Closeout (ParityFailure e)"

record 'r CommittedReader =
  cr_reprove_identity :: "'r \<Rightarrow> (CloseoutError + unit) \<times> 'r"
  cr_locate :: "u32 \<Rightarrow> u64 \<Rightarrow> 'r \<Rightarrow> (CloseoutError + unit) \<times> 'r"
  cr_read_block :: "nat \<Rightarrow> 'r \<Rightarrow> (CloseoutError + bytes) \<times> 'r"

fun read_blocks ::
  "mul_slice_xor \<Rightarrow> KernelKind \<Rightarrow> 'r CommittedReader \<Rightarrow> u64 list \<Rightarrow> EpochAccumulator \<Rightarrow>
     'r \<Rightarrow> (closeout_failure + EpochAccumulator) \<times> 'r" where
  "read_blocks msx kern reader [] acc = slift (Inr acc)"
| "read_blocks msx kern reader (ordinal # ordinals) acc =
     sbind Closeout (cr_read_block reader (unat (ea_block_size acc))) (\<lambda>block.
     sbind of_failure (slift (push_block msx kern acc ordinal block)) (\<lambda>acc'.
     read_blocks msx kern reader ordinals acc'))"

definition read_extent ::
  "mul_slice_xor \<Rightarrow> KernelKind \<Rightarrow> 'r CommittedReader \<Rightarrow> u32 \<Rightarrow> u64 \<Rightarrow> u64 \<Rightarrow> u64 \<Rightarrow>
     EpochAccumulator \<Rightarrow> 'r \<Rightarrow> (closeout_failure + EpochAccumulator) \<times> 'r" where
  "read_extent msx kern reader tape_partition lba start end_ordinal acc =
     sbind Closeout (cr_locate reader tape_partition lba) (\<lambda>_.
       read_blocks msx kern reader (map word_of_nat [unat start..<unat end_ordinal]) acc)"

type_synonym span_state = "u64 option \<times> u64 \<times> (u64 \<times> u64 \<times> u64) list"

definition span_step ::
  "UncoveredRange \<Rightarrow> span_state \<Rightarrow> CommittedExtent \<Rightarrow> span_state parity_result" where
  "span_step uncovered = (\<lambda>(previous_file, next, spans) extent.
     rbind (ok_or (Invariant ''committed extent overflows'')
       (checked_add (ce_first_ordinal extent) (ce_block_count extent))) (\<lambda>extent_end.
     let end_ordinal = min extent_end (ur_t uncovered);
         start = max (ce_first_ordinal extent) (ur_w uncovered)
     in if start \<ge> end_ordinal then Inr (previous_file, next, spans)
     else if (case previous_file of Some f \<Rightarrow> f \<ge> ce_tape_file_number extent | None \<Rightarrow> False)
     then Inl (Invariant ''committed files out of order'')
     else if start \<noteq> next then Inl (Invariant ''committed extent gap or overlap'')
     else
     rbind (ok_or (Invariant ''committed LBA overflows'')
       (checked_add (ce_physical_start_lba extent) (start - ce_first_ordinal extent))) (\<lambda>lba.
     rbind (ok_or (Invariant ''committed end LBA overflows'')
       (checked_add lba (end_ordinal - start))) (\<lambda>_.
     Inr (Some (ce_tape_file_number extent), end_ordinal, spans @ [(start, end_ordinal, lba)])))))"

definition committed_spans ::
  "ParityScheme \<Rightarrow> UncoveredRange \<Rightarrow> (u64 \<times> u64 \<times> u64) list parity_result" where
  "committed_spans scheme uncovered =
     rbind (ok_or (Invariant ''uncovered range reversed'') (checked_sub (ur_t uncovered) (ur_w uncovered)))
       (\<lambda>count.
     if count > ucast (stripes_per_neighborhood scheme) * ucast (data_blocks_per_stripe scheme)
     then Inl (Invariant ''uncovered range exceeds epoch'')
     else
     rbind (try_fold (span_step uncovered) (None, ur_w uncovered, []) (ur_extents uncovered))
       (\<lambda>(previous_file, next, spans).
     if next \<noteq> ur_t uncovered then Inl (Invariant ''committed extent gap'') else Inr spans))"

fun read_spans ::
  "mul_slice_xor \<Rightarrow> KernelKind \<Rightarrow> 'r CommittedReader \<Rightarrow> u32 \<Rightarrow> (u64 \<times> u64 \<times> u64) list \<Rightarrow>
     EpochAccumulator \<Rightarrow> 'r \<Rightarrow> (closeout_failure + EpochAccumulator) \<times> 'r" where
  "read_spans msx kern reader tape_partition [] acc = slift (Inr acc)"
| "read_spans msx kern reader tape_partition ((start, end_ordinal, lba) # spans) acc =
     sbind id (read_extent msx kern reader tape_partition lba start end_ordinal acc) (\<lambda>acc'.
       read_spans msx kern reader tape_partition spans acc')"

definition rebuild_uncovered_once ::
  "mul_slice_xor \<Rightarrow> KernelKind \<Rightarrow> bytes \<Rightarrow> 'r CommittedReader \<Rightarrow> ParityScheme \<Rightarrow> u32 \<Rightarrow> u32 \<Rightarrow>
     UncoveredRange \<Rightarrow> 'r \<Rightarrow> (closeout_failure + EpochAccumulator) \<times> 'r" where
  "rebuild_uncovered_once msx kern tape_uuid reader scheme block_size tape_partition uncovered =
     sbind (Closeout \<circ> ParityFailure) (slift (committed_spans scheme uncovered)) (\<lambda>spans.
     sbind (Closeout \<circ> ParityFailure)
       (slift (EpochAccumulator_new tape_uuid scheme block_size (ur_epoch_id uncovered) (ur_w uncovered)))
       (\<lambda>acc. read_spans msx kern reader tape_partition spans acc))"

definition rebuild_uncovered ::
  "mul_slice_xor \<Rightarrow> KernelKind \<Rightarrow> bytes \<Rightarrow> 'r CommittedReader \<Rightarrow> ParityScheme \<Rightarrow> u32 \<Rightarrow> u32 \<Rightarrow>
     UncoveredRange \<Rightarrow> 'r \<Rightarrow> (closeout_failure + EpochAccumulator) \<times> 'r" where
  "rebuild_uncovered msx kern tape_uuid reader scheme block_size tape_partition uncovered =
     (let attempt = rebuild_uncovered_once msx kern tape_uuid reader scheme block_size tape_partition uncovered
      in sbind id attempt (\<lambda>acc.
         if EpochAccumulator_check_value acc = ur_check uncovered then slift (Inr acc)
         else sbind Closeout (cr_reprove_identity reader) (\<lambda>_.
           sbind id attempt (\<lambda>acc.
             let found = EpochAccumulator_check_value acc
             in if found = ur_check uncovered then slift (Inr acc)
                else slift (Inl (Closeout (CheckMismatch (ur_check uncovered) found)))))))"

section \<open>What an accumulator holds\<close>

text \<open>The data shards of stripe \<open>s\<close> among the first blocks of an epoch, with their positions, and the
  whole data side of the stripe, in which the blocks not written count as zero.\<close>

definition stripe_shards :: "nat \<Rightarrow> bytes list \<Rightarrow> nat \<Rightarrow> (nat \<times> bytes) list" where
  "stripe_shards S blocks s =
     map (\<lambda>(i, b). (i div S, b)) (filter (\<lambda>(i, b). i mod S = s) (enumerate 0 blocks))"

definition stripe_data :: "ParityScheme \<Rightarrow> nat \<Rightarrow> bytes list \<Rightarrow> nat \<Rightarrow> bytes list" where
  "stripe_data scheme B blocks s =
     map (\<lambda>i. if i * nS scheme + s < length blocks then blocks ! (i * nS scheme + s) else replicate B 0)
       [0..<nK scheme]"

definition epoch_holds :: "mul_slice_xor \<Rightarrow> KernelKind \<Rightarrow> EpochAccumulator \<Rightarrow> bytes list \<Rightarrow> bool" where
  "epoch_holds msx kern acc blocks \<longleftrightarrow>
     ReedSolomonCodec_new (ea_scheme acc) = Inr (ea_codec acc) \<and>
     length blocks \<le> nS (ea_scheme acc) * nK (ea_scheme acc) \<and>
     (\<forall>b\<in>set blocks. length b = unat (ea_block_size acc)) \<and>
     unat (ea_next_ordinal acc) = unat (ea_epoch_start acc) + length blocks \<and>
     ea_current_epoch_data_crc64s acc = map data_shard_crc64 blocks \<and>
     ea_check acc = foldl CheckValueBuilder_push CheckValueBuilder_new (map data_shard_crc64 blocks) \<and>
     length (ea_parity_accumulators acc) = nS (ea_scheme acc) \<and>
     (\<forall>s < nS (ea_scheme acc).
        accumulate_all msx kern (ea_codec acc)
          (new_parity_accumulators (ea_codec acc) (unat (ea_block_size acc)))
          (stripe_shards (nS (ea_scheme acc)) blocks s) = Inr (ea_parity_accumulators acc ! s))"

text \<open>The part of an accumulator that pushing blocks leaves alone.\<close>

definition epoch_key :: "EpochAccumulator \<Rightarrow> bytes \<times> ParityScheme \<times> u32 \<times> u64 \<times> u64 \<times> ReedSolomonCodec" where
  "epoch_key acc = (ea_tape_uuid acc, ea_scheme acc, ea_block_size acc, ea_epoch_id acc,
     ea_epoch_start acc, ea_codec acc)"

lemma stripe_shards_snoc: "stripe_shards S (bs @ [b]) s =
    stripe_shards S bs s @ (if length bs mod S = s then [(length bs div S, b)] else [])"
  by (simp add: stripe_shards_def enumerate_append_eq)

lemma mem_stripe_shards: "(i, b) \<in> set (stripe_shards S bs s) \<longleftrightarrow>
    (\<exists>n < length bs. n mod S = s \<and> i = n div S \<and> b = bs ! n)"
  by (force simp: stripe_shards_def in_set_conv_nth nth_enumerate_eq image_iff)

lemma scheme_codec:
  assumes "ReedSolomonCodec_new scheme = Inr c"
  shows "codec_wf c" "codec_k c = nK scheme" "codec_m c = nM scheme" "0 < nS scheme" "0 < nK scheme" "0 < nM scheme"
proof -
  have v: "ParityScheme_validate scheme = Inr scheme"
    using assms validate_Inr [of scheme scheme] by (auto simp: ReedSolomonCodec_new_def validate_Inr)
  then show "codec_wf c" "codec_k c = nK scheme" "codec_m c = nM scheme"
    using ReedSolomonCodec_new_Inr [OF v] assms by auto
  show "0 < nS scheme" "0 < nK scheme" "0 < nM scheme" using v by (auto simp: validate_Inr)
qed

lemma stripe_shards_mset:
  assumes "0 < nS scheme" "s < nS scheme" "length blocks \<le> nS scheme * nK scheme"
  shows "mset (stripe_shards (nS scheme) blocks s) +
      mset (map (\<lambda>i. (i, replicate B 0)) (filter (\<lambda>i. length blocks \<le> i * nS scheme + s) [0..<nK scheme])) =
    mset (enumerate 0 (stripe_data scheme B blocks s))"
proof -
  let ?S = "nS scheme" and ?n = "length blocks"
  let ?xs = "stripe_shards ?S blocks s"
  let ?zs = "map (\<lambda>i. (i, replicate B 0 :: bytes)) (filter (\<lambda>i. ?n \<le> i * ?S + s) [0..<nK scheme])"
  have inj: "n = n'" if "n mod ?S = n' mod ?S" "n div ?S = n' div ?S" for n n'
    using that by (metis div_mult_mod_eq)
  have "map fst ?xs = map (\<lambda>i. i div ?S) (filter (\<lambda>i. i mod ?S = s) (map fst (enumerate 0 blocks)))"
    by (simp add: stripe_shards_def filter_map comp_def case_prod_unfold del: map_fst_enumerate)
  then have "distinct (map fst ?xs)"
    by (simp add: distinct_map inj_on_def) (blast intro: inj)
  moreover have ix: "(i, b) \<in> set ?xs \<longleftrightarrow> i * ?S + s < ?n \<and> b = blocks ! (i * ?S + s)" for i b
    using assms(2) by (auto simp: mem_stripe_shards intro!: exI [of _ "i * ?S + s"])
  then have "set (map fst ?xs) \<inter> set (map fst ?zs) = {}" by auto
  moreover have "distinct (map fst ?zs)" by (simp add: comp_def)
  ultimately have "distinct (map fst (?xs @ ?zs))" by (simp only: map_append distinct_append simp_thms)
  then have d: "distinct (?xs @ ?zs)" by (rule distinct_map [THEN iffD1, THEN conjunct1])
  have k: "i < nK scheme" if "i * ?S + s < ?n" for i
  proof -
    have "i * ?S < nK scheme * ?S" using that assms(3) mult.commute [of ?S "nK scheme"] by linarith
    then show ?thesis by simp
  qed
  have "x \<in> set (?xs @ ?zs) \<longleftrightarrow> x \<in> set (enumerate 0 (stripe_data scheme B blocks s))" for x
  proof (cases x)
    case (Pair i b)
    have "x \<in> set (enumerate 0 (stripe_data scheme B blocks s)) \<longleftrightarrow> i < nK scheme \<and> b =
        (if i * ?S + s < ?n then blocks ! (i * ?S + s) else replicate B 0)"
      by (auto simp: Pair in_set_conv_nth nth_enumerate_eq stripe_data_def)
    moreover have "x \<in> set ?zs \<longleftrightarrow> i < nK scheme \<and> ?n \<le> i * ?S + s \<and> b = replicate B 0"
      by (auto simp: Pair)
    ultimately show ?thesis using ix [of i b] k [of i] by (auto simp: Pair)
  qed
  then have "set (?xs @ ?zs) = set (enumerate 0 (stripe_data scheme B blocks s))" by blast
  then have "mset (?xs @ ?zs) = mset (enumerate 0 (stripe_data scheme B blocks s))"
    by (rule iffD1 [OF set_eq_iff_mset_eq_distinct [OF d distinct_enumerate]])
  then show ?thesis by simp
qed


lemma epoch_parity:
  assumes "mul_slice_xor_spec msx" "epoch_holds msx kern acc blocks" "s < nS (ea_scheme acc)"
  shows "encode msx kern (ea_codec acc) (stripe_data (ea_scheme acc) (unat (ea_block_size acc)) blocks s) =
    Inr (ea_parity_accumulators acc ! s)"
proof -
  let ?data = "stripe_data (ea_scheme acc) (unat (ea_block_size acc)) blocks s"
  have c: "ReedSolomonCodec_new (ea_scheme acc) = Inr (ea_codec acc)"
    and len: "length blocks \<le> nS (ea_scheme acc) * nK (ea_scheme acc)"
    and B: "\<forall>b\<in>set blocks. length b = unat (ea_block_size acc)"
    using assms(2) by (simp_all add: epoch_holds_def)
  have "accumulate_all msx kern (ea_codec acc)
        (new_parity_accumulators (ea_codec acc) (unat (ea_block_size acc)))
        (stripe_shards (nS (ea_scheme acc)) blocks s) = encode msx kern (ea_codec acc) ?data"
  proof (rule accumulate_permuted [OF assms(1) c _ _ stripe_shards_mset])
    show "length ?data = codec_k (ea_codec acc)" by (simp add: stripe_data_def scheme_codec(2) [OF c])
    show "\<forall>d\<in>set ?data. length d = unat (ea_block_size acc)" using B by (auto simp: stripe_data_def)
  qed (use scheme_codec [OF c] assms(3) len in auto)
  then show ?thesis using assms(2,3) by (simp add: epoch_holds_def)
qed

lemma new_holds:
  assumes "EpochAccumulator_new tape_uuid scheme block_size epoch start = Inr acc"
  shows "epoch_holds msx kern acc []"
    "epoch_key acc = (tape_uuid, scheme, block_size, epoch, start, ea_codec acc)"
    "ReedSolomonCodec_new scheme = Inr (ea_codec acc)"
  using assms by (auto simp: EpochAccumulator_new_def epoch_holds_def epoch_key_def stripe_shards_def
      accumulate_all_def)

lemma reservation_bytes_Inr: "reservation_bytes scheme B = Inr n \<longleftrightarrow>
    unat n = nS scheme * nM scheme * unat B + 8 * (nS scheme * nK scheme)"
proof -
  let ?S = "ucast (stripes_per_neighborhood scheme) :: u64"
  have b48: "nS scheme * nM scheme < 2 ^ 64" "nS scheme * nK scheme < 2 ^ 64" "nS scheme * nK scheme * 8 < 2 ^ 64"
    using mult_less_48 [of "stripes_per_neighborhood scheme" "parity_blocks_per_stripe scheme"]
      mult_less_48 [of "stripes_per_neighborhood scheme" "data_blocks_per_stripe scheme"] by simp_all
  obtain a :: u64 where a: "unat a = nS scheme * nM scheme" using unat_exists [OF b48(1)] by blast
  obtain b :: u64 where b: "unat b = nS scheme * nK scheme" using unat_exists [OF b48(2)] by blast
  obtain c :: u64 where c: "unat c = nS scheme * nK scheme * 8" using unat_exists [OF b48(3)] by blast
  have m: "checked_mul ?S (ucast (parity_blocks_per_stripe scheme)) = Some a"
    "checked_mul ?S (ucast (data_blocks_per_stripe scheme)) = Some b" "checked_mul b 8 = Some c"
    using a b c by (simp_all add: checked_simps)
  show ?thesis
  proof (cases "checked_mul a (ucast B :: u64)")
    case None
    then have "2 ^ 64 \<le> unat a * unat B" by (simp add: checked_simps)
    then show ?thesis using None m a unat_u64_less [of n] by (simp add: reservation_bytes_def Let_def)
  next
    case (Some v)
    then have "unat v = unat a * unat B" by (simp add: checked_simps)
    then show ?thesis using Some m a b c by (auto simp: reservation_bytes_def Let_def checked_add_Some)
  qed
qed

lemma new_Inr: "(\<exists>acc. EpochAccumulator_new tape_uuid scheme block_size epoch start = Inr acc) \<longleftrightarrow>
    ParityScheme_validate scheme = Inr scheme \<and> block_size \<noteq> 0 \<and>
    nS scheme * nM scheme * unat block_size + 8 * (nS scheme * nK scheme) < 2 ^ 64"
proof -
  have "(\<exists>n. reservation_bytes scheme block_size = Inr n) \<longleftrightarrow>
      nS scheme * nM scheme * unat block_size + 8 * (nS scheme * nK scheme) < 2 ^ 64"
    unfolding reservation_bytes_Inr
    using ex_u64 [of "nS scheme * nM scheme * unat block_size + 8 * (nS scheme * nK scheme)" "\<lambda>_. True"] by simp
  moreover have "(\<exists>c. ReedSolomonCodec_new scheme = Inr c) \<longleftrightarrow> ParityScheme_validate scheme = Inr scheme"
    using ReedSolomonCodec_new_Inr [of scheme] by (auto simp: ReedSolomonCodec_new_def validate_Inr)
  moreover have "(\<exists>t. ParityScheme_validate scheme = Inr t) \<longleftrightarrow> ParityScheme_validate scheme = Inr scheme"
    by (simp add: validate_Inr)
  ultimately show ?thesis by (auto simp: EpochAccumulator_new_def)
qed

lemma epoch_offset:
  assumes "epoch_holds msx kern acc blocks"
  shows "checked_sub (ea_next_ordinal acc) (ea_epoch_start acc) = Some (word_of_nat (length blocks))"
    "unat (word_of_nat (length blocks) :: u64) = length blocks"
proof -
  have "unat (ea_next_ordinal acc) = unat (ea_epoch_start acc) + length blocks"
    using assms by (simp add: epoch_holds_def)
  moreover from this show "unat (word_of_nat (length blocks) :: u64) = length blocks"
    using unat_u64_less [of "ea_next_ordinal acc"] by (intro unat_word_of_nat) simp
  ultimately show "checked_sub (ea_next_ordinal acc) (ea_epoch_start acc) = Some (word_of_nat (length blocks))"
    by (simp add: checked_simps)
qed

lemma push_block_eq:
  assumes "epoch_holds msx kern acc blocks"
  defines "S \<equiv> nS (ea_scheme acc)" and "n \<equiv> length blocks"
  shows "push_block msx kern acc ordinal block =
    (if ordinal \<noteq> ea_next_ordinal acc then Inl (Error (Invariant ''epoch ordinal is not consecutive''))
     else if 2 ^ 64 \<le> unat ordinal + 1 then Inl (Error (Invariant ''epoch ordinal overflows''))
     else if S * nK (ea_scheme acc) \<le> n \<or> length block \<noteq> unat (ea_block_size acc)
     then Inl (Error (Invariant ''epoch block exceeds geometry''))
     else rbind (accumulate msx kern (ea_codec acc) (n div S) block (ea_parity_accumulators acc ! (n mod S)))
       (\<lambda>accumulators. Inr (acc\<lparr>
          ea_parity_accumulators := (ea_parity_accumulators acc)[n mod S := accumulators],
          ea_current_epoch_data_crc64s := ea_current_epoch_data_crc64s acc @ [data_shard_crc64 block],
          ea_check := CheckValueBuilder_push (ea_check acc) (data_shard_crc64 block),
          ea_next_ordinal := ordinal + 1\<rparr>)))"
proof (cases "ordinal = ea_next_ordinal acc")
  case True
  let ?o = "word_of_nat n :: u64" and ?s = "ucast (stripes_per_neighborhood (ea_scheme acc)) :: u64"
  have o: "checked_sub ordinal (ea_epoch_start acc) = Some ?o" "unat ?o = n"
    using epoch_offset [OF assms(1)] by (simp_all add: True n_def)
  have S: "0 < S" "length (ea_parity_accumulators acc) = S"
    using assms(1) scheme_codec(4) by (auto simp: epoch_holds_def S_def)
  have u: "unat (?o mod ?s) = n mod S" "unat (?o div ?s) = n div S"
    using o(2) by (simp_all add: unat_mod unat_div S_def)
  have g: "ucast (stripes_per_neighborhood (ea_scheme acc)) * ucast (data_blocks_per_stripe (ea_scheme acc)) \<le> ?o
      \<longleftrightarrow> S * nK (ea_scheme acc) \<le> n"
    using o(2) by (simp add: word_le_nat_alt unat_mult_u32_u16 S_def)
  show ?thesis
  proof (cases "checked_add ordinal 1")
    case None
    moreover from this have "2 ^ 64 \<le> unat ordinal + 1" by (simp add: checked_simps)
    ultimately show ?thesis using True by (simp add: push_block_def)
  next
    case (Some nxt)
    moreover from this have "\<not> 2 ^ 64 \<le> unat ordinal + 1" "nxt = ordinal + 1"
      by (auto simp: checked_add_def split: if_splits)
    ultimately show ?thesis
      using True o(1) S mod_less_divisor [OF S(1), of n] by (simp add: push_block_def Let_def u g)
  qed
qed (simp add: push_block_def)

lemma push_block_Inr:
  assumes spec: "mul_slice_xor_spec msx" and h: "epoch_holds msx kern acc blocks"
  shows "(\<exists>acc'. push_block msx kern acc ordinal block = Inr acc') \<longleftrightarrow>
      ordinal = ea_next_ordinal acc \<and> unat ordinal + 1 < 2 ^ 64 \<and>
      length blocks < nS (ea_scheme acc) * nK (ea_scheme acc) \<and> length block = unat (ea_block_size acc)"
    (is "?ok \<longleftrightarrow> ?guard")
    and "push_block msx kern acc ordinal block = Inr acc' \<Longrightarrow>
      epoch_holds msx kern acc' (blocks @ [block]) \<and> epoch_key acc' = epoch_key acc"
proof -
  let ?S = "nS (ea_scheme acc)" and ?n = "length blocks" and ?B = "unat (ea_block_size acc)"
  let ?P = "ea_parity_accumulators acc ! (?n mod ?S)"
  have c: "ReedSolomonCodec_new (ea_scheme acc) = Inr (ea_codec acc)" using h by (simp add: epoch_holds_def)
  note sc = scheme_codec [OF c]
  have s: "?n mod ?S < ?S" using sc(4) by simp
  let ?data = "stripe_data (ea_scheme acc) ?B blocks (?n mod ?S)"
  have data: "is_mat (codec_k (ea_codec acc)) ?B ?data"
    using h by (auto simp: is_mat_def stripe_data_def sc(2) epoch_holds_def)
  have P: "is_mat (codec_m (ea_codec acc)) ?B ?P"
    using encode_value(1) [OF spec sc(1) data _ epoch_parity [OF spec h s]] sc(2,5) by simp
  have a: "\<exists>A. accumulate msx kern (ea_codec acc) (?n div ?S) block ?P = Inr A"
    if "?n < ?S * nK (ea_scheme acc)" "length block = ?B"
    using accumulate_Inr [OF spec sc(1) _ that(2) P, of "?n div ?S"] that(1) sc(2)
    by (simp add: less_mult_imp_div_less mult.commute)
  show "?ok \<longleftrightarrow> ?guard" using a by (auto simp: push_block_eq [OF h] not_le)
  assume p: "push_block msx kern acc ordinal block = Inr acc'"
  then have g: ?guard by (auto simp: push_block_eq [OF h] not_le)
  obtain A where A: "accumulate msx kern (ea_codec acc) (?n div ?S) block ?P = Inr A"
    using a g by blast
  have acc': "acc' = acc\<lparr>ea_parity_accumulators := (ea_parity_accumulators acc)[?n mod ?S := A],
      ea_current_epoch_data_crc64s := ea_current_epoch_data_crc64s acc @ [data_shard_crc64 block],
      ea_check := CheckValueBuilder_push (ea_check acc) (data_shard_crc64 block),
      ea_next_ordinal := ordinal + 1\<rparr>"
    using p g A by (simp add: push_block_eq [OF h])
  have "unat ordinal + unat (1 :: u64) < 2 ^ LENGTH(64)" using g by auto
  then have n: "unat (ordinal + 1) = unat ordinal + 1" by (simp only: unat_plus_exact unat_1)
  have acc: "accumulate_all msx kern (ea_codec acc) (new_parity_accumulators (ea_codec acc) ?B)
      (stripe_shards ?S (blocks @ [block]) t) =
    Inr ((ea_parity_accumulators acc)[?n mod ?S := A] ! t)" if "t < ?S" for t
    using h that A by (auto simp: epoch_holds_def stripe_shards_snoc accumulate_all_def try_fold_append
        nth_list_update)
  show "epoch_holds msx kern acc' (blocks @ [block]) \<and> epoch_key acc' = epoch_key acc"
    using h g n acc by (auto simp: epoch_holds_def acc' epoch_key_def)
qed

text \<open>Pushing a run of blocks at consecutive ordinals.\<close>

definition push_run ::
  "mul_slice_xor \<Rightarrow> KernelKind \<Rightarrow> EpochAccumulator \<Rightarrow> u64 list \<Rightarrow> bytes list \<Rightarrow> failure + EpochAccumulator" where
  "push_run msx kern acc ordinals blocks =
     try_fold (\<lambda>acc (ordinal, block). push_block msx kern acc ordinal block) acc (zip ordinals blocks)"

definition ordinals_from :: "nat \<Rightarrow> nat \<Rightarrow> u64 list" where
  "ordinals_from start n = map word_of_nat [start..<start + n]"

lemma ordinals_from_simps [simp]: "ordinals_from a 0 = []"
  "ordinals_from a (Suc n) = word_of_nat a # ordinals_from (Suc a) n" "length (ordinals_from a n) = n"
  by (simp_all add: ordinals_from_def upt_conv_Cons del: upt_Suc)

lemma push_run_holds:
  assumes "mul_slice_xor_spec msx" "epoch_holds msx kern acc blocks"
    and "push_run msx kern acc ordinals tail = Inr acc'" "length ordinals = length tail"
  shows "epoch_holds msx kern acc' (blocks @ tail) \<and> epoch_key acc' = epoch_key acc"
  using assms(2-4)
proof (induction tail arbitrary: acc blocks ordinals)
  case (Cons b tail)
  then obtain ordinal os where os: "ordinals = ordinal # os" "length os = length tail" by (cases ordinals) auto
  obtain acc1 where 1: "push_block msx kern acc ordinal b = Inr acc1" "push_run msx kern acc1 os tail = Inr acc'"
    using Cons.prems(2) by (auto simp: os push_run_def)
  note h = push_block_Inr(2) [OF assms(1) Cons.prems(1) 1(1)]
  show ?case using Cons.IH [of acc1 "blocks @ [b]" os] h 1(2) os(2) by simp
qed (simp add: push_run_def)

lemma push_run_Inr:
  assumes "mul_slice_xor_spec msx" "epoch_holds msx kern acc blocks"
    and "length (blocks @ tail) \<le> nS (ea_scheme acc) * nK (ea_scheme acc)"
    and "\<forall>b\<in>set tail. length b = unat (ea_block_size acc)"
    and "unat (ea_next_ordinal acc) = a" "a + length tail < 2 ^ 64"
  shows "\<exists>acc'. push_run msx kern acc (ordinals_from a (length tail)) tail = Inr acc'"
  using assms(2-6)
proof (induction tail arbitrary: acc blocks a)
  case Nil
  then show ?case by (simp add: push_run_def)
next
  case (Cons b tail)
  have o: "word_of_nat a = ea_next_ordinal acc"
    by (simp add: Cons.prems(4) [symmetric])
  obtain acc1 where 1: "push_block msx kern acc (word_of_nat a) b = Inr acc1"
    using push_block_Inr(1) [OF assms(1) Cons.prems(1), of "word_of_nat a" b] Cons.prems(2-5) o by auto
  note h = push_block_Inr(2) [OF assms(1) Cons.prems(1) 1]
  have k: "ea_scheme acc1 = ea_scheme acc" "ea_block_size acc1 = ea_block_size acc" "ea_epoch_start acc1 = ea_epoch_start acc"
    using h by (simp_all add: epoch_key_def)
  have "unat (ea_next_ordinal acc1) = Suc a"
    using h Cons.prems(1,4) by (simp add: epoch_holds_def k)
  then have "\<exists>acc'. push_run msx kern acc1 (ordinals_from (Suc a) (length tail)) tail = Inr acc'"
    using Cons.IH [of acc1 "blocks @ [b]" "Suc a"] h Cons.prems(2,3,5) by (simp add: k)
  then show ?case using 1 by (simp add: push_run_def)
qed

lemma epoch_unique:
  assumes "epoch_holds msx kern acc blocks" "epoch_holds msx kern acc' blocks" "epoch_key acc = epoch_key acc'"
  shows "acc = acc'"
proof -
  have k: "ea_scheme acc = ea_scheme acc'" "ea_codec acc = ea_codec acc'" "ea_block_size acc = ea_block_size acc'"
    "ea_tape_uuid acc = ea_tape_uuid acc'" "ea_epoch_id acc = ea_epoch_id acc'" "ea_epoch_start acc = ea_epoch_start acc'"
    using assms(3) by (simp_all add: epoch_key_def)
  have "ea_parity_accumulators acc ! s = ea_parity_accumulators acc' ! s" if "s < nS (ea_scheme acc')" for s
    using assms(1,2) that k by (auto simp: epoch_holds_def)
  then have "ea_parity_accumulators acc = ea_parity_accumulators acc'"
    using assms(1,2) k by (intro nth_equalityI) (simp_all add: epoch_holds_def)
  moreover have "ea_next_ordinal acc = ea_next_ordinal acc'"
    using assms(1,2) k by (intro word_eq_of_unat) (simp add: epoch_holds_def)
  ultimately show ?thesis
    using assms(1,2) k by (cases acc; cases acc') (simp add: epoch_holds_def)
qed

section \<open>Read-back\<close>

text \<open>Whatever the adapter does, a read pass that succeeds has pushed some blocks, one for each ordinal.\<close>

lemma read_blocks_sound:
  assumes "mul_slice_xor_spec msx" "epoch_holds msx kern acc blocks"
    and "read_blocks msx kern reader ordinals acc r = (Inr acc', r')"
  shows "\<exists>tail. length tail = length ordinals \<and> epoch_holds msx kern acc' (blocks @ tail) \<and>
    epoch_key acc' = epoch_key acc \<and> (ordinals \<noteq> [] \<longrightarrow> hd ordinals = ea_next_ordinal acc)"
  using assms(2,3)
proof (induction ordinals arbitrary: acc blocks r)
  case Nil
  then show ?case by (simp add: slift_Inr)
next
  case (Cons ordinal ordinals)
  obtain b r1 acc1 where 1: "push_block msx kern acc ordinal b = Inr acc1"
    "read_blocks msx kern reader ordinals acc1 r1 = (Inr acc', r')"
    using Cons.prems(2) by (auto simp: sbind_Inr slift_Inr)
  note h = push_block_Inr(2) [OF assms(1) Cons.prems(1) 1(1)]
  have "ordinal = ea_next_ordinal acc"
    using push_block_Inr(1) [OF assms(1) Cons.prems(1), of ordinal b] 1(1) by auto
  moreover obtain tail where "length tail = length ordinals" "epoch_holds msx kern acc' ((blocks @ [b]) @ tail)"
    "epoch_key acc' = epoch_key acc1"
    using Cons.IH [of acc1 "blocks @ [b]" r1] h 1(2) by blast
  ultimately show ?case using h by (intro exI [of _ "b # tail"]) simp
qed

text \<open>The spans to be read are non-empty and follow each other from \<open>w\<close> to \<open>t\<close>.\<close>

fun span_chain :: "u64 \<Rightarrow> (u64 \<times> u64 \<times> u64) list \<Rightarrow> u64 \<Rightarrow> bool" where
  "span_chain a [] b = (a = b)"
| "span_chain a ((s, e, l) # spans) b = (s = a \<and> s < e \<and> span_chain e spans b)"

lemma span_chain_snoc: "span_chain a (spans @ [(s, e, l)]) b \<longleftrightarrow> span_chain a spans s \<and> s < e \<and> e = b"
  by (induction a spans s rule: span_chain.induct) auto

lemma span_chain_le: "span_chain a spans b \<Longrightarrow> a \<le> b"
  by (induction a spans b rule: span_chain.induct) auto

lemma span_step_Inr:
  assumes "span_step unc (p0, n0, sp0) e = Inr (p1, n1, sp1)"
  shows "(n1 = n0 \<and> sp1 = sp0) \<or> (\<exists>l. n0 < n1 \<and> sp1 = sp0 @ [(n0, n1, l)] \<and>
    unat (ce_first_ordinal e) \<le> unat n0 \<and>
    unat n1 \<le> unat (ce_first_ordinal e) + unat (ce_block_count e) \<and>
    unat l = unat (ce_physical_start_lba e) + (unat n0 - unat (ce_first_ordinal e)))"
proof -
  obtain x where x: "checked_add (ce_first_ordinal e) (ce_block_count e) = Some x"
    using assms by (auto simp: span_step_def)
  let ?s = "max (ce_first_ordinal e) (ur_w unc)" and ?e = "min x (ur_t unc)"
  show ?thesis
  proof (cases "?e \<le> ?s")
    case True
    then show ?thesis using assms x by (simp add: span_step_def Let_def)
  next
    case False
    then obtain l m where l: "?s = n0" "n1 = ?e" "checked_add (ce_physical_start_lba e) (?s - ce_first_ordinal e) = Some l"
      "checked_add l (?e - ?s) = Some m" "sp1 = sp0 @ [(?s, ?e, l)]"
      using assms x by (simp add: span_step_def Let_def split: if_splits option.splits) blast+
    have le: "ce_first_ordinal e \<le> n0" "n1 \<le> x" unfolding l(1) [symmetric] l(2) by simp_all
    then have "unat (n0 - ce_first_ordinal e) = unat n0 - unat (ce_first_ordinal e)" by (rule_tac unat_sub)
    moreover have "n0 < n1" using False unfolding l(1) [symmetric] l(2) by (simp only: not_le)
    ultimately show ?thesis
      using l(3,5) [unfolded l(1), folded l(2)] le x by (auto simp: checked_simps word_le_nat_alt)
  qed
qed

text \<open>A property of the spans that every step keeps holds of all of them.\<close>

lemma committed_spans_induct:
  assumes "committed_spans scheme unc = Inr spans" "P (ur_w unc) []"
    and "\<And>n0 sp0 e p0 n1 p1 sp1. e \<in> set (ur_extents unc) \<Longrightarrow> P n0 sp0 \<Longrightarrow>
      span_step unc (p0, n0, sp0) e = Inr (p1, n1, sp1) \<Longrightarrow> P n1 sp1"
  shows "P (ur_t unc) spans"
proof -
  obtain prev nx where f: "try_fold (span_step unc) (None, ur_w unc, []) (ur_extents unc) = Inr (prev, nx, spans)"
    "nx = ur_t unc"
    using assms(1) by (auto simp: committed_spans_def split: prod.splits)
  have "P nx spans"
    if "P n0 sp0" "try_fold (span_step unc) (p0, n0, sp0) es = Inr (prev, nx, spans)" "set es \<subseteq> set (ur_extents unc)"
    for sp0 n0 p0 es
    using that
  proof (induction es arbitrary: p0 n0 sp0)
    case (Cons e es)
    obtain st where st: "span_step unc (p0, n0, sp0) e = Inr st"
      "try_fold (span_step unc) st es = Inr (prev, nx, spans)"
      using Cons.prems(2) by auto
    obtain p1 n1 sp1 where "st = (p1, n1, sp1)" by (cases st)
    with st show ?case using Cons.IH [of n1 sp1 p1] Cons.prems(1,3) assms(3) by auto
  qed simp
  then show ?thesis using f assms(2) by blast
qed

lemma committed_spans_chain:
  assumes "committed_spans scheme unc = Inr spans"
  shows "span_chain (ur_w unc) spans (ur_t unc)"
  using assms
proof (rule committed_spans_induct)
  fix n0 sp0 e p0 n1 p1 sp1
  assume "span_chain (ur_w unc) sp0 n0" "span_step unc (p0, n0, sp0) e = Inr (p1, n1, sp1)"
  then show "span_chain (ur_w unc) sp1 n1" using span_step_Inr by (fastforce simp: span_chain_snoc)
qed simp

lemma read_spans_sound:
  assumes "mul_slice_xor_spec msx" "epoch_holds msx kern acc blocks" "span_chain (ea_next_ordinal acc) spans b"
    and "read_spans msx kern reader p spans acc r = (Inr acc', r')"
  shows "\<exists>tail. epoch_holds msx kern acc' (blocks @ tail) \<and> epoch_key acc' = epoch_key acc \<and> ea_next_ordinal acc' = b"
  using assms(2-4)
proof (induction spans arbitrary: acc blocks r)
  case Nil
  then show ?case by (auto simp: slift_Inr intro: exI [of _ "[]"])
next
  case (Cons sp spans)
  obtain s e l where sp: "sp = (s, e, l)" by (cases sp)
  obtain acc1 r0 r1 where 1: "read_blocks msx kern reader (map word_of_nat [unat s..<unat e]) acc r0 = (Inr acc1, r1)"
    "read_spans msx kern reader p spans acc1 r1 = (Inr acc', r')"
    using Cons.prems(3) by (auto simp: sp sbind_Inr read_extent_def)
  obtain tail where m: "length tail = unat e - unat s" "epoch_holds msx kern acc1 (blocks @ tail)" "epoch_key acc1 = epoch_key acc"
    using read_blocks_sound [OF assms(1) Cons.prems(1) 1(1)] by auto
  have se: "s = ea_next_ordinal acc" "unat s < unat e" "span_chain e spans b"
    using Cons.prems(2) by (auto simp: sp word_less_nat_alt)
  have "ea_next_ordinal acc1 = e"
  proof (rule word_eq_of_unat)
    have "ea_epoch_start acc1 = ea_epoch_start acc" using m(3) by (simp add: epoch_key_def)
    then show "unat (ea_next_ordinal acc1) = unat e"
      using m(1,2) Cons.prems(1) se by (simp add: epoch_holds_def)
  qed
  then obtain tail' where "epoch_holds msx kern acc' ((blocks @ tail) @ tail')" "epoch_key acc' = epoch_key acc1" "ea_next_ordinal acc' = b"
    using Cons.IH [OF m(2) _ 1(2)] se(3) by blast
  then show ?case using m(3) by (intro exI [of _ "tail @ tail'"]) simp
qed

lemma rebuild_once_sound:
  assumes "mul_slice_xor_spec msx"
    and "rebuild_uncovered_once msx kern tape_uuid reader scheme B p unc r = (Inr acc, r')"
  obtains blocks acc0 where "EpochAccumulator_new tape_uuid scheme B (ur_epoch_id unc) (ur_w unc) = Inr acc0"
    "epoch_holds msx kern acc blocks" "epoch_key acc = epoch_key acc0" "ea_next_ordinal acc = ur_t unc"
proof -
  obtain spans acc0 where s: "committed_spans scheme unc = Inr spans"
    "EpochAccumulator_new tape_uuid scheme B (ur_epoch_id unc) (ur_w unc) = Inr acc0"
    "read_spans msx kern reader p spans acc0 r = (Inr acc, r')"
    using assms(2) by (auto simp: rebuild_uncovered_once_def sbind_Inr slift_Inr)
  have "ea_next_ordinal acc0 = ur_w unc" using s(2) by (auto simp: EpochAccumulator_new_def)
  then have "span_chain (ea_next_ordinal acc0) spans (ur_t unc)" using committed_spans_chain [OF s(1)] by simp
  then show ?thesis
    using read_spans_sound [OF assms(1) new_holds(1) [OF s(2)] _ s(3)] s(2) that by fastforce
qed

text \<open>An adapter that serves a tape: locating a block address succeeds and moves there, and reading a
  block of the recorded length returns it and moves to the next address.\<close>

definition reader_serves ::
  "'r CommittedReader \<Rightarrow> u32 \<Rightarrow> ('r \<Rightarrow> u64) \<Rightarrow> (u64 \<Rightarrow> bytes) \<Rightarrow> bool" where
  "reader_serves reader tape_partition pos medium \<longleftrightarrow>
     (\<forall>lba r. \<exists>r'. cr_locate reader tape_partition lba r = (Inr (), r') \<and> pos r' = lba) \<and>
     (\<forall>r. \<exists>r'. cr_read_block reader (length (medium (pos r))) r = (Inr (medium (pos r)), r') \<and>
        pos r' = pos r + 1)"

lemma push_block_size: "push_block msx kern acc ordinal b = Inr acc' \<Longrightarrow> ea_block_size acc' = ea_block_size acc"
  by (auto simp: push_block_def Let_def)

lemma push_run_size: "push_run msx kern acc ordinals bs = Inr acc' \<Longrightarrow> ea_block_size acc' = ea_block_size acc"
proof (induction bs arbitrary: ordinals acc)
  case (Cons b bs)
  then show ?case by (cases ordinals) (auto simp: push_run_def dest: push_block_size)
qed (simp add: push_run_def)

lemma ordinals_from_add: "ordinals_from a (n + m) = ordinals_from a n @ ordinals_from (a + n) m"
  using upt_add_eq_append [of a "a + n" m] by (simp add: ordinals_from_def add.assoc)

lemma push_run_append: "length os = length bs \<Longrightarrow> push_run msx kern acc (os @ os') (bs @ bs') =
    rbind (push_run msx kern acc os bs) (\<lambda>acc1. push_run msx kern acc1 os' bs')"
  by (simp add: push_run_def try_fold_append)

lemma read_blocks_complete:
  assumes "reader_serves reader p pos medium" "pos r = l"
    and "\<forall>i < length bs. medium (l + word_of_nat i) = bs ! i" "\<forall>b\<in>set bs. length b = unat (ea_block_size acc)"
    and "push_run msx kern acc os bs = Inr acc'" "length os = length bs"
  shows "\<exists>r'. read_blocks msx kern reader os acc r = (Inr acc', r')"
  using assms(2-6)
proof (induction bs arbitrary: r l os acc)
  case Nil
  then show ?case by (simp add: slift_Inr push_run_def)
next
  case (Cons b bs)
  then obtain ordinal os' where os: "os = ordinal # os'" "length os' = length bs" by (cases os) auto
  obtain acc1 where 1: "push_block msx kern acc ordinal b = Inr acc1" "push_run msx kern acc1 os' bs = Inr acc'"
    using Cons.prems(4) by (auto simp: os push_run_def)
  have m: "medium (pos r) = b" "length b = unat (ea_block_size acc)" using Cons.prems(1-3) by auto
  then obtain r1 where r1: "cr_read_block reader (unat (ea_block_size acc)) r = (Inr b, r1)" "pos r1 = l + 1"
    using assms(1) Cons.prems(1) by (metis reader_serves_def)
  have "\<forall>i < length bs. medium (l + 1 + word_of_nat i) = bs ! i"
  proof (intro allI impI)
    fix i assume "i < length bs"
    then show "medium (l + 1 + word_of_nat i) = bs ! i"
      using Cons.prems(2) [rule_format, of "Suc i"] by (simp add: add.assoc)
  qed
  then obtain r' where "read_blocks msx kern reader os' acc1 r1 = (Inr acc', r')"
    using Cons.IH [of r1 "l + 1" acc1 os'] r1(2) Cons.prems(3) 1(2) os(2) push_block_size [OF 1(1)] by auto
  then have "read_blocks msx kern reader os acc r = (Inr acc', r')"
    using r1(1) 1(1) by (simp add: os sbind_Inr slift_Inr)
  then show ?case ..
qed

lemma read_spans_complete:
  assumes serves: "reader_serves reader p pos medium" and "span_chain a spans b"
    and "\<forall>(s, e, l) \<in> set spans. \<forall>i < unat e - unat s. medium (l + word_of_nat i) = written (unat s + i)"
    and "\<forall>i. unat a \<le> i \<and> i < unat b \<longrightarrow> length (written i) = unat (ea_block_size acc)"
    and "push_run msx kern acc (ordinals_from (unat a) (unat b - unat a)) (map written [unat a..<unat b]) = Inr acc'"
  shows "\<exists>r'. read_spans msx kern reader p spans acc r = (Inr acc', r')"
  using assms(2-5)
proof (induction spans arbitrary: a acc r)
  case Nil
  then show ?case by (simp add: slift_Inr push_run_def)
next
  case (Cons sp spans)
  obtain s e l where sp: "sp = (s, e, l)" by (cases sp)
  have c: "s = a" "unat a < unat e" "span_chain e spans b"
    using Cons.prems(1) by (auto simp: sp word_less_nat_alt)
  have eb: "unat e \<le> unat b" using span_chain_le [OF c(3)] by (simp add: word_le_nat_alt)
  have split: "ordinals_from (unat a) (unat b - unat a) =
      ordinals_from (unat a) (unat e - unat a) @ ordinals_from (unat e) (unat b - unat e)"
    "map written [unat a..<unat b] = map written [unat a..<unat e] @ map written [unat e..<unat b]"
    using ordinals_from_add [of "unat a" "unat e - unat a" "unat b - unat e"] c(2) eb
      upt_add_eq_append [of "unat a" "unat e" "unat b - unat e"] by simp_all
  obtain acc1 where 1: "push_run msx kern acc (ordinals_from (unat a) (unat e - unat a)) (map written [unat a..<unat e]) = Inr acc1"
    "push_run msx kern acc1 (ordinals_from (unat e) (unat b - unat e)) (map written [unat e..<unat b]) = Inr acc'"
    using Cons.prems(4) unfolding split by (subst (asm) push_run_append) auto
  obtain r0 where r0: "cr_locate reader p l r = (Inr (), r0)" "pos r0 = l"
    using serves by (metis reader_serves_def)
  obtain r1 where r1: "read_blocks msx kern reader (ordinals_from (unat a) (unat e - unat a)) acc r0 = (Inr acc1, r1)"
    using read_blocks_complete [OF serves r0(2) _ _ 1(1)] Cons.prems(2,3) c(1) eb by (auto simp: sp)
  obtain r' where r': "read_spans msx kern reader p spans acc1 r1 = (Inr acc', r')"
    using Cons.IH [OF c(3) _ _ 1(2), of r1] Cons.prems(2,3) c(2) push_run_size [OF 1(1)] by (auto simp: sp)
  have "ordinals_from (unat a) (unat e - unat a) = map word_of_nat [unat s..<unat e]"
    using c by (simp add: ordinals_from_def)
  then have "read_spans msx kern reader p (sp # spans) acc r = (Inr acc', r')"
    using r0(1) r1 r' by (simp add: sp sbind_Inr read_extent_def)
  then show ?case ..
qed

lemma committed_spans_carry:
  assumes "committed_spans scheme unc = Inr spans"
    and "\<forall>e \<in> set (ur_extents unc). \<forall>i < unat (ce_block_count e).
      medium (ce_physical_start_lba e + word_of_nat i) = written (unat (ce_first_ordinal e) + i)"
  shows "\<forall>(s, e, l) \<in> set spans. \<forall>i < unat e - unat s. medium (l + word_of_nat i) = written (unat s + i)"
  using assms(1)
proof (rule committed_spans_induct)
  fix n0 sp0 e p0 n1 p1 sp1
  assume e: "e \<in> set (ur_extents unc)"
    and sp0: "\<forall>(s, e, l) \<in> set sp0. \<forall>i < unat e - unat s. medium (l + word_of_nat i) = written (unat s + i)"
    and "span_step unc (p0, n0, sp0) e = Inr (p1, n1, sp1)"
  from span_step_Inr [OF this(3)]
  show "\<forall>(s, e, l) \<in> set sp1. \<forall>i < unat e - unat s. medium (l + word_of_nat i) = written (unat s + i)"
  proof (elim disjE exE conjE)
    fix l assume l: "sp1 = sp0 @ [(n0, n1, l)]" "unat (ce_first_ordinal e) \<le> unat n0"
      "unat n1 \<le> unat (ce_first_ordinal e) + unat (ce_block_count e)"
      "unat l = unat (ce_physical_start_lba e) + (unat n0 - unat (ce_first_ordinal e))"
    have "medium (l + word_of_nat i) = written (unat n0 + i)" if i: "i < unat n1 - unat n0" for i
    proof -
      let ?j = "unat n0 - unat (ce_first_ordinal e) + i"
      have "l = word_of_nat (unat l)" by simp
      also have "\<dots> = ce_physical_start_lba e + word_of_nat (unat n0 - unat (ce_first_ordinal e))"
        unfolding l(4) by (simp only: of_nat_add) simp
      finally have "l + word_of_nat i = ce_physical_start_lba e + word_of_nat ?j" by (simp add: add.assoc)
      moreover have "?j < unat (ce_block_count e)" using i l(2,3) by linarith
      moreover have "unat (ce_first_ordinal e) + ?j = unat n0 + i" using l(2) by simp
      ultimately show ?thesis using assms(2) e by metis
    qed
    then show ?thesis using sp0 l(1) by auto
  qed (use sp0 in simp)
qed simp

lemma committed_spans_bound:
  assumes "committed_spans scheme unc = Inr spans"
  shows "unat (ur_w unc) \<le> unat (ur_t unc)" "unat (ur_t unc) - unat (ur_w unc) \<le> nS scheme * nK scheme"
proof -
  obtain c where c: "checked_sub (ur_t unc) (ur_w unc) = Some c"
    "c \<le> ucast (stripes_per_neighborhood scheme) * ucast (data_blocks_per_stripe scheme)"
    using assms by (auto simp: committed_spans_def not_less)
  then show "unat (ur_w unc) \<le> unat (ur_t unc)" "unat (ur_t unc) - unat (ur_w unc) \<le> nS scheme * nK scheme"
    by (auto simp: checked_simps word_le_nat_alt unat_mult_u32_u16)
qed

lemma rebuild_complete:
  assumes "mul_slice_xor_spec msx" "reader_serves reader tape_partition pos medium"
    and "EpochAccumulator_new tape_uuid scheme B (ur_epoch_id unc) (ur_w unc) = Inr acc0"
    and "committed_spans scheme unc = Inr spans"
    and "\<forall>e \<in> set (ur_extents unc). \<forall>i < unat (ce_block_count e).
      medium (ce_physical_start_lba e + word_of_nat i) = written (unat (ce_first_ordinal e) + i)"
    and "\<forall>i. length (written i) = unat B"
    and "ur_check unc = check_value (map (data_shard_crc64 \<circ> written) [unat (ur_w unc)..<unat (ur_t unc)])"
  shows "\<exists>acc r'. push_run msx kern acc0
      (ordinals_from (unat (ur_w unc)) (unat (ur_t unc) - unat (ur_w unc)))
      (map written [unat (ur_w unc)..<unat (ur_t unc)]) = Inr acc \<and>
    rebuild_uncovered msx kern tape_uuid reader scheme B tape_partition unc r = (Inr acc, r')"
proof -
  let ?w = "unat (ur_w unc)" and ?t = "unat (ur_t unc)"
  let ?bs = "map written [?w..<?t]"
  have h0: "epoch_holds msx kern acc0 []" by (rule new_holds(1) [OF assms(3)])
  have k0: "ea_scheme acc0 = scheme" "ea_block_size acc0 = B" "ea_next_ordinal acc0 = ur_w unc"
    using assms(3) by (auto simp: EpochAccumulator_new_def)
  note bound = committed_spans_bound [OF assms(4)]
  obtain acc where acc: "push_run msx kern acc0 (ordinals_from ?w (?t - ?w)) ?bs = Inr acc"
    using push_run_Inr [OF assms(1) h0, of ?bs ?w] bound assms(6) k0 unat_u64_less [of "ur_t unc"] by auto
  have "epoch_holds msx kern acc ?bs" using push_run_holds [OF assms(1) h0 acc] by simp
  then have check: "EpochAccumulator_check_value acc = ur_check unc"
    by (simp add: epoch_holds_def EpochAccumulator_check_value_def check_value_def assms(7))
  obtain r' where "read_spans msx kern reader tape_partition spans acc0 r = (Inr acc, r')"
    using read_spans_complete [OF assms(2) committed_spans_chain [OF assms(4)]
      committed_spans_carry [OF assms(4,5)] _ acc, of r] assms(6) k0 by auto
  then have "rebuild_uncovered_once msx kern tape_uuid reader scheme B tape_partition unc r = (Inr acc, r')"
    using assms(3,4) by (simp add: rebuild_uncovered_once_def sbind_Inr slift_Inr)
  then have "rebuild_uncovered msx kern tape_uuid reader scheme B tape_partition unc r = (Inr acc, r')"
    using check by (simp add: rebuild_uncovered_def Let_def sbind_Inr slift_Inr)
  with acc show ?thesis by blast
qed

text \<open>A concrete adapter, whose tape holds at every address the low byte of the address, and a range of
  two extents.\<close>

definition sample_reader :: "u64 CommittedReader" where
  "sample_reader =
     \<lparr>cr_reprove_identity = (\<lambda>r. (Inr (), r)), cr_locate = (\<lambda>_ lba r. (Inr (), lba)),
      cr_read_block = (\<lambda>n r. (Inr [ucast r], r + 1))\<rparr>"

definition sample_range :: UncoveredRange where
  "sample_range =
     \<lparr>ur_epoch_id = 3, ur_w = 11, ur_t = 14,
      ur_extents = [\<lparr>ce_tape_file_number = 4, ce_first_ordinal = 10, ce_block_count = 2, ce_physical_start_lba = 100\<rparr>,
        \<lparr>ce_tape_file_number = 5, ce_first_ordinal = 12, ce_block_count = 2, ce_physical_start_lba = 103\<rparr>],
      ur_check = check_value (map (\<lambda>b. data_shard_crc64 [b]) [101, 103, 104])\<rparr>"

definition sample_written :: "nat \<Rightarrow> bytes" where
  "sample_written i = [if i < 12 then word_of_nat (i + 90) else word_of_nat (i + 91)]"

lemma sample_serves: "reader_serves sample_reader 0 id (\<lambda>lba. [ucast lba])"
  by (simp add: reader_serves_def sample_reader_def)

lemma sample_spans: "committed_spans small_scheme sample_range = Inr [(11, 12, 101), (12, 14, 103)]"
  by (simp add: committed_spans_def span_step_def sample_range_def small_scheme_def checked_add_def
      checked_sub_def Let_def)

lemma sample_carries: "\<forall>e \<in> set (ur_extents sample_range). \<forall>i < unat (ce_block_count e).
    [ucast (ce_physical_start_lba e + word_of_nat i)] = sample_written (unat (ce_first_ordinal e) + i)"
  by (auto simp: sample_range_def sample_written_def dest!: less_2_cases)

lemma sample_check: "ur_check sample_range =
    check_value (map (data_shard_crc64 \<circ> sample_written) [unat (ur_w sample_range)..<unat (ur_t sample_range)])"
proof -
  have "[unat (ur_w sample_range)..<unat (ur_t sample_range)] = [11, 12, 13]"
    by (simp add: sample_range_def upt_rec)
  then show ?thesis by (simp add: sample_range_def sample_written_def)
qed

lemma sample_new: "\<exists>acc. EpochAccumulator_new tape_uuid small_scheme 1 epoch start = Inr acc"
  unfolding new_Inr by (simp add: validate_Inr small_scheme_def)

section \<open>Claims\<close>

text \<open>C33: An epoch accumulator holds exactly the parity of the blocks pushed into it. A run of blocks at
  consecutive ordinals is accepted if and only if it fits the epoch, every block has the epoch's block
  size and no ordinal overflows; afterwards every stripe's accumulators equal the batch encoding of the
  stripe's data shards with the blocks not yet written taken as zero, the check value is the check of
  the block CRCs in order, and the covered range ends after the run.\<close>

theorem epoch_parity_exact:
  assumes "mul_slice_xor_spec msx" "EpochAccumulator_new tape_uuid scheme B epoch start = Inr acc0"
  shows "((\<exists>acc. push_run msx kern acc0 (ordinals_from (unat start) (length blocks)) blocks = Inr acc) \<longleftrightarrow>
      length blocks \<le> nS scheme * nK scheme \<and> (\<forall>b\<in>set blocks. length b = unat B) \<and>
      unat start + length blocks < 2 ^ 64) \<and>
    (push_run msx kern acc0 (ordinals_from (unat start) (length blocks)) blocks = Inr acc \<longrightarrow>
      (\<forall>s < nS scheme. encode msx kern (ea_codec acc) (stripe_data scheme (unat B) blocks s) =
         Inr (ea_parity_accumulators acc ! s)) \<and>
      ea_current_epoch_data_crc64s acc = map data_shard_crc64 blocks \<and>
      EpochAccumulator_check_value acc = check_value (map data_shard_crc64 blocks) \<and>
      unat (covered_end acc) = unat start + length blocks)"
proof -
  let ?run = "push_run msx kern acc0 (ordinals_from (unat start) (length blocks)) blocks"
  have h0: "epoch_holds msx kern acc0 []" by (rule new_holds(1) [OF assms(2)])
  have k0: "ea_scheme acc0 = scheme" "ea_block_size acc0 = B" "ea_epoch_start acc0 = start" "ea_next_ordinal acc0 = start"
    using assms(2) by (auto simp: EpochAccumulator_new_def)
  have h: "epoch_holds msx kern acc blocks" "ea_scheme acc = scheme" "ea_block_size acc = B" "ea_epoch_start acc = start"
    if "?run = Inr acc" for acc
    using push_run_holds [OF assms(1) h0 that] k0 by (simp_all add: epoch_key_def)
  have "length blocks \<le> nS scheme * nK scheme \<and> (\<forall>b\<in>set blocks. length b = unat B) \<and>
      unat start + length blocks < 2 ^ 64" if "?run = Inr acc" for acc
    using h [OF that] unat_u64_less [of "ea_next_ordinal acc"] by (simp add: epoch_holds_def)
  moreover have "\<exists>acc. ?run = Inr acc" if "length blocks \<le> nS scheme * nK scheme" "\<forall>b\<in>set blocks. length b = unat B"
    "unat start + length blocks < 2 ^ 64"
    using push_run_Inr [OF assms(1) h0, of blocks "unat start"] that k0 by simp
  moreover have "(\<forall>s < nS scheme. encode msx kern (ea_codec acc) (stripe_data scheme (unat B) blocks s) =
        Inr (ea_parity_accumulators acc ! s)) \<and>
      ea_current_epoch_data_crc64s acc = map data_shard_crc64 blocks \<and>
      EpochAccumulator_check_value acc = check_value (map data_shard_crc64 blocks) \<and>
      unat (covered_end acc) = unat start + length blocks" if "?run = Inr acc"
    using h [OF that] epoch_parity [OF assms(1) h(1) [OF that]]
    by (simp add: epoch_holds_def EpochAccumulator_check_value_def check_value_def covered_end_def)
  ultimately show ?thesis by blast
qed

theorem epoch_parity_exact_witness:
  "\<exists>acc0 acc. EpochAccumulator_new [] small_scheme 1 0 5 = Inr acc0 \<and>
     push_run mul_add Portable acc0 (ordinals_from 5 3) [[1], [2], [3]] = Inr acc \<and>
     (\<forall>s < nS small_scheme. encode mul_add Portable (ea_codec acc) (stripe_data small_scheme 1 [[1], [2], [3]] s) =
       Inr (ea_parity_accumulators acc ! s)) \<and> unat (covered_end acc) = 8"
proof -
  obtain acc0 where n: "EpochAccumulator_new [] small_scheme 1 0 5 = Inr acc0" using sample_new by blast
  note p = epoch_parity_exact [OF mul_add_spec n, of Portable "[[1], [2], [3]]"]
  have len: "length [[1 :: u8], [2], [3]] = 3" "unat (5 :: u64) = 5" "unat (1 :: u32) = 1" by simp_all
  obtain acc where acc: "push_run mul_add Portable acc0 (ordinals_from 5 3) [[1], [2], [3]] = Inr acc"
    using p unfolding len by (auto simp: small_scheme_def)
  then show ?thesis using p [of acc] n unfolding len by auto
qed





end
