(* ===== verification/DurableBoundary.thy ===== *)
theory DurableBoundary
  imports FilemarkMap
begin

text \<open>
  The durable tape-file boundary of \<open>crates/remanence-parity/src/durable.rs\<close>: at most one tape file is
  in flight, and only a commit moves the boundary. An operation that fails returns the error and leaves
  the state as it was. The lemmas describe every sequence of operations from the start of a tape and
  relate the read-side boundary of a scoped map to the validated prefix.
\<close>

section \<open>The code\<close>

record OutstandingTapeFileCommit =
  otc_kind :: TapeFileKind
  otc_tape_file_number :: u64
  otc_started_after_tape_file_number :: "u64 option"

record DurableBoundaryState =
  dbs_last_committed_tape_file_number :: "u64 option"
  dbs_outstanding :: "OutstandingTapeFileCommit option"

definition DurableBoundaryState_new :: DurableBoundaryState where
  "DurableBoundaryState_new =
     \<lparr>dbs_last_committed_tape_file_number = None, dbs_outstanding = None\<rparr>"

definition from_last_committed_tape_file_number :: "u64 option \<Rightarrow> DurableBoundaryState" where
  "from_last_committed_tape_file_number last_committed =
     \<lparr>dbs_last_committed_tape_file_number = last_committed, dbs_outstanding = None\<rparr>"

definition from_scoped_map :: "ScopedFilemarkMap \<Rightarrow> DurableBoundaryState parity_result" where
  "from_scoped_map s =
     (let entries = map_entries (scoped_map s)
      in rbind
        (case validated_prefix_tape_files s of
           None \<Rightarrow> Inr (if entries = [] then None else Some (tape_file_number (last entries)))
         | Some prefix_tape_files \<Rightarrow>
             if prefix_tape_files = 0 then Inr None
             else
               let expected = prefix_tape_files - 1
               in if unat expected \<ge> length entries
                  then Inl (filemark_map_error
                    ''validated prefix tape_file_count {prefix_tape_files} exceeds map length {}'')
                  else if tape_file_number (entries ! unat expected) \<noteq> expected
                  then Inl (filemark_map_error ''validated prefix expected tape file {expected}, got {}'')
                  else Inr (Some (tape_file_number (entries ! unat expected))))
        (\<lambda>last_committed. Inr (from_last_committed_tape_file_number last_committed)))"

definition begin_tape_file ::
  "DurableBoundaryState \<Rightarrow> TapeFileKind \<Rightarrow> u64 \<Rightarrow> DurableBoundaryState parity_result" where
  "begin_tape_file b k number =
     (if dbs_outstanding b \<noteq> None
      then Inl (Invariant ''cannot start a tape file while another tape file is not durable'')
      else rbind
        (case dbs_last_committed_tape_file_number b of
           Some last_committed \<Rightarrow>
             rbind (ok_or (Invariant ''durable boundary tape-file number overflow'')
               (checked_add last_committed 1)) (\<lambda>expected.
             if number \<noteq> expected
             then Inl (Invariant ''next tape file must follow the last durable boundary'')
             else Inr ())
         | None \<Rightarrow>
             if number \<noteq> 0 then Inl (Invariant ''first tape file must start at durable boundary zero'')
             else Inr ())
        (\<lambda>_. Inr (b\<lparr>dbs_outstanding := Some
          \<lparr>otc_kind = k, otc_tape_file_number = number,
           otc_started_after_tape_file_number = dbs_last_committed_tape_file_number b\<rparr>\<rparr>)))"

definition expect_outstanding ::
  "DurableBoundaryState \<Rightarrow> TapeFileKind \<Rightarrow> u64 \<Rightarrow> OutstandingTapeFileCommit parity_result" where
  "expect_outstanding b k number =
     (case dbs_outstanding b of
        None \<Rightarrow> Inl (Invariant ''no outstanding tape file at the durable boundary'')
      | Some outstanding \<Rightarrow>
          if otc_kind outstanding \<noteq> k \<or> otc_tape_file_number outstanding \<noteq> number
          then Inl (Invariant ''outstanding tape file does not match the durable-boundary transition'')
          else Inr outstanding)"

definition commit_tape_file ::
  "DurableBoundaryState \<Rightarrow> TapeFileKind \<Rightarrow> u64 \<Rightarrow> DurableBoundaryState parity_result" where
  "commit_tape_file b k number =
     rbind (expect_outstanding b k number) (\<lambda>_.
       Inr (b\<lparr>dbs_last_committed_tape_file_number := Some number, dbs_outstanding := None\<rparr>))"

definition abandon_tape_file ::
  "DurableBoundaryState \<Rightarrow> TapeFileKind \<Rightarrow> u64 \<Rightarrow> (u64 option \<times> DurableBoundaryState) parity_result" where
  "abandon_tape_file b k number =
     rbind (expect_outstanding b k number) (\<lambda>outstanding.
       let last_committed = otc_started_after_tape_file_number outstanding
       in Inr (last_committed,
         b\<lparr>dbs_last_committed_tape_file_number := last_committed, dbs_outstanding := None\<rparr>))"

definition contains_committed_tape_file :: "DurableBoundaryState \<Rightarrow> u64 \<Rightarrow> bool" where
  "contains_committed_tape_file b number =
     (case dbs_last_committed_tape_file_number b of
        None \<Rightarrow> False | Some last_committed \<Rightarrow> number \<le> last_committed)"

section \<open>Sequences of operations\<close>

text \<open>One call of the writer, and the effect of a call on the state and on the list of the tape files
  whose commit has succeeded.\<close>

datatype boundary_call =
  CallBegin TapeFileKind u64 | CallCommit TapeFileKind u64 | CallAbandon TapeFileKind u64

fun apply_call :: "DurableBoundaryState \<times> u64 list \<Rightarrow> boundary_call \<Rightarrow> DurableBoundaryState \<times> u64 list" where
  "apply_call (b, commits) (CallBegin k n) =
     (case begin_tape_file b k n of Inl _ \<Rightarrow> (b, commits) | Inr b' \<Rightarrow> (b', commits))"
| "apply_call (b, commits) (CallCommit k n) =
     (case commit_tape_file b k n of Inl _ \<Rightarrow> (b, commits) | Inr b' \<Rightarrow> (b', commits @ [n]))"
| "apply_call (b, commits) (CallAbandon k n) =
     (case abandon_tape_file b k n of Inl _ \<Rightarrow> (b, commits) | Inr (_, b') \<Rightarrow> (b', commits))"

definition boundary_calls :: "boundary_call list \<Rightarrow> DurableBoundaryState \<times> u64 list" where
  "boundary_calls calls = foldl apply_call (DurableBoundaryState_new, []) calls"

definition boundary_inv :: "DurableBoundaryState \<times> u64 list \<Rightarrow> bool" where
  "boundary_inv = (\<lambda>(b, commits).
     length commits \<le> 2 ^ 64 \<and> commits = map word_of_nat [0..<length commits] \<and>
     dbs_last_committed_tape_file_number b = (if commits = [] then None else Some (last commits)) \<and>
     (case dbs_outstanding b of None \<Rightarrow> True
      | Some out \<Rightarrow> otc_started_after_tape_file_number out = dbs_last_committed_tape_file_number b \<and>
          unat (otc_tape_file_number out) = length commits))"

lemma last_committed_dense:
  assumes "n < 2 ^ 64" "commits = map word_of_nat [0..<Suc n]"
  shows "unat (last commits :: u64) = n"
  using assms by (simp add: unat_word_of_nat)

lemma boundary_inv_call:
  assumes "boundary_inv st"
  shows "boundary_inv (apply_call st call)"
proof -
  obtain b commits where st: "st = (b, commits)" by (cases st)
  have len: "length commits \<le> 2 ^ 64" and dense: "commits = map word_of_nat [0..<length commits]"
    and lc: "dbs_last_committed_tape_file_number b = (if commits = [] then None else Some (last commits))"
    and out: "\<And>out. dbs_outstanding b = Some out \<Longrightarrow>
      otc_started_after_tape_file_number out = dbs_last_committed_tape_file_number b \<and>
      unat (otc_tape_file_number out) = length commits"
    using assms by (auto simp: boundary_inv_def st split: option.splits)
  show ?thesis
  proof (cases call)
    case (CallBegin k n)
    show ?thesis
    proof (cases "begin_tape_file b k n")
      case (Inr b')
      have "unat n = length commits"
      proof (cases commits rule: rev_cases)
        case Nil
        then show ?thesis using Inr lc by (auto simp: begin_tape_file_def)
      next
        case (snoc ys y)
        have "unat (last commits) = length ys"
          using last_committed_dense [of "length ys" commits] len dense snoc by simp
        then show ?thesis using Inr lc snoc by (auto simp: begin_tape_file_def checked_simps)
      qed
      then show ?thesis
        using Inr len dense lc by (auto simp: st CallBegin boundary_inv_def begin_tape_file_def)
    qed (use assms in \<open>simp add: st CallBegin\<close>)
  next
    case (CallCommit k n)
    show ?thesis
    proof (cases "commit_tape_file b k n")
      case (Inr b')
      then obtain o' where o': "dbs_outstanding b = Some o'" "otc_tape_file_number o' = n"
        "b' = b\<lparr>dbs_last_committed_tape_file_number := Some n, dbs_outstanding := None\<rparr>"
        by (auto simp: commit_tape_file_def expect_outstanding_def split: option.splits)
      then have n: "unat n = length commits" using out by blast
      then have "n = word_of_nat (length commits)" by (simp add: n [symmetric])
      moreover have "length commits < 2 ^ 64" using n unat_u64_less [of n] by simp
      ultimately show ?thesis
        using Inr o' dense by (simp add: st CallCommit boundary_inv_def)
    qed (use assms in \<open>simp add: st CallCommit\<close>)
  next
    case (CallAbandon k n)
    show ?thesis
    proof (cases "abandon_tape_file b k n")
      case (Inr r)
      then obtain o' where "dbs_outstanding b = Some o'"
        "r = (otc_started_after_tape_file_number o',
          b\<lparr>dbs_last_committed_tape_file_number := otc_started_after_tape_file_number o', dbs_outstanding := None\<rparr>)"
        by (auto simp: abandon_tape_file_def expect_outstanding_def Let_def split: option.splits)
      then show ?thesis
        using Inr len dense lc out by (simp add: st CallAbandon boundary_inv_def)
    qed (use assms in \<open>simp add: st CallAbandon\<close>)
  qed
qed

lemma boundary_inv_calls: "boundary_inv (boundary_calls calls)"
proof -
  have "boundary_inv (foldl apply_call st calls)" if "boundary_inv st" for st
    using that
  proof (induction calls arbitrary: st)
    case (Cons call calls)
    then show ?case using boundary_inv_call [of st call] by simp
  qed simp
  then show ?thesis by (simp add: boundary_calls_def boundary_inv_def DurableBoundaryState_new_def)
qed

lemma boundary_inv_contains:
  assumes "boundary_inv (b, commits)"
  shows "contains_committed_tape_file b n \<longleftrightarrow> n \<in> set commits"
proof (cases commits rule: rev_cases)
  case Nil
  then show ?thesis using assms by (simp add: boundary_inv_def contains_committed_tape_file_def)
next
  case (snoc ys y)
  have dense: "commits = map word_of_nat [0..<Suc (length ys)]" and len: "length ys < 2 ^ 64"
    and lc: "dbs_last_committed_tape_file_number b = Some (last commits)"
    using assms snoc by (auto simp: boundary_inv_def)
  have "n \<in> set commits \<longleftrightarrow> (\<exists>i \<le> length ys. n = word_of_nat i)"
    unfolding dense by (auto simp: less_Suc_eq_le simp del: upt_Suc)
  also have "\<dots> \<longleftrightarrow> unat n \<le> length ys"
  proof
    assume "\<exists>i \<le> length ys. n = word_of_nat i"
    then show "unat n \<le> length ys" using len by (auto simp: unat_word_of_nat)
  next
    assume "unat n \<le> length ys"
    then show "\<exists>i \<le> length ys. n = word_of_nat i" by (intro exI [of _ "unat n"]) simp
  qed
  also have "\<dots> \<longleftrightarrow> contains_committed_tape_file b n"
    using last_committed_dense [OF len dense] by (simp add: contains_committed_tape_file_def lc word_le_nat_alt)
  finally show ?thesis ..
qed

section \<open>Claims\<close>

text \<open>C36: A tape file counts as durable exactly when its commit has succeeded. After any sequence of
  begin, commit and abandon calls on a new tape, whatever calls were refused, the committed tape files
  are numbered densely from zero in the order of their commits, the boundary contains exactly these, and
  a tape file in flight is the next one.\<close>

theorem durable_boundary_exact:
  "let (b, commits) = boundary_calls calls in
     commits = map word_of_nat [0..<length commits] \<and>
     (\<forall>n. contains_committed_tape_file b n = (n \<in> set commits)) \<and>
     (case dbs_outstanding b of None \<Rightarrow> True
      | Some out \<Rightarrow> unat (otc_tape_file_number out) = length commits)"
proof -
  obtain b commits where c: "boundary_calls calls = (b, commits)" by fastforce
  have inv: "boundary_inv (b, commits)" using boundary_inv_calls [of calls] c by simp
  then show ?thesis
    using boundary_inv_contains [OF inv] by (simp add: c boundary_inv_def split: option.splits)
qed

text \<open>C37: The read side trusts exactly the validated tape files. A scoped map over valid entries has a
  recovery boundary if and only if the validated prefix lies inside the map, and a tape file of the map
  is inside the boundary if and only if it is validated.\<close>

theorem from_scoped_map_exact:
  assumes "valid_map (scoped_map s)"
  shows "((\<exists>b. from_scoped_map s = Inr b) \<longleftrightarrow>
      (case validated_prefix_tape_files s of None \<Rightarrow> True
       | Some p \<Rightarrow> unat p \<le> length (map_entries (scoped_map s)))) \<and>
    (from_scoped_map s = Inr b \<and> unat n < length (map_entries (scoped_map s)) \<longrightarrow>
      contains_committed_tape_file b n = is_validated s n)"
proof -
  let ?es = "map_entries (scoped_map s)"
  have num: "unat (tape_file_number (?es ! i)) = i" if "i < length ?es" for i
    using valid_entry(2) [OF assms that] .
  show ?thesis
  proof (cases "validated_prefix_tape_files s")
    case None
    have "unat (tape_file_number (last ?es)) = length ?es - 1" if "?es \<noteq> []"
      using num [of "length ?es - 1"] that by (simp add: last_conv_nth)
    then show ?thesis
      using None by (auto simp: from_scoped_map_def Let_def from_last_committed_tape_file_number_def
          contains_committed_tape_file_def is_validated_def word_le_nat_alt)
  next
    case (Some p)
    show ?thesis
    proof (cases "p = 0")
      case True
      then show ?thesis
        using Some by (auto simp: from_scoped_map_def Let_def from_last_committed_tape_file_number_def
            contains_committed_tape_file_def is_validated_def)
    next
      case False
      then have p: "unat (p - 1) = unat p - 1" "0 < unat p"
        using unat_sub [of 1 p] by (auto simp: word_le_nat_alt unat_gt_0 Suc_le_eq)
      have "tape_file_number (?es ! unat (p - 1)) = p - 1" if "unat (p - 1) < length ?es"
        using num [OF that] by (rule word_eq_of_unat)
      then show ?thesis
        using Some False p
        by (auto simp: from_scoped_map_def Let_def from_last_committed_tape_file_number_def
          contains_committed_tape_file_def is_validated_def word_le_nat_alt word_less_nat_alt)
    qed
  qed
qed

theorem from_scoped_map_exact_witness:
  "\<exists>b. from_scoped_map \<lparr>scoped_map = sample_map, validated_prefix_tape_files = Some 2, scope = Prefix 4 0,
       sidecar_directory = None, map_source = Walk\<rparr> = Inr b \<and>
     contains_committed_tape_file b 1 \<and> \<not> contains_committed_tape_file b 2"
proof -
  let ?s = "\<lparr>scoped_map = sample_map, validated_prefix_tape_files = Some 2, scope = Prefix 4 0,
       sidecar_directory = None, map_source = Walk\<rparr>"
  have v: "valid_map (scoped_map ?s)" by (simp add: sample_map_valid)
  have l: "length (map_entries sample_map) = 5" by code_simp
  obtain b where b: "from_scoped_map ?s = Inr b" using from_scoped_map_exact [OF v] l by auto
  show ?thesis
    using from_scoped_map_exact [OF v, of b 1] from_scoped_map_exact [OF v, of b 2] b l
    by (auto simp: is_validated_def)
qed

end
