(* ===== verification/Spec2Isabelle.thy ===== *)
theory Spec2Isabelle
  imports CheckValue ReedSolomon FilemarkMap ControlLayout ParityMapPayload BlockBuffer ParityMapFile TerminalTail SidecarIndex SidecarFile EpochAccumulator DurableBoundary
begin

text \<open>
  Verification of the tape parity layer of \<open>remanence\<close>.
\<close>

end
